(* ===== verification/Prelude.thy ===== *)
theory Prelude
  imports Main "HOL-Library.Word"
begin

text \<open>
  Shared vocabulary of the development: the C integer types as words, the status codes of
  the Foundation libraries and of the kernel, words made of bytes (the order SRC32 uses and the
  other one), and the generic facts on lists and words that the component theories use.
\<close>

unbundle bit_operations_syntax

section \<open>C integer types and status codes\<close>

type_synonym u8 = "8 word"
type_synonym u16 = "16 word"
type_synonym u32 = "32 word"
type_synonym u64 = "64 word"

text \<open>The status codes of the conversion libraries (\<open>foundation/include/foundation/conde.h\<close>).\<close>

abbreviation CONDE_OK :: int where "CONDE_OK \<equiv> 0"
abbreviation CONDE_DATA :: int where "CONDE_DATA \<equiv> 1"
abbreviation CONDE_PARAMETER :: int where "CONDE_PARAMETER \<equiv> 5"
abbreviation CONDE_INPUT_EOF :: int where "CONDE_INPUT_EOF \<equiv> 6"
abbreviation CONDE_OUTPUT_EOF :: int where "CONDE_OUTPUT_EOF \<equiv> 7"

text \<open>The kernel error codes (\<open>foundation/include/foundation/errors.h\<close>).\<close>

abbreviation FND_OK :: int where "FND_OK \<equiv> 0"
abbreviation FND_E_BAD_CALL :: int where "FND_E_BAD_CALL \<equiv> - 1"
abbreviation FND_E_BAD_ARG :: int where "FND_E_BAD_ARG \<equiv> - 2"
abbreviation FND_E_BAD_HANDLE :: int where "FND_E_BAD_HANDLE \<equiv> - 3"
abbreviation FND_E_ACCESS :: int where "FND_E_ACCESS \<equiv> - 4"
abbreviation FND_E_NO_MEMORY :: int where "FND_E_NO_MEMORY \<equiv> - 5"
abbreviation FND_E_LIMIT :: int where "FND_E_LIMIT \<equiv> - 6"
abbreviation FND_E_PEER_GONE :: int where "FND_E_PEER_GONE \<equiv> - 7"
abbreviation FND_E_TIMEOUT :: int where "FND_E_TIMEOUT \<equiv> - 8"
abbreviation FND_E_WOULD_BLOCK :: int where "FND_E_WOULD_BLOCK \<equiv> - 9"
abbreviation FND_E_NOT_FOUND :: int where "FND_E_NOT_FOUND \<equiv> - 10"
abbreviation FND_E_EXISTS :: int where "FND_E_EXISTS \<equiv> - 11"
abbreviation FND_E_FORMAT :: int where "FND_E_FORMAT \<equiv> - 12"
abbreviation FND_E_UNSUPPORTED :: int where "FND_E_UNSUPPORTED \<equiv> - 13"
abbreviation FND_E_ADDRESS_CONFLICT :: int where "FND_E_ADDRESS_CONFLICT \<equiv> - 14"
abbreviation FND_E_REGION_LIMIT :: int where "FND_E_REGION_LIMIT \<equiv> - 15"
abbreviation FND_E_IO :: int where "FND_E_IO \<equiv> - 16"
abbreviation FND_E_NO_MEDIA :: int where "FND_E_NO_MEDIA \<equiv> - 17"
abbreviation FND_E_READ_ONLY :: int where "FND_E_READ_ONLY \<equiv> - 18"
abbreviation FND_E_BUSY :: int where "FND_E_BUSY \<equiv> - 19"
abbreviation FND_E_KILLED :: int where "FND_E_KILLED \<equiv> - 20"
abbreviation FND_E_DEPENDENCY :: int where "FND_E_DEPENDENCY \<equiv> - 21"

section \<open>Characters\<close>

text \<open>C strings are the lists of their bytes, without the NUL that ends them.\<close>

definition str :: "string \<Rightarrow> u8 list" where
  "str = map of_char"

definition is_lower :: "u8 \<Rightarrow> bool" where "is_lower c \<longleftrightarrow> 0x61 \<le> c \<and> c \<le> 0x7A"
definition is_digit :: "u8 \<Rightarrow> bool" where "is_digit c \<longleftrightarrow> 0x30 \<le> c \<and> c \<le> 0x39"

section \<open>Words from bytes\<close>

text \<open>\<open>be32 a b c d\<close> is the 32-bit word whose bytes are \<open>a\<close> (most significant) to \<open>d\<close>.\<close>

definition be32 :: "u8 \<Rightarrow> u8 \<Rightarrow> u8 \<Rightarrow> u8 \<Rightarrow> u32" where
  "be32 a b c d = push_bit 24 (ucast a) OR push_bit 16 (ucast b) OR push_bit 8 (ucast c) OR ucast d"

definition byte_at :: "nat \<Rightarrow> u32 \<Rightarrow> u8" where
  "byte_at k w = ucast (drop_bit (8 * k) w)"

lemma be32_bit:
  "bit (be32 a b c d) n =
     (if n < 8 then bit d n else if n < 16 then bit c (n - 8)
      else if n < 24 then bit b (n - 16) else n < 32 \<and> bit a (n - 24))"
  by (auto simp: be32_def bit_simps dest: bit_imp_le_length)

lemma byte_at_bit: "bit (byte_at k w) n \<longleftrightarrow> n < 8 \<and> bit w (8 * k + n)"
  by (auto simp: byte_at_def bit_simps dest: bit_imp_le_length)

lemma word8_eq_bits: "((a::u8) = b) \<longleftrightarrow> (\<forall>n<8. bit a n = bit b n)"
  by (auto intro!: bit_word_eqI)

lemma word32_eq_bits: "((a::u32) = b) \<longleftrightarrow> (\<forall>n<32. bit a n = bit b n)"
  by (auto intro!: bit_word_eqI)

lemma all_less32:
  "(\<forall>n<(32::nat). P n) \<longleftrightarrow>
     (\<forall>n<8. P n) \<and> (\<forall>n<8. P (n+8)) \<and> (\<forall>n<8. P (n+16)) \<and> (\<forall>n<8. P (n+24))"
proof (intro iffI conjI allI impI; (elim conjE)?)
  fix n :: nat assume "n < 32"
    and h: "\<forall>n<8. P n" "\<forall>n<8. P (n+8)" "\<forall>n<8. P (n+16)" "\<forall>n<8. P (n+24)"
  then consider "n < 8" | "n - 8 < 8" "8 \<le> n" | "n - 16 < 8" "16 \<le> n" | "n - 24 < 8" "24 \<le> n"
    by linarith
  then show "P n" using h by (cases; metis le_add_diff_inverse2)
qed auto

lemma be32_eq_iff: "be32 a b c d = be32 a' b' c' d' \<longleftrightarrow> a = a' \<and> b = b' \<and> c = c' \<and> d = d'"
  unfolding word32_eq_bits all_less32 word8_eq_bits
  by (auto simp: be32_bit)

lemma byte_at_be32 [simp]:
  "byte_at 0 (be32 a b c d) = d" "byte_at (Suc 0) (be32 a b c d) = c"
  "byte_at 2 (be32 a b c d) = b" "byte_at 3 (be32 a b c d) = a"
  by (auto simp: word8_eq_bits byte_at_bit be32_bit)

lemma be32_byte_at [simp]: "be32 (byte_at 3 w) (byte_at 2 w) (byte_at (Suc 0) w) (byte_at 0 w) = w"
  unfolding word32_eq_bits all_less32
  by (auto simp: byte_at_bit be32_bit add.commute)

lemma and_plus_and_not: "(x AND m) + (x AND NOT m) = (x :: 'a::len word)"
proof -
  have "(x AND m) + (x AND NOT m) = (x AND m) OR (x AND NOT m)"
    by (rule disjunctive_add) (simp add: bit_simps)
  also have "\<dots> = x" by (auto intro!: bit_word_eqI simp: bit_simps)
  finally show ?thesis .
qed

section \<open>Lists\<close>

text \<open>A loop over a list whose body may not return.\<close>

fun fold_option :: "('a \<Rightarrow> 's \<Rightarrow> 's option) \<Rightarrow> 'a list \<Rightarrow> 's \<Rightarrow> 's option" where
  "fold_option f [] s = Some s"
| "fold_option f (x # xs) s = (case f x s of None \<Rightarrow> None | Some s \<Rightarrow> fold_option f xs s)"

lemma fold_option_cong [fundef_cong]:
  "xs = ys \<Longrightarrow> s = t \<Longrightarrow> (\<And>x s. x \<in> set ys \<Longrightarrow> f x s = g x s) \<Longrightarrow> fold_option f xs s = fold_option g ys t"
  by (induction ys arbitrary: xs s t) (auto split: option.splits)

lemma fold_option_total:
  "(\<And>x s. x \<in> set xs \<Longrightarrow> f x s \<noteq> None) \<Longrightarrow> fold_option f xs s \<noteq> None"
  by (induction xs arbitrary: s) (auto split: option.splits)

lemma fold_option_fold:
  "(\<And>x s. x \<in> set xs \<Longrightarrow> f x s = Some (g x s)) \<Longrightarrow> fold_option f xs s = Some (fold g xs s)"
  by (induction xs arbitrary: s) simp_all

lemma take_Suc_drop: "i < length xs \<Longrightarrow> take (Suc n) (drop i xs) = xs ! i # take n (drop (Suc i) xs)"
  by (simp add: Cons_nth_drop_Suc [symmetric])

lemma take_drop_map_nth:
  "i + n \<le> length xs \<Longrightarrow> take n (drop i xs) = map (\<lambda>k. xs ! (i + k)) [0..<n]"
  by (auto intro: nth_equalityI)

lemma take_drop_replicate:
  "i + n \<le> length xs \<Longrightarrow> (\<forall>k<n. xs ! (i + k) = b) \<Longrightarrow> take n (drop i xs) = replicate n b"
  by (auto intro: nth_equalityI)

lemma nat_down_induct [consumes 1, case_names step]:
  assumes "(i::nat) \<le> n" and "\<And>i. i \<le> n \<Longrightarrow> (\<And>j. i < j \<Longrightarrow> j \<le> n \<Longrightarrow> P j) \<Longrightarrow> P i"
  shows "P i"
  using assms(1)
proof (induction "n - i" arbitrary: i rule: less_induct)
  case less
  show ?case by (rule assms(2) [OF less.prems]) (rule less.hyps; simp)
qed

lemma find_SomeD: "find P xs = Some x \<Longrightarrow> x \<in> set xs \<and> P x"
  by (induction xs) (auto split: if_splits)

lemma find_upt: "k < n \<Longrightarrow> P k \<Longrightarrow> (\<And>j. j < k \<Longrightarrow> \<not> P j) \<Longrightarrow> find P [0..<n] = Some k"
  by (auto simp: find_Some_iff intro!: exI [of _ k])

end
