(* ===== verification/Conde.thy ===== *)
theory Conde
  imports Prelude
begin

text \<open>
  What the conversion libraries return (\<open>foundation/include/foundation/conde.h\<close>): the status, the length
  stored in \<open>*dst_size\<close> (0 unless the call succeeds) and the bytes written at \<open>dst\<close>.
\<close>

record conde_result =
  status :: int
  dst_size :: nat
  dst :: "u8 list"

definition conde_fail :: "int \<Rightarrow> u8 list \<Rightarrow> conde_result" where
  "conde_fail e out = \<lparr>status = e, dst_size = 0, dst = out\<rparr>"

definition conde_done :: "u8 list \<Rightarrow> conde_result" where
  "conde_done out = \<lparr>status = CONDE_OK, dst_size = length out, dst = out\<rparr>"

lemma conde_result_simps [simp]:
  "status (conde_fail e out) = e" "dst_size (conde_fail e out) = 0" "dst (conde_fail e out) = out"
  "status (conde_done out) = CONDE_OK" "dst_size (conde_done out) = length out" "dst (conde_done out) = out"
  by (simp_all add: conde_fail_def conde_done_def)

end
