(* ===== verification/Rle.thy ===== *)
theory Rle
  imports Conde
begin

text \<open>
  The PackBits run-length coder of \<open>foundation/lib/rle/rle.c\<close>. Both byte orders of the
  \<open>#if\<close> in the source are modelled: \<open>big\<close> is the condition it tests. The loops are
  functions of the read position; the bytes stored at \<open>dst\<close> are a list, whose length is
  the C variable \<open>o\<close>. Buffer sizes are below \<open>2 ^ 32\<close>, so the positions are \<open>nat\<close>: the
  subtractions of the source (\<open>n - i\<close>, \<open>capacity - o\<close>) never go below zero there.
\<close>

section \<open>Word access\<close>

definition load :: "bool \<Rightarrow> u8 list \<Rightarrow> nat \<Rightarrow> u32" where
  "load big p i =
     (if big then be32 (p ! i) (p ! (i + 1)) (p ! (i + 2)) (p ! (i + 3))
      else be32 (p ! (i + 3)) (p ! (i + 2)) (p ! (i + 1)) (p ! i))"

definition store :: "bool \<Rightarrow> u32 \<Rightarrow> u8 list" where
  "store big v =
     (if big then [byte_at 3 v, byte_at 2 v, byte_at 1 v, byte_at 0 v]
      else [byte_at 0 v, byte_at 1 v, byte_at 2 v, byte_at 3 v])"

definition RUN_AT_0 :: "bool \<Rightarrow> u32" where
  "RUN_AT_0 big = (if big then 0xFFFF0000 else 0x00FFFF00)"

definition RUN_AT_1 :: "bool \<Rightarrow> u32" where
  "RUN_AT_1 big = (if big then 0x00FFFF00 else 0xFFFF0000)"

definition same_bytes :: "u8 \<Rightarrow> u32" where
  "same_bytes b = ucast b * 0x01010101"

function rle_copy :: "bool \<Rightarrow> u8 list \<Rightarrow> nat \<Rightarrow> nat \<Rightarrow> u8 list" where
  "rle_copy big src i n =
     (if 4 \<le> n then store big (load big src i) @ rle_copy big src (i + 4) (n - 4)
      else map (\<lambda>k. src ! (i + k)) [0..<n])"
  by pat_completeness auto
termination by (relation "measure (\<lambda>(_, _, _, n). n)") auto

function rle_fill :: "bool \<Rightarrow> u8 \<Rightarrow> nat \<Rightarrow> u8 list" where
  "rle_fill big b n =
     (if 4 \<le> n then store big (same_bytes b) @ rle_fill big b (n - 4) else replicate n b)"
  by pat_completeness auto
termination by (relation "measure (\<lambda>(_, _, n). n)") auto

declare rle_copy.simps [simp del] rle_fill.simps [simp del]

lemma same_bytes_be32: "same_bytes b = be32 b b b b"
proof -
  have "be32 b b b b = push_bit 24 (ucast b) + (push_bit 16 (ucast b) + (push_bit 8 (ucast b) + ucast b))"
    unfolding be32_def
    by (subst disjunctive_add, force simp: bit_simps dest: bit_imp_le_length)+ (simp add: or.assoc)
  then show ?thesis
    by (simp add: same_bytes_def push_bit_eq_mult algebra_simps)
qed

lemma store_load: "store big (load big p i) = [p ! i, p ! (i + 1), p ! (i + 2), p ! (i + 3)]"
  by (simp add: store_def load_def)

lemma store_same: "store big (same_bytes b) = [b, b, b, b]"
  by (simp add: store_def same_bytes_be32)

lemma load_same_iff:
  "load big p i = same_bytes b \<longleftrightarrow>
     p ! i = b \<and> p ! (i + 1) = b \<and> p ! (i + 2) = b \<and> p ! (i + 3) = b"
  by (auto simp: load_def same_bytes_be32 be32_eq_iff)

lemma rle_copy_eq: "i + n \<le> length src \<Longrightarrow> rle_copy big src i n = take n (drop i src)"
proof (induction big src i n rule: rle_copy.induct)
  case (1 big src i n)
  show ?case
  proof (cases "4 \<le> n")
    case True
    define m where "m = n - 4"
    have n: "n = Suc (Suc (Suc (Suc m)))" using True by (simp add: m_def)
    have "rle_copy big src (i + 4) m = take m (drop (i + 4) src)"
      using "1.IH" [OF True] "1.prems" True by (simp add: m_def)
    then show ?thesis
      using "1.prems" n
      by (simp add: rle_copy.simps [of big src i] store_load take_Suc_drop numeral_eq_Suc)
  next
    case False
    then show ?thesis
      using "1.prems" by (simp add: rle_copy.simps [of big src i n] take_drop_map_nth)
  qed
qed

lemma rle_fill_eq: "rle_fill big b n = replicate n b"
proof (induction big b n rule: rle_fill.induct)
  case (1 big b n)
  show ?case
  proof (cases "4 \<le> n")
    case True
    then have "replicate n b = replicate 4 b @ replicate (n - 4) b"
      by (metis le_add_diff_inverse replicate_add)
    then show ?thesis
      using True "1.IH" by (simp add: rle_fill.simps [of big b n] store_same numeral_eq_Suc)
  qed (simp add: rle_fill.simps [of big b n])
qed

lemma run_mask:
  "(be32 a b c d XOR push_bit 8 (be32 a b c d)) AND 0xFFFF0000 = 0 \<longleftrightarrow> a = b \<and> b = c"
  "(be32 a b c d XOR push_bit 8 (be32 a b c d)) AND 0x00FFFF00 = 0 \<longleftrightarrow> b = c \<and> c = d"
proof -
  have m: "(0xFFFF0000::u32) = push_bit 16 (mask 16)" "(0x00FFFF00::u32) = push_bit 8 (mask 16)"
    by (simp_all add: mask_eq_exp_minus_1)
  show "(be32 a b c d XOR push_bit 8 (be32 a b c d)) AND 0xFFFF0000 = 0 \<longleftrightarrow> a = b \<and> b = c"
    unfolding m by (subst word32_eq_bits) (auto simp: all_less32 word8_eq_bits bit_simps be32_bit)
  show "(be32 a b c d XOR push_bit 8 (be32 a b c d)) AND 0x00FFFF00 = 0 \<longleftrightarrow> b = c \<and> c = d"
    unfolding m by (subst word32_eq_bits) (auto simp: all_less32 word8_eq_bits bit_simps be32_bit)
qed

lemma run_at:
  "(load big p k XOR push_bit 8 (load big p k)) AND RUN_AT_0 big = 0 \<longleftrightarrow>
     p ! k = p ! (k + 1) \<and> p ! (k + 1) = p ! (k + 2)"
  "(load big p k XOR push_bit 8 (load big p k)) AND RUN_AT_1 big = 0 \<longleftrightarrow>
     p ! (k + 1) = p ! (k + 2) \<and> p ! (k + 2) = p ! (k + 3)"
  by (auto simp: load_def RUN_AT_0_def RUN_AT_1_def run_mask)

section \<open>Runs and literals\<close>

function run_words :: "bool \<Rightarrow> u8 list \<Rightarrow> u32 \<Rightarrow> nat \<Rightarrow> nat \<Rightarrow> nat" where
  "run_words big src w j limit =
     (if j + 4 \<le> limit \<and> load big src j = w then run_words big src w (j + 4) limit else j)"
  by pat_completeness auto
termination by (relation "measure (\<lambda>(_, _, _, j, limit). limit - j)") auto

function run_bytes :: "u8 list \<Rightarrow> u8 \<Rightarrow> nat \<Rightarrow> nat \<Rightarrow> nat" where
  "run_bytes src b j limit =
     (if j < limit \<and> src ! j = b then run_bytes src b (j + 1) limit else j)"
  by pat_completeness auto
termination by (relation "measure (\<lambda>(_, _, j, limit). limit - j)") auto

declare run_words.simps [simp del] run_bytes.simps [simp del]

definition run_length :: "bool \<Rightarrow> u8 list \<Rightarrow> nat \<Rightarrow> nat \<Rightarrow> nat" where
  "run_length big src i n =
     (let b = src ! i;
          limit = (if n - i < 128 then n else i + 128);
          j = run_words big src (same_bytes b) (i + 1) limit
      in run_bytes src b j limit - i)"

function literal_end :: "bool \<Rightarrow> u8 list \<Rightarrow> nat \<Rightarrow> nat \<Rightarrow> nat \<Rightarrow> nat" where
  "literal_end big src k limit n =
     (if k < limit then
        if k + 4 \<le> n then
          let w = load big src k; d = w XOR push_bit 8 w in
          if d AND RUN_AT_0 big = 0 then k
          else if d AND RUN_AT_1 big = 0 then k + 1
          else literal_end big src (k + 2) limit n
        else if k + 2 < n \<and> src ! k = src ! (k + 1) \<and> src ! k = src ! (k + 2) then k
        else literal_end big src (k + 1) limit n
      else limit)"
  by pat_completeness auto
termination by (relation "measure (\<lambda>(_, _, k, limit, _). limit - k)") auto

declare literal_end.simps [simp del]

lemma run_words_run:
  "j \<le> limit \<Longrightarrow> j \<le> run_words big src (same_bytes b) j limit \<and>
     run_words big src (same_bytes b) j limit \<le> limit \<and>
     (\<forall>k. j \<le> k \<longrightarrow> k < run_words big src (same_bytes b) j limit \<longrightarrow> src ! k = b)"
proof (induction big src "same_bytes b" j limit rule: run_words.induct)
  case (1 big src j limit)
  show ?case
  proof (cases "j + 4 \<le> limit \<and> load big src j = same_bytes b")
    case True
    then have head: "\<forall>k. j \<le> k \<longrightarrow> k < j + 4 \<longrightarrow> src ! k = b"
      by (auto simp: load_same_iff less_Suc_eq numeral_eq_Suc le_less_Suc_eq dest!: le_Suc_ex)
    from True "1.hyps" have "j + 4 \<le> run_words big src (same_bytes b) (j + 4) limit \<and>
        run_words big src (same_bytes b) (j + 4) limit \<le> limit \<and>
        (\<forall>k. j + 4 \<le> k \<longrightarrow> k < run_words big src (same_bytes b) (j + 4) limit \<longrightarrow> src ! k = b)"
      by simp
    with True head show ?thesis
      by (auto simp: run_words.simps [of big src "same_bytes b" j limit])
  next
    case False
    then have "run_words big src (same_bytes b) j limit = j"
      by (subst run_words.simps) (simp only: if_False)
    with "1.prems" show ?thesis by simp
  qed
qed

lemma run_bytes_run:
  "j \<le> limit \<Longrightarrow> j \<le> run_bytes src b j limit \<and> run_bytes src b j limit \<le> limit \<and>
     (\<forall>k. j \<le> k \<longrightarrow> k < run_bytes src b j limit \<longrightarrow> src ! k = b) \<and>
     (run_bytes src b j limit < limit \<longrightarrow> src ! run_bytes src b j limit \<noteq> b)"
proof (induction src b j limit rule: run_bytes.induct)
  case (1 src b j limit)
  note unf = run_bytes.simps [of src b j limit]
  show ?case
  proof (cases "j < limit \<and> src ! j = b")
    case True
    then have "run_bytes src b j limit = run_bytes src b (j + 1) limit" by (simp add: unf)
    moreover have "k = j \<or> j + 1 \<le> k" if "j \<le> k" for k using that by arith
    ultimately show ?thesis using True "1.IH" [OF True] by (metis Suc_eq_plus1 Suc_leD Suc_leI)
  next
    case False
    then have "run_bytes src b j limit = j" by (subst unf) (simp only: if_False)
    with False "1.prems" show ?thesis by auto
  qed
qed

text \<open>\<open>run_length\<close> is the length of the maximal run at \<open>i\<close>, cut at 128 and at the end.\<close>

lemma run_length_spec:
  fixes src :: "u8 list" and big :: bool
  assumes "i < n"
  defines "r \<equiv> run_length big src i n"
  shows "0 < r" "r \<le> 128" "i + r \<le> n" "\<forall>k<r. src ! (i + k) = src ! i"
    "r < 128 \<Longrightarrow> i + r < n \<Longrightarrow> src ! (i + r) \<noteq> src ! i"
proof -
  define b limit j where "b = src ! i"
    and limit: "limit = (if n - i < 128 then n else i + 128)"
    and j: "j = run_words big src (same_bytes b) (i + 1) limit"
  have lim: "i + 1 \<le> limit" "limit \<le> n" "limit \<le> i + 128" using assms(1) by (auto simp: limit)
  note w = run_words_run [OF lim(1), of big src b, folded j]
  then have jl: "j \<le> limit" by simp
  note e = run_bytes_run [OF jl, of src b]
  have r: "r = run_bytes src b j limit - i"
    by (simp add: r_def run_length_def Let_def limit j b_def)
  have e1: "i + 1 \<le> run_bytes src b j limit" "run_bytes src b j limit \<le> limit"
    using w e by linarith+
  then show "0 < r" "r \<le> 128" "i + r \<le> n" using lim unfolding r by linarith+
  have all: "src ! k = b" if "i \<le> k" "k < run_bytes src b j limit" for k
  proof (cases "k = i")
    case True
    then show ?thesis by (simp add: b_def)
  next
    case False
    then have "i + 1 \<le> k" using that by simp
    then show ?thesis using w e that(2) by (cases "k < j") auto
  qed
  show "\<forall>k<r. src ! (i + k) = src ! i"
  proof (intro allI impI)
    fix k assume "k < r"
    then show "src ! (i + k) = src ! i" using all [of "i + k"] e1 by (simp add: r b_def)
  qed
  have ir: "i + r = run_bytes src b j limit" using e1 by (simp add: r)
  show "src ! (i + r) \<noteq> src ! i" if "r < 128" "i + r < n"
  proof -
    have "i + r < limit" using that by (simp add: limit)
    then show ?thesis using e by (simp add: ir b_def)
  qed
qed

lemma run_length_ge2:
  "i + 1 < n \<Longrightarrow> src ! (i + 1) = src ! i \<Longrightarrow> 2 \<le> run_length big src i n"
proof (rule ccontr)
  assume h: "i + 1 < n" "src ! (i + 1) = src ! i" "\<not> 2 \<le> run_length big src i n"
  have "0 < run_length big src i n" using h(1) by (intro run_length_spec(1)) simp
  with h(3) have "run_length big src i n = 1" by simp
  with run_length_spec(5) [of i n big src] h(1,2) show False by simp
qed

lemma run_length_ge3:
  assumes "i + 2 < n" "src ! (i + 1) = src ! i" "src ! (i + 2) = src ! i"
  shows "3 \<le> run_length big src i n"
proof (rule ccontr)
  assume "\<not> 3 \<le> run_length big src i n"
  with run_length_ge2 [of i n src big] assms have "run_length big src i n = 2" by simp
  with run_length_spec(5) [of i n big src] assms show False by simp
qed

text \<open>
  \<open>literal_end\<close> stops at the first run of three after the start of the literal, or at the
  limit.
\<close>

definition run3 :: "u8 list \<Rightarrow> nat \<Rightarrow> nat \<Rightarrow> bool" where
  "run3 src n k \<longleftrightarrow> k + 2 < n \<and> src ! k = src ! (k + 1) \<and> src ! k = src ! (k + 2)"

lemma literal_end_spec:
  "k \<le> limit \<Longrightarrow> limit \<le> n \<Longrightarrow>
     k \<le> literal_end big src k limit n \<and> literal_end big src k limit n \<le> limit \<and>
     (literal_end big src k limit n < limit \<longrightarrow> run3 src n (literal_end big src k limit n)) \<and>
     (\<forall>j. k \<le> j \<longrightarrow> j < literal_end big src k limit n \<longrightarrow> \<not> run3 src n j)"
proof (induction big src k limit n rule: literal_end.induct)
  case (1 big src k limit n)
  note unf = literal_end.simps [of big src k limit n]
  consider (stop) "\<not> k < limit" | (at) "k < limit" "run3 src n k"
    | (at1) "k < limit" "k + 4 \<le> n" "\<not> run3 src n k" "run3 src n (k + 1)"
    | (word) "k < limit" "k + 4 \<le> n" "\<not> run3 src n k" "\<not> run3 src n (k + 1)"
    | (byte) "k < limit" "\<not> k + 4 \<le> n" "\<not> run3 src n k"
    by blast
  then show ?case
  proof cases
    case stop
    then have "literal_end big src k limit n = limit" by (simp add: unf)
    with stop show ?thesis using "1.prems" by simp
  next
    case at
    then have "literal_end big src k limit n = k"
      by (auto simp: unf run3_def Let_def run_at)
    with at show ?thesis by simp
  next
    case at1
    then have "literal_end big src k limit n = k + 1"
      by (auto simp: unf run3_def Let_def run_at numeral_3_eq_3)
    with at1 show ?thesis by (auto simp: le_Suc_eq less_Suc_eq_le)
  next
    case word
    then have nz: "(load big src k XOR push_bit 8 (load big src k)) AND RUN_AT_0 big \<noteq> 0"
      "(load big src k XOR push_bit 8 (load big src k)) AND RUN_AT_1 big \<noteq> 0"
      by (auto simp: run3_def run_at numeral_3_eq_3)
    then have eq: "literal_end big src k limit n = literal_end big src (k + 2) limit n"
      using word by (simp add: unf Let_def)
    show ?thesis
    proof (cases "k + 2 \<le> limit")
      case True
      with "1.IH"(1) word nz "1.prems"
      have "k + 2 \<le> literal_end big src (k + 2) limit n \<and> literal_end big src (k + 2) limit n \<le> limit \<and>
        (literal_end big src (k + 2) limit n < limit \<longrightarrow> run3 src n (literal_end big src (k + 2) limit n)) \<and>
        (\<forall>j. k + 2 \<le> j \<longrightarrow> j < literal_end big src (k + 2) limit n \<longrightarrow> \<not> run3 src n j)"
        by blast
      moreover have "j = k \<or> j = k + 1 \<or> k + 2 \<le> j" if "k \<le> j" for j using that by arith
      ultimately show ?thesis using word eq by (metis add_leD1)
    next
      case False
      then have "\<not> k + 2 < limit" by simp
      then have "literal_end big src (k + 2) limit n = limit"
        by (subst literal_end.simps) (simp only: if_False)
      moreover have "j = k" if "k \<le> j" "j < limit" for j using that False by arith
      ultimately show ?thesis using word eq "1.prems" by auto
    qed
  next
    case byte
    then have eq: "literal_end big src k limit n = literal_end big src (k + 1) limit n"
      by (auto simp: unf run3_def)
    have "k + 1 \<le> literal_end big src (k + 1) limit n \<and> literal_end big src (k + 1) limit n \<le> limit \<and>
        (literal_end big src (k + 1) limit n < limit \<longrightarrow> run3 src n (literal_end big src (k + 1) limit n)) \<and>
        (\<forall>j. k + 1 \<le> j \<longrightarrow> j < literal_end big src (k + 1) limit n \<longrightarrow> \<not> run3 src n j)"
      using "1.IH"(2) byte "1.prems" by (auto simp: run3_def)
    moreover have "j = k \<or> k + 1 \<le> j" if "k \<le> j" for j using that by arith
    ultimately show ?thesis using byte eq by (metis add_leD1)
  qed
qed

section \<open>Compression\<close>

text \<open>The test that chooses a repeat: three equal bytes, or two that continue a run cut at 128.\<close>

definition takes_run :: "u8 list \<Rightarrow> nat \<Rightarrow> nat \<Rightarrow> bool" where
  "takes_run src n i \<longleftrightarrow>
     i + 1 < n \<and> src ! (i + 1) = src ! i \<and>
     ((i + 2 < n \<and> src ! (i + 2) = src ! i) \<or> (0 < i \<and> src ! (i - 1) = src ! i))"

definition literal_len :: "bool \<Rightarrow> u8 list \<Rightarrow> nat \<Rightarrow> nat \<Rightarrow> nat" where
  "literal_len big src n i =
     literal_end big src (i + 1) (if n - i < 128 then n else i + 128) n - i"

lemma literal_len_spec:
  assumes "i < n"
  shows "0 < literal_len big src n i" "literal_len big src n i \<le> 128" "i + literal_len big src n i \<le> n"
    "literal_len big src n i < 128 \<Longrightarrow> i + literal_len big src n i < n \<Longrightarrow>
       run3 src n (i + literal_len big src n i)"
proof -
  define limit where "limit = (if n - i < 128 then n else i + 128)"
  define e where "e = literal_end big src (i + 1) limit n"
  have lim: "i + 1 \<le> limit" "limit \<le> n" "limit \<le> i + 128" "limit < n \<Longrightarrow> limit = i + 128"
    using assms by (auto simp: limit_def)
  note s = literal_end_spec [OF lim(1,2), of big src, folded e_def]
  have m: "literal_len big src n i = e - i" by (simp add: literal_len_def e_def limit_def)
  show "0 < literal_len big src n i" "literal_len big src n i \<le> 128" "i + literal_len big src n i \<le> n"
    using s lim unfolding m by linarith+
  assume "literal_len big src n i < 128" "i + literal_len big src n i < n"
  then have "e < limit" using s lim unfolding m by linarith
  then show "run3 src n (i + literal_len big src n i)" using s by (simp add: m)
qed

function compress_loop :: "bool \<Rightarrow> u8 list \<Rightarrow> nat \<Rightarrow> nat \<Rightarrow> nat \<Rightarrow> u8 list \<Rightarrow> conde_result" where
  "compress_loop big src n capacity i out =
     (if i < n then
        if takes_run src n i then
          let run = run_length big src i n in
          if capacity - length out < 2 then conde_fail CONDE_OUTPUT_EOF out
          else compress_loop big src n capacity (i + run) (out @ [of_nat (257 - run), src ! i])
        else
          let m = literal_len big src n i in
          if capacity - length out < m + 1 then conde_fail CONDE_OUTPUT_EOF out
          else compress_loop big src n capacity (i + m) (out @ of_nat (m - 1) # rle_copy big src i m)
      else conde_done out)"
  by pat_completeness auto
termination
  by (relation "measure (\<lambda>(_, _, n, _, i, _). n - i)")
    (auto intro!: diff_less_mono2 simp: literal_len_spec(1) run_length_spec(1))

declare compress_loop.simps [simp del]

text \<open>
  The pointers \<open>dst\<close> and \<open>src\<close> are given by whether they are null (\<open>None\<close>), \<open>dst_size\<close>
  by the capacity it points to. A source of \<open>src_size\<close> bytes has at least that many in the list.
\<close>

definition cpt_rle_compress ::
  "bool \<Rightarrow> bool \<Rightarrow> nat option \<Rightarrow> u8 list option \<Rightarrow> nat \<Rightarrow> nat \<Rightarrow> nat \<Rightarrow> conde_result" where
  "cpt_rle_compress big dst_null capacity src src_size level param =
     (case capacity of None \<Rightarrow> conde_fail CONDE_PARAMETER []
      | Some capacity \<Rightarrow>
          if (src_size \<noteq> 0 \<and> src = None) \<or> (capacity \<noteq> 0 \<and> dst_null) \<or> 9 < level \<or> param \<noteq> 0
          then conde_fail CONDE_PARAMETER []
          else compress_loop big (case src of Some s \<Rightarrow> s | None \<Rightarrow> []) src_size capacity 0 [])"

section \<open>Decompression\<close>

function decompress_loop :: "bool \<Rightarrow> u8 list \<Rightarrow> nat \<Rightarrow> nat \<Rightarrow> nat \<Rightarrow> u8 list \<Rightarrow> conde_result" where
  "decompress_loop big src src_size capacity i out =
     (if i < src_size then
        let c = unat (src ! i); i = i + 1 in
        if c < 128 then
          let n = c + 1 in
          if src_size - i < n then conde_fail CONDE_INPUT_EOF out
          else if capacity - length out < n then conde_fail CONDE_OUTPUT_EOF out
          else decompress_loop big src src_size capacity (i + n) (out @ rle_copy big src i n)
        else if c = 128 then conde_fail CONDE_DATA out
        else
          let n = 257 - c in
          if i = src_size then conde_fail CONDE_INPUT_EOF out
          else if capacity - length out < n then conde_fail CONDE_OUTPUT_EOF out
          else decompress_loop big src src_size capacity (i + 1) (out @ rle_fill big (src ! i) n)
      else conde_done out)"
  by pat_completeness auto
termination by (relation "measure (\<lambda>(_, _, n, _, i, _). n - i)") auto

declare decompress_loop.simps [simp del]

definition cpt_rle_decompress ::
  "bool \<Rightarrow> bool \<Rightarrow> nat option \<Rightarrow> u8 list option \<Rightarrow> nat \<Rightarrow> conde_result" where
  "cpt_rle_decompress big dst_null capacity src src_size =
     (case capacity of None \<Rightarrow> conde_fail CONDE_PARAMETER []
      | Some capacity \<Rightarrow>
          if (src_size \<noteq> 0 \<and> src = None) \<or> (capacity \<noteq> 0 \<and> dst_null)
          then conde_fail CONDE_PARAMETER []
          else decompress_loop big (case src of Some s \<Rightarrow> s | None \<Rightarrow> []) src_size capacity 0 [])"

definition cpt_rle_compress_bound :: "u32 \<Rightarrow> u32" where
  "cpt_rle_compress_bound src_size =
     (if 0xFE000000 < src_size then 0xFFFFFFFF else src_size + (src_size + 127) div 128)"

section \<open>Correctness\<close>

text \<open>The PackBits format as a function on lists: \<open>None\<close> for a malformed stream.\<close>

fun unpack :: "u8 list \<Rightarrow> u8 list option" where
  "unpack [] = Some []"
| "unpack (c # xs) =
     (if unat c < 128 then
        if length xs < unat c + 1 then None
        else map_option ((@) (take (unat c + 1) xs)) (unpack (drop (unat c + 1) xs))
      else if unat c = 128 then None
      else case xs of [] \<Rightarrow> None
        | b # ys \<Rightarrow> map_option ((@) (replicate (257 - unat c) b)) (unpack ys))"

lemma unpack_literal:
  "0 < length l \<Longrightarrow> length l \<le> 128 \<Longrightarrow>
     unpack (of_nat (length l - 1) # l @ p) = map_option ((@) l) (unpack p)"
proof -
  assume "0 < length l" "length l \<le> 128"
  moreover from this have "unat (of_nat (length l - 1) :: u8) = length l - 1"
    by (subst unat_of_nat) simp
  moreover from calculation have "length l - 1 < 128" by linarith
  ultimately show ?thesis by simp
qed

lemma unpack_run:
  assumes "2 \<le> r" "r \<le> 128"
  shows "unpack (of_nat (257 - r) # b # p) = map_option ((@) (replicate r b)) (unpack p)"
proof -
  have "unat (of_nat (257 - r) :: u8) = 257 - r"
    using assms by (subst unat_of_nat) simp
  moreover have "\<not> 257 - r < 128" "257 - r \<noteq> 128" "257 - (257 - r) = r" using assms by linarith+
  ultimately show ?thesis by (simp del: of_nat_diff)
qed

lemma run_length_drop:
  fixes big :: bool
  assumes "i < length src"
  defines "r \<equiv> run_length big src i (length src)"
  shows "drop i src = replicate r (src ! i) @ drop (i + r) src"
proof -
  have "take r (drop i src) = replicate r (src ! i)"
    using run_length_spec [OF assms(1), of big src] by (intro take_drop_replicate) (auto simp: r_def)
  then show ?thesis by (metis append_take_drop_id drop_drop add.commute)
qed

lemma compress_loop_unpack:
  "status (compress_loop big src (length src) capacity i out) = CONDE_OK \<Longrightarrow>
     \<exists>p. compress_loop big src (length src) capacity i out = conde_done (out @ p) \<and>
         unpack p = Some (drop i src)"
proof (induction big src "length src" capacity i out rule: compress_loop.induct)
  case (1 big src capacity i out)
  note unf = compress_loop.simps [of big src "length src" capacity i out]
  consider (fin) "\<not> i < length src" | (run) "i < length src" "takes_run src (length src) i"
    | (lit) "i < length src" "\<not> takes_run src (length src) i" by blast
  then show ?case
  proof cases
    case fin
    then show ?thesis by (auto simp: unf intro!: exI [of _ "[]"])
  next
    case run
    define r where "r = run_length big src i (length src)"
    from run "1.prems" have cap: "\<not> capacity - length out < 2" by (auto simp: unf Let_def)
    let ?next = "compress_loop big src (length src) capacity (i + r) (out @ [of_nat (257 - r), src ! i])"
    have eq: "compress_loop big src (length src) capacity i out = ?next"
      using run cap by (simp add: unf Let_def r_def)
    obtain p where p: "?next = conde_done ((out @ [of_nat (257 - r), src ! i]) @ p)"
      "unpack p = Some (drop (i + r) src)"
      using "1.hyps"(1) [OF run r_def cap] "1.prems" eq by auto
    have "2 \<le> r" "r \<le> 128"
      using run run_length_ge2 [of i "length src" src big] run_length_spec(2) [of i "length src" big src]
      by (auto simp: takes_run_def r_def)
    then have "unpack (of_nat (257 - r) # src ! i # p) = Some (drop i src)"
      using p(2) run_length_drop [OF run(1), of big, folded r_def] by (simp add: unpack_run del: unpack.simps of_nat_diff)
    then show ?thesis using p(1) eq
      by (intro exI [of _ "of_nat (257 - r) # src ! i # p"]) (simp del: unpack.simps of_nat_diff)
  next
    case lit
    define m where "m = literal_len big src (length src) i"
    from lit "1.prems" have cap: "\<not> capacity - length out < m + 1" by (auto simp: unf Let_def m_def)
    let ?new = "of_nat (m - 1) # rle_copy big src i m"
    let ?next = "compress_loop big src (length src) capacity (i + m) (out @ ?new)"
    have eq: "compress_loop big src (length src) capacity i out = ?next"
      using lit cap by (simp add: unf Let_def m_def)
    obtain p where p: "?next = conde_done ((out @ ?new) @ p)" "unpack p = Some (drop (i + m) src)"
      using "1.hyps"(2) [OF lit m_def cap] "1.prems" eq by auto
    note spec = literal_len_spec [OF lit(1), of big src, folded m_def]
    let ?l = "take m (drop i src)"
    have l: "length ?l = m" "rle_copy big src i m = ?l"
      using spec(3) by (simp_all add: rle_copy_eq)
    have "unpack (of_nat (length ?l - 1) # ?l @ p) = map_option ((@) ?l) (unpack p)"
      using spec(1,2) l(1) by (intro unpack_literal) simp_all
    then have "unpack (?new @ p) = Some (drop i src)"
      using p(2) l append_take_drop_id [of m "drop i src"] by (simp add: add.commute del: unpack.simps)
    then show ?thesis using p(1) eq by (intro exI [of _ "?new @ p"]) simp
  qed
qed

text \<open>
  The decoder reports success exactly when the stream is well-formed and what it stands
  for fits, and then it has written just that.
\<close>

definition decodes_to :: "conde_result \<Rightarrow> u8 list \<Rightarrow> u8 list option \<Rightarrow> nat \<Rightarrow> bool" where
  "decodes_to r out rest capacity =
     (case rest of None \<Rightarrow> status r \<noteq> CONDE_OK
      | Some ys \<Rightarrow> if length out + length ys \<le> capacity then r = conde_done (out @ ys)
          else status r \<noteq> CONDE_OK)"

lemma decodes_to_append:
  "length l \<le> capacity - length out \<Longrightarrow> length out \<le> capacity \<Longrightarrow>
     decodes_to r out (map_option ((@) l) rest) capacity = decodes_to r (out @ l) rest capacity"
  by (auto simp: decodes_to_def split: option.splits)

lemma decodes_to_overflow:
  "capacity - length out < length l \<Longrightarrow> status r \<noteq> CONDE_OK \<Longrightarrow> length out \<le> capacity \<Longrightarrow>
     decodes_to r out (map_option ((@) l) rest) capacity"
  by (auto simp: decodes_to_def split: option.splits)

lemma decompress_loop_spec:
  "length out \<le> capacity \<Longrightarrow>
     decodes_to (decompress_loop big src (length src) capacity i out) out (unpack (drop i src)) capacity"
proof (induction big src "length src" capacity i out rule: decompress_loop.induct)
  case (1 big src capacity i out)
  note unf = decompress_loop.simps [of big src "length src" capacity i out]
  define c where "c = unat (src ! i)"
  show ?case
  proof (cases "i < length src")
    case False
    then show ?thesis using "1.prems" by (simp add: unf decodes_to_def)
  next
    case True
    then have d: "drop i src = src ! i # drop (i + 1) src" by (simp add: Cons_nth_drop_Suc)
    consider (lit) "c < 128" | (bad) "c = 128" | (run) "128 < c" by linarith
    then show ?thesis
    proof cases
      case lit
      let ?l = "take (c + 1) (drop (i + 1) src)"
      show ?thesis
      proof (cases "length src - (i + 1) < c + 1")
        case True
        then show ?thesis using lit \<open>i < length src\<close> d
          by (simp add: unf Let_def c_def [symmetric] decodes_to_def)
      next
        case False
        have u: "unpack (drop i src) = map_option ((@) ?l) (unpack (drop (i + 1 + (c + 1)) src))"
          using lit False d by (simp add: c_def [symmetric] add.commute)
        have len: "length ?l = c + 1" using False by simp
        have copy: "rle_copy big src (i + 1) (c + 1) = ?l"
          using False \<open>i < length src\<close> by (intro rle_copy_eq) linarith
        show ?thesis
        proof (cases "capacity - length out < c + 1")
          case True
          then have "status (decompress_loop big src (length src) capacity i out) \<noteq> CONDE_OK"
            using lit False \<open>i < length src\<close> by (simp add: unf Let_def c_def [symmetric])
          then show ?thesis unfolding u using True len "1.prems" by (intro decodes_to_overflow) simp_all
        next
          case room: False
          have "decompress_loop big src (length src) capacity i out =
              decompress_loop big src (length src) capacity (i + 1 + (c + 1)) (out @ ?l)"
            using \<open>i < length src\<close> lit False room copy by (simp add: unf Let_def c_def [symmetric])
          moreover have "decodes_to (decompress_loop big src (length src) capacity (i + 1 + (c + 1)) (out @ ?l))
              (out @ ?l) (unpack (drop (i + 1 + (c + 1)) src)) capacity"
            unfolding copy [symmetric] using \<open>i < length src\<close> lit False room copy len "1.prems"
            by (intro "1.hyps"(1) [OF _ c_def refl lit refl]) auto
          ultimately show ?thesis unfolding u using room len "1.prems" by (subst decodes_to_append) simp_all
        qed
      qed
    next
      case bad
      then show ?thesis using True d by (simp add: unf Let_def c_def [symmetric] decodes_to_def)
    next
      case run
      show ?thesis
      proof (cases "i + 1 = length src")
        case True
        then show ?thesis using run d
          by (simp add: unf Let_def c_def [symmetric] decodes_to_def)
      next
        case False
        let ?l = "replicate (257 - c) (src ! (i + 1))"
        have d2: "drop (i + 1) src = src ! (i + 1) # drop (i + 2) src"
          using False True by (simp add: Cons_nth_drop_Suc)
        have u: "unpack (drop i src) = map_option ((@) ?l) (unpack (drop (i + 1 + 1) src))"
          using run d d2 by (simp add: c_def [symmetric])
        show ?thesis
        proof (cases "capacity - length out < 257 - c")
          case True
          then have "status (decompress_loop big src (length src) capacity i out) \<noteq> CONDE_OK"
            using run False \<open>i < length src\<close> by (simp add: unf Let_def c_def [symmetric])
          then show ?thesis unfolding u using True "1.prems" by (intro decodes_to_overflow) simp_all
        next
          case room: False
          have "decompress_loop big src (length src) capacity i out =
              decompress_loop big src (length src) capacity (i + 1 + 1) (out @ ?l)"
            using \<open>i < length src\<close> run False room
            by (simp add: unf Let_def c_def [symmetric] rle_fill_eq)
          moreover have "decodes_to (decompress_loop big src (length src) capacity (i + 1 + 1) (out @ ?l))
              (out @ ?l) (unpack (drop (i + 1 + 1) src)) capacity"
            unfolding rle_fill_eq [of big, symmetric] using \<open>i < length src\<close> run False room "1.prems"
            by (intro "1.hyps"(2) [OF _ c_def refl _ _ refl]) (auto simp: rle_fill_eq)
          ultimately show ?thesis unfolding u using room "1.prems" by (subst decodes_to_append) simp_all
        qed
      qed
    qed
  qed
qed

subsection \<open>Output bounds\<close>

text \<open>Neither loop stores past the capacity it was given, whatever the source holds.\<close>

lemma compress_loop_capacity:
  "length out \<le> capacity \<Longrightarrow> length (dst (compress_loop big src (length src) capacity i out)) \<le> capacity"
proof (induction big src "length src" capacity i out rule: compress_loop.induct)
  case (1 big src capacity i out)
  note unf = compress_loop.simps [of big src "length src" capacity i out]
  have "length (rle_copy big src i (literal_len big src (length src) i)) = literal_len big src (length src) i"
    if "i < length src" using literal_len_spec(3) [OF that, of big src] by (simp add: rle_copy_eq)
  then show ?case
    using "1.hyps" "1.prems" by (simp add: unf Let_def)
qed

lemma decompress_loop_capacity:
  "length out \<le> capacity \<Longrightarrow> length (dst (decompress_loop big src (length src) capacity i out)) \<le> capacity"
proof (induction big src "length src" capacity i out rule: decompress_loop.induct)
  case (1 big src capacity i out)
  note unf = decompress_loop.simps [of big src "length src" capacity i out]
  have "length (rle_copy big src (i + 1) n) = n" if "n \<le> length src - (i + 1)" "i < length src" for n
    using that by (simp add: rle_copy_eq)
  then show ?case
    using "1.hyps" "1.prems" by (simp add: unf Let_def rle_fill_eq)
qed

text \<open>
  The packet overhead: one byte for each full literal, and one for a shorter literal, which the
  run of three or more after it pays back (or the source ends there).
\<close>

definition within_bound :: "u8 list \<Rightarrow> nat \<Rightarrow> nat \<Rightarrow> bool" where
  "within_bound src i len \<longleftrightarrow>
     len \<le> i + i div 128 \<or>
     (0 < i \<and> len \<le> i + (i - 1) div 128 + 1 \<and> (i = length src \<or> run3 src (length src) i))"

lemma within_bound_run:
  fixes big :: bool
  assumes "within_bound src i len" "i < length src" "takes_run src (length src) i"
  defines "r \<equiv> run_length big src i (length src)"
  shows "within_bound src (i + r) (len + 2)" "len + 2 \<le> length src + (length src + 127) div 128"
proof -
  have r: "2 \<le> r" "i + r \<le> length src"
    using assms run_length_ge2 [of i "length src" src big] run_length_spec(3) [of i "length src" big src]
    by (auto simp: takes_run_def)
  have *: "len + 2 \<le> i + r + (i + r) div 128"
  proof (cases "len \<le> i + i div 128")
    case True
    moreover have "i div 128 \<le> (i + r) div 128" by (simp add: div_le_mono)
    ultimately show ?thesis using r by linarith
  next
    case False
    with assms(1,2) have "run3 src (length src) i" "len \<le> i + (i - 1) div 128 + 1"
      by (auto simp: within_bound_def)
    moreover from this(1) have "3 \<le> r" using run_length_ge3 [of i "length src" src big]
      by (auto simp: run3_def r_def)
    moreover have "(i - 1) div 128 \<le> (i + r) div 128" by (simp add: div_le_mono)
    ultimately show ?thesis by linarith
  qed
  then show "within_bound src (i + r) (len + 2)" by (simp add: within_bound_def)
  have "(i + r) div 128 \<le> (length src + 127) div 128" using r by (simp add: div_le_mono)
  then show "len + 2 \<le> length src + (length src + 127) div 128" using * r by linarith
qed

lemma within_bound_literal:
  fixes big :: bool
  assumes "within_bound src i len" "i < length src" "\<not> takes_run src (length src) i"
  defines "m \<equiv> literal_len big src (length src) i"
  shows "within_bound src (i + m) (len + m + 1)" "len + m + 1 \<le> length src + (length src + 127) div 128"
proof -
  note spec = literal_len_spec [OF assms(2), of big src, folded m_def]
  have len: "len \<le> i + i div 128"
    using assms(1-3) by (auto simp: within_bound_def takes_run_def run3_def)
  have "i div 128 + 1 = (i + 128) div 128" by simp
  also have "\<dots> \<le> (length src + 127) div 128" using assms(2) by (intro div_le_mono) simp
  finally show "len + m + 1 \<le> length src + (length src + 127) div 128" using len spec(3) by linarith
  show "within_bound src (i + m) (len + m + 1)"
  proof (cases "m = 128")
    case True
    moreover have "(i + 128) div 128 = i div 128 + 1" by simp
    ultimately show ?thesis using len by (simp add: within_bound_def del: div_add_self2)
  next
    case False
    then have "i + m = length src \<or> run3 src (length src) (i + m)" using spec by linarith
    moreover have "i div 128 \<le> (i + m - 1) div 128" using spec(1) by (intro div_le_mono) simp
    ultimately show ?thesis using len spec(1) by (auto simp: within_bound_def)
  qed
qed

lemma compress_loop_fits:
  assumes "length src + (length src + 127) div 128 \<le> capacity"
  shows "within_bound src i (length out) \<Longrightarrow> i \<le> length src \<Longrightarrow>
     status (compress_loop big src (length src) capacity i out) = CONDE_OK \<and>
     length (dst (compress_loop big src (length src) capacity i out)) \<le>
       length src + (length src + 127) div 128"
  using assms
proof (induction big src "length src" capacity i out rule: compress_loop.induct)
  case (1 big src capacity i out)
  note unf = compress_loop.simps [of big src "length src" capacity i out]
  note cap = "1.prems"(3)
  consider (fin) "i = length src" | (run) "i < length src" "takes_run src (length src) i"
    | (lit) "i < length src" "\<not> takes_run src (length src) i" using "1.prems"(2) by linarith
  then show ?case
  proof cases
    case fin
    have "length out \<le> i + (i + 127) div 128"
    proof -
      have "i div 128 \<le> (i + 127) div 128" by (simp add: div_le_mono)
      moreover have "(i - 1) div 128 + 1 = (i + 127) div 128" if "0 < i" using that by (cases i) simp_all
      ultimately show ?thesis using "1.prems"(1) unfolding within_bound_def by linarith
    qed
    moreover have "compress_loop big src (length src) capacity i out = conde_done out"
      by (subst unf) (simp add: fin)
    ultimately show ?thesis by (simp add: fin)
  next
    case run
    note b = within_bound_run(1) [OF "1.prems"(1) run, of big] within_bound_run(2) [OF "1.prems"(1) run]
    have "\<not> capacity - length out < 2" using b(2) cap by linarith
    moreover have "i + run_length big src i (length src) \<le> length src"
      using run_length_spec(3) [OF run(1), of big src] .
    ultimately show ?thesis using "1.hyps"(1) [OF run refl _ _ _ cap] run b(1) by (simp add: unf Let_def)
  next
    case lit
    note b = within_bound_literal(1) [OF "1.prems"(1) lit, of big]
      within_bound_literal(2) [OF "1.prems"(1) lit, of big]
    have "\<not> capacity - length out < literal_len big src (length src) i + 1" using b(2) cap by linarith
    moreover have "i + literal_len big src (length src) i \<le> length src"
      using literal_len_spec(3) [OF lit(1), of big src] .
    ultimately show ?thesis using "1.hyps"(2) [OF lit refl _ _ _ cap] lit b(1)
      by (simp add: unf Let_def rle_copy_eq)
  qed
qed

lemma compress_bound_unat:
  assumes "n \<le> 0xFE000000"
  shows "unat (cpt_rle_compress_bound (of_nat n)) = n + (n + 127) div 128"
proof -
  have n: "unat (of_nat n :: u32) = n" using assms by (subst unat_of_nat) simp
  have "(n + 127) div 128 \<le> (0xFE000000 + 127) div 128" using assms by (intro div_le_mono) simp
  then have d: "(n + 127) div 128 \<le> 0x1FC0000" by simp
  have "unat (of_nat n + 127 :: u32) = n + 127"
    using assms by (simp add: unat_word_ariths n)
  then have "unat ((of_nat n + 127 :: u32) div 128) = (n + 127) div 128" by (simp add: unat_div)
  then have "unat (of_nat n + (of_nat n + 127) div 128 :: u32) = n + (n + 127) div 128"
    using assms d by (simp add: unat_word_ariths n)
  moreover have "\<not> (0xFE000000::u32) < of_nat n" using assms by (simp add: word_less_nat_alt n)
  ultimately show ?thesis by (simp add: cpt_rle_compress_bound_def)
qed

section \<open>Properties\<close>

text \<open>C1: Whatever the source bytes, the output of a successful compression is decompressed to
  exactly those bytes, on either byte order, given a buffer that can hold them.\<close>

theorem rle_roundtrip:
  assumes "status (cpt_rle_compress big False (Some capacity) (Some xs) (length xs) level param) = CONDE_OK"
    and "length xs \<le> capacity'"
    and "packed = dst (cpt_rle_compress big False (Some capacity) (Some xs) (length xs) level param)"
  shows "cpt_rle_decompress big' False (Some capacity') (Some packed) (length packed) = conde_done xs"
proof -
  have run: "status (compress_loop big xs (length xs) capacity 0 []) = CONDE_OK"
    "packed = dst (compress_loop big xs (length xs) capacity 0 [])"
    using assms(1,3) by (auto simp: cpt_rle_compress_def split: if_splits)
  then have "unpack packed = Some xs" using compress_loop_unpack [OF run(1)] by auto
  then have "decompress_loop big' packed (length packed) capacity' 0 [] = conde_done xs"
    using decompress_loop_spec [of "[]" capacity' big' packed 0] assms(2) by (simp add: decodes_to_def)
  then show ?thesis by (cases "packed = []") (simp_all add: cpt_rle_decompress_def)
qed

text \<open>C2: A destination of \<open>cpt_rle_compress_bound\<close> bytes is always enough: compression of any
  source up to the documented size then succeeds, and its output is no longer than the bound.\<close>

theorem rle_bound_suffices:
  assumes "length xs \<le> 0xFE000000" and "unat (cpt_rle_compress_bound (of_nat (length xs))) \<le> capacity"
    and "level \<le> 9"
  shows "status (cpt_rle_compress big False (Some capacity) (Some xs) (length xs) level 0) = CONDE_OK \<and>
     length (dst (cpt_rle_compress big False (Some capacity) (Some xs) (length xs) level 0))
       \<le> unat (cpt_rle_compress_bound (of_nat (length xs)))"
  using compress_loop_fits [of xs capacity 0 "[]" big] assms unfolding compress_bound_unat [OF assms(1)]
  by (simp add: cpt_rle_compress_def within_bound_def)


text \<open>C4: Neither direction ever stores more bytes than the capacity it was given, not even on
  the error paths, and on every error the reported size is 0.\<close>

theorem rle_no_overrun:
  "length (dst (cpt_rle_compress big nul (Some capacity) (Some xs) (length xs) level param)) \<le> capacity \<and>
   length (dst (cpt_rle_decompress big nul (Some capacity) (Some xs) (length xs))) \<le> capacity"
  using compress_loop_capacity [of "[]" capacity big xs 0] decompress_loop_capacity [of "[]" capacity big xs 0]
  by (auto simp: cpt_rle_compress_def cpt_rle_decompress_def)

lemma rle_example:
  "cpt_rle_compress True False (Some 16) (Some [7, 1, 1, 1, 1, 9]) 6 0 0 =
     conde_done [0, 7, 253, 1, 0, 9]"
  by code_simp

lemma rle_example_lengths: "length [7, 1, 1, 1, 1, 9 :: u8] = 6" "length [0, 7, 253, 1, 0, 9 :: u8] = 6"
  by simp_all

theorem rle_roundtrip_witness:
  "cpt_rle_decompress False False (Some 6) (Some [0, 7, 253, 1, 0, 9]) 6 = conde_done [7, 1, 1, 1, 1, 9]"
  using rle_roundtrip [of True 16 "[7, 1, 1, 1, 1, 9]" 0 0 6 "[0, 7, 253, 1, 0, 9]" False]
  unfolding rle_example_lengths rle_example by simp

theorem rle_bound_suffices_witness:
  "status (cpt_rle_compress True False (Some 7) (Some [7, 1, 1, 1, 1, 9]) 6 0 0) = CONDE_OK \<and>
   length (dst (cpt_rle_compress True False (Some 7) (Some [7, 1, 1, 1, 1, 9]) 6 0 0)) \<le> 7"
proof -
  have "unat (cpt_rle_compress_bound (of_nat 6)) = 7" by code_simp
  then show ?thesis
    using rle_bound_suffices [of "[7, 1, 1, 1, 1, 9]" 7 0 True] unfolding rle_example_lengths by simp
qed

end
