(* ===== verification/Code.thy ===== *)
theory Code
  imports Conde
begin

text \<open>
  Character code conversion (\<open>foundation/lib/code/code.c\<close>): UTF-8, UTF-16 and UTF-32 in both byte orders,
  one code point at a time. Buffers are byte lists; positions and sizes, below \<open>2 ^ 32\<close>, are \<open>nat\<close>.
\<close>

abbreviation CODE_UTF8 :: nat where "CODE_UTF8 \<equiv> 0"
abbreviation CODE_UTF8_BOM :: nat where "CODE_UTF8_BOM \<equiv> 1"
abbreviation CODE_UTF16LE :: nat where "CODE_UTF16LE \<equiv> 2"
abbreviation CODE_UTF16BE :: nat where "CODE_UTF16BE \<equiv> 3"
abbreviation CODE_UTF32LE :: nat where "CODE_UTF32LE \<equiv> 4"
abbreviation CODE_UTF32BE :: nat where "CODE_UTF32BE \<equiv> 5"
abbreviation CODE_REPLACE :: u32 where "CODE_REPLACE \<equiv> 1"
abbreviation CODE_STRIP_BOM :: u32 where "CODE_STRIP_BOM \<equiv> 2"
abbreviation CODE_ADD_BOM :: u32 where "CODE_ADD_BOM \<equiv> 4"
abbreviation REPLACEMENT :: u32 where "REPLACEMENT \<equiv> 0xFFFD"
abbreviation BOM :: u32 where "BOM \<equiv> 0xFEFF"

section \<open>Reading a code point\<close>

text \<open>A reader returns the status, the next position and the code point, which counts only when the
  status is \<open>CONDE_OK\<close>.\<close>

type_synonym read_result = "int \<times> nat \<times> u32"

fun utf8_rest :: "nat \<Rightarrow> u32 \<Rightarrow> u32 \<Rightarrow> u8 list \<Rightarrow> nat \<Rightarrow> nat \<Rightarrow> u32 \<Rightarrow> int \<times> nat \<times> u32" where
  "utf8_rest 0 lo hi s n p cp = (CONDE_OK, p, cp)"
| "utf8_rest (Suc need) lo hi s n p cp =
     (if n \<le> p then (CONDE_INPUT_EOF, p, cp)
      else let b = ucast (s ! p) in
        if b < lo \<or> hi < b then (CONDE_DATA, p, cp)
        else utf8_rest need 0x80 0xBF s n (p + 1) (push_bit 6 cp OR (b AND 0x3F)))"

definition next_utf8 :: "u8 list \<Rightarrow> nat \<Rightarrow> nat \<Rightarrow> int \<times> nat \<times> u32" where
  "next_utf8 s n i =
     (let b = ucast (s ! i) :: u32; p = i + 1 in
      if b < 0x80 then (CONDE_OK, p, b)
      else if 0xC2 \<le> b \<and> b \<le> 0xDF then utf8_rest 1 0x80 0xBF s n p (b AND 0x1F)
      else if 0xE0 \<le> b \<and> b \<le> 0xEF then
        utf8_rest 2 (if b = 0xE0 then 0xA0 else 0x80) (if b = 0xED then 0x9F else 0xBF) s n p (b AND 0x0F)
      else if 0xF0 \<le> b \<and> b \<le> 0xF4 then
        utf8_rest 3 (if b = 0xF0 then 0x90 else 0x80) (if b = 0xF4 then 0x8F else 0xBF) s n p (b AND 0x07)
      else (CONDE_DATA, p, 0))"

definition unit16 :: "u8 list \<Rightarrow> nat \<Rightarrow> bool \<Rightarrow> u32" where
  "unit16 s p big = (if big then push_bit 8 (ucast (s ! p)) OR ucast (s ! (p + 1))
                     else push_bit 8 (ucast (s ! (p + 1))) OR ucast (s ! p))"

definition next_utf16 :: "u8 list \<Rightarrow> nat \<Rightarrow> nat \<Rightarrow> bool \<Rightarrow> int \<times> nat \<times> u32" where
  "next_utf16 s n i big =
     (if n - i < 2 then (CONDE_INPUT_EOF, n, 0)
      else let u = unit16 s i big; p = i + 2 in
        if u < 0xD800 \<or> 0xDFFF < u then (CONDE_OK, p, u)
        else if 0xDC00 \<le> u then (CONDE_DATA, p, 0)
        else if n - p < 2 then (CONDE_INPUT_EOF, n, 0)
        else let v = unit16 s p big in
          if v < 0xDC00 \<or> 0xDFFF < v then (CONDE_DATA, p, 0)
          else (CONDE_OK, p + 2, 0x10000 + push_bit 10 (u - 0xD800) + (v - 0xDC00)))"

definition next_utf32 :: "u8 list \<Rightarrow> nat \<Rightarrow> nat \<Rightarrow> bool \<Rightarrow> int \<times> nat \<times> u32" where
  "next_utf32 s n i big =
     (if n - i < 4 then (CONDE_INPUT_EOF, n, 0)
      else let v = (if big then be32 (s ! i) (s ! (i + 1)) (s ! (i + 2)) (s ! (i + 3))
                    else be32 (s ! (i + 3)) (s ! (i + 2)) (s ! (i + 1)) (s ! i))
        in if 0x10FFFF < v \<or> (0xD800 \<le> v \<and> v \<le> 0xDFFF) then (CONDE_DATA, i + 4, 0)
           else (CONDE_OK, i + 4, v))"

definition next_code :: "nat \<Rightarrow> u8 list \<Rightarrow> nat \<Rightarrow> nat \<Rightarrow> int \<times> nat \<times> u32" where
  "next_code enc s n i =
     (if enc = CODE_UTF16LE then next_utf16 s n i False
      else if enc = CODE_UTF16BE then next_utf16 s n i True
      else if enc = CODE_UTF32LE then next_utf32 s n i False
      else if enc = CODE_UTF32BE then next_utf32 s n i True
      else next_utf8 s n i)"

section \<open>Writing a code point\<close>

definition put16 :: "u32 \<Rightarrow> bool \<Rightarrow> u8 list" where
  "put16 u big = (if big then [ucast (drop_bit 8 u), ucast u] else [ucast u, ucast (drop_bit 8 u)])"

definition lead :: "nat \<Rightarrow> u32" where
  "lead len = [0, 0, 0xC0, 0xE0, 0xF0] ! len"

text \<open>The bytes of a code point; \<open>put\<close> appends them to what is at \<open>dst\<close> when there is room.\<close>

definition code_bytes :: "nat \<Rightarrow> u32 \<Rightarrow> u8 list" where
  "code_bytes enc cp =
     (if enc = CODE_UTF8 \<or> enc = CODE_UTF8_BOM then
        let len = (if cp < 0x80 then 1 else if cp < 0x800 then 2 else if cp < 0x10000 then 3 else 4) in
        if len = 1 then [ucast cp]
        else ucast (lead len OR drop_bit (6 * (len - 1)) cp) #
          map (\<lambda>k. ucast (0x80 OR (drop_bit (6 * (len - 1 - k)) cp AND 0x3F))) [1..<len]
      else if enc = CODE_UTF16LE \<or> enc = CODE_UTF16BE then
        let big = (enc = CODE_UTF16BE) in
        if cp < 0x10000 then put16 cp big
        else let cp = cp - 0x10000 in put16 (0xD800 + drop_bit 10 cp) big @ put16 (0xDC00 + (cp AND 0x3FF)) big
      else
        let big = (enc = CODE_UTF32BE) in map (\<lambda>k. ucast (drop_bit (8 * (if big then 3 - k else k)) cp)) [0..<4])"

definition put :: "nat \<Rightarrow> nat \<Rightarrow> u32 \<Rightarrow> u8 list \<Rightarrow> int \<times> u8 list" where
  "put cap enc cp out =
     (let bytes = code_bytes enc cp in
      if cap - length out < length bytes then (CONDE_OUTPUT_EOF, out) else (CONDE_OK, out @ bytes))"

section \<open>Detection and size bound\<close>

definition cpt_code_detect :: "u8 list option \<Rightarrow> nat \<Rightarrow> int \<times> nat" where
  "cpt_code_detect s n =
     (case s of None \<Rightarrow> if n \<noteq> 0 then (- 1, 0) else (int CODE_UTF8, 0)
      | Some s \<Rightarrow>
          if 4 \<le> n \<and> s ! 0 = 0xFF \<and> s ! 1 = 0xFE \<and> s ! 2 = 0 \<and> s ! 3 = 0 then (int CODE_UTF32LE, 4)
          else if 4 \<le> n \<and> s ! 0 = 0 \<and> s ! 1 = 0 \<and> s ! 2 = 0xFE \<and> s ! 3 = 0xFF then (int CODE_UTF32BE, 4)
          else if 3 \<le> n \<and> s ! 0 = 0xEF \<and> s ! 1 = 0xBB \<and> s ! 2 = 0xBF then (int CODE_UTF8_BOM, 3)
          else if 2 \<le> n \<and> s ! 0 = 0xFF \<and> s ! 1 = 0xFE then (int CODE_UTF16LE, 2)
          else if 2 \<le> n \<and> s ! 0 = 0xFE \<and> s ! 1 = 0xFF then (int CODE_UTF16BE, 2)
          else (int CODE_UTF8, 0))"

definition unit_of :: "nat \<Rightarrow> nat" where
  "unit_of from_enc = (if from_enc = CODE_UTF16LE \<or> from_enc = CODE_UTF16BE then 2
     else if from_enc = CODE_UTF32LE \<or> from_enc = CODE_UTF32BE then 4 else 1)"

definition units :: "nat \<Rightarrow> nat \<Rightarrow> nat" where
  "units unit src_size = src_size div unit + (if src_size mod unit \<noteq> 0 then 1 else 0)"

definition per_unit :: "nat \<Rightarrow> nat \<Rightarrow> nat" where
  "per_unit unit to =
     (let per = (if to = CODE_UTF16LE \<or> to = CODE_UTF16BE then 2
        else if to = CODE_UTF32LE \<or> to = CODE_UTF32BE then 4 else 3)
      in if unit = 4 \<and> per < 4 then 4 else per)"

definition bound_for :: "nat \<Rightarrow> nat \<Rightarrow> nat \<Rightarrow> nat" where
  "bound_for src_size from_enc to =
     (let n = units (unit_of from_enc) src_size; per = per_unit (unit_of from_enc) to in
      if n > 0xFFFFFFFF div per then 0xFFFFFFFF else n * per)"

definition cpt_code_bound :: "nat \<Rightarrow> nat \<Rightarrow> nat \<Rightarrow> nat" where
  "cpt_code_bound src_size from_enc to =
     (if to > CODE_UTF32BE \<or> from_enc > CODE_UTF32BE then 0xFFFFFFFF
      else let bom = (if to = CODE_UTF16LE \<or> to = CODE_UTF16BE then 2
                 else if to = CODE_UTF32LE \<or> to = CODE_UTF32BE then 4 else 3);
               total = bound_for src_size from_enc to + bom
           in if total \<ge> 0xFFFFFFFF then 0xFFFFFFFF else total)"

section \<open>Conversion\<close>

lemma utf8_rest_position:
  "utf8_rest need lo hi s n p cp = (r, i', c) \<Longrightarrow> p \<le> i' \<and> i' \<le> p + need \<and> (p \<le> n \<longrightarrow> i' \<le> n)"
  by (induction need lo hi s n p cp arbitrary: i' rule: utf8_rest.induct) (fastforce simp: Let_def split: if_splits)+

declare utf8_rest.simps(2) [simp del]

lemma next_code_position:
  assumes "next_code enc s n i = (r, i', cp)" "i < n"
  shows "i < i' \<and> i' \<le> n"
proof -
  consider "next_utf8 s n i = (r, i', cp)" | big where "next_utf16 s n i big = (r, i', cp)"
    | big where "next_utf32 s n i big = (r, i', cp)"
    using assms(1) by (auto simp: next_code_def split: if_splits)
  then show ?thesis
  proof cases
    case 1
    then show ?thesis using assms(2)
      by (auto simp: next_utf8_def Let_def split: if_splits dest!: utf8_rest_position)
  qed (use assms(2) in \<open>auto simp: next_utf16_def next_utf32_def Let_def split: if_splits\<close>)
qed

function convert_loop :: "nat \<Rightarrow> u8 list \<Rightarrow> nat \<Rightarrow> nat \<Rightarrow> nat \<Rightarrow> u32 \<Rightarrow> nat \<Rightarrow> bool \<Rightarrow> u8 list \<Rightarrow> conde_result" where
  "convert_loop cap src src_size from_enc to flags i first out =
     (if src_size \<le> i then conde_done out
      else case next_code from_enc src src_size i of (r, i', cp) \<Rightarrow>
        if r \<noteq> CONDE_OK \<and> flags AND CODE_REPLACE = 0 then conde_fail r out
        else let cp = (if r \<noteq> CONDE_OK then REPLACEMENT else cp) in
          if first \<and> cp = BOM \<and> r = CONDE_OK \<and> flags AND CODE_STRIP_BOM \<noteq> 0
          then convert_loop cap src src_size from_enc to flags i' False out
          else case put cap to cp out of (st, out) \<Rightarrow>
            if st \<noteq> CONDE_OK then conde_fail st out
            else convert_loop cap src src_size from_enc to flags i' False out)"
  by pat_completeness auto
termination
  by (relation "measure (\<lambda>(_, _, n, _, _, _, i, _, _). n - i)")
     (auto dest!: next_code_position [OF sym])

declare convert_loop.simps [simp del]

definition convert ::
  "bool \<Rightarrow> nat option \<Rightarrow> u8 list option \<Rightarrow> nat \<Rightarrow> nat \<Rightarrow> nat \<Rightarrow> u32 \<Rightarrow> conde_result" where
  "convert dst_null capacity src src_size from_enc to flags =
     (case capacity of None \<Rightarrow> conde_fail CONDE_PARAMETER []
      | Some cap \<Rightarrow>
          if (src_size \<noteq> 0 \<and> src = None) \<or> (cap \<noteq> 0 \<and> dst_null) \<or> to > CODE_UTF32BE \<or> from_enc > CODE_UTF32BE \<or>
             flags AND NOT (CODE_REPLACE OR CODE_STRIP_BOM OR CODE_ADD_BOM) \<noteq> 0
          then conde_fail CONDE_PARAMETER []
          else let s = (case src of None \<Rightarrow> [] | Some s \<Rightarrow> s);
                   i = (if from_enc = CODE_UTF8_BOM \<and> 3 \<le> src_size \<and> s ! 0 = 0xEF \<and> s ! 1 = 0xBB \<and> s ! 2 = 0xBF then 3 else 0);
                   from_enc = (if from_enc = CODE_UTF8_BOM then CODE_UTF8 else from_enc)
            in if to = CODE_UTF8_BOM \<or> flags AND CODE_ADD_BOM \<noteq> 0 then
                 (case put cap to BOM [] of (st, out) \<Rightarrow>
                    if st \<noteq> CONDE_OK then conde_fail st out
                    else convert_loop cap s src_size from_enc to flags i True out)
               else convert_loop cap s src_size from_enc to flags i True [])"

text \<open>The exported functions (the macro \<open>WRAP\<close>), for \<open>enc\<close> from \<open>CODE_UTF8\<close> to \<open>CODE_UTF32LE\<close>.\<close>

definition cpt_code_to_utf32be where
  "cpt_code_to_utf32be enc dst_null capacity src src_size flags =
     convert dst_null capacity src src_size enc CODE_UTF32BE flags"

definition cpt_code_utf32be_to where
  "cpt_code_utf32be_to enc dst_null capacity src src_size flags =
     convert dst_null capacity src src_size CODE_UTF32BE enc flags"

end
