(* ===== verification/Code_Facts.thy ===== *)
theory Code_Facts
  imports Code
begin

text \<open>
  What the readers and writers of \<open>foundation/lib/code/code.c\<close> do, against the definition of the encoding
  forms: UTF-8 as a list of numbers, round trips, and the size bound.
\<close>

section \<open>Words as numbers\<close>

lemma unat_byte [simp]: "unat (ucast (b :: u8) :: u32) = unat b"
proof -
  have "unat b < 2 ^ 8" using unsigned_less [where 'a = nat and w = b] by simp
  then have "unat b < 2 ^ 32" by simp
  then show ?thesis by (simp add: unsigned_ucast_eq take_bit_nat_eq_self)
qed

lemma unat_byte_less: "unat (b :: u8) < 256"
  using unsigned_less [where 'a = nat and w = b] by simp

lemma unat_narrow: "unat (ucast (w :: u32) :: u8) = unat w mod 256"
  by (simp add: unsigned_ucast_eq take_bit_eq_mod)

lemma unat_low: "unat (w AND mask k :: u32) = unat w mod 2 ^ k"
  by (simp only: take_bit_eq_mask [symmetric] unsigned_take_bit_eq) (rule take_bit_eq_mod)

lemma unat_right: "unat (drop_bit k w :: u32) = unat w div 2 ^ k"
  by (subst unat_drop_bit_eq) (rule drop_bit_eq_div)

lemma unat_join:
  assumes "unat x < 2 ^ k" "unat y * 2 ^ k < 2 ^ 32"
  shows "unat (push_bit k y OR x :: u32) = unat y * 2 ^ k + unat x"
proof -
  have "unat (push_bit k y) = unat y * 2 ^ k"
  proof -
    have "unat (push_bit k y) = take_bit 32 (push_bit k (unat y))" by (simp add: unsigned_push_bit_eq)
    then show ?thesis using assms(2) by (simp add: push_bit_eq_mult take_bit_nat_eq_self)
  qed
  moreover have "unat (push_bit k y OR x) = unat (push_bit k y) OR unat x" by (rule unsigned_or_eq)
  moreover have "push_bit k (unat y) OR unat x = push_bit k (unat y) + unat x"
  proof (rule disjunctive_add [symmetric])
    have "take_bit k (unat x) = unat x" using assms(1) by (rule take_bit_nat_eq_self)
    then have "bit (unat x) j \<Longrightarrow> j < k" for j by (metis bit_take_bit_iff)
    then show "\<not> bit (push_bit k (unat y)) j \<or> \<not> bit (unat x) j" for j by (metis bit_push_bit_iff_nat leD)
  qed
  ultimately show ?thesis by (simp add: push_bit_eq_mult)
qed

lemma unat_6: "unat (w AND 0x3F :: u32) = unat w mod 64"
  using unat_low [of w 6] by (simp add: mask_eq_exp_minus_1)
lemma unat_5: "unat (w AND 0x1F :: u32) = unat w mod 32"
  using unat_low [of w 5] by (simp add: mask_eq_exp_minus_1)
lemma unat_4: "unat (w AND 0x0F :: u32) = unat w mod 16"
  using unat_low [of w 4] by (simp add: mask_eq_exp_minus_1)
lemma unat_3: "unat (w AND 0x07 :: u32) = unat w mod 8"
  using unat_low [of w 3] by (simp add: mask_eq_exp_minus_1)

lemma unat_shift6:
  assumes "unat c < 67108864"
  shows "unat (push_bit 6 c OR (b AND 0x3F) :: u32) = unat c * 64 + unat b mod 64"
  using unat_join [of "b AND 0x3F" 6 c] assms by (simp add: unat_6)

section \<open>The encoding forms\<close>

definition scalar :: "u32 \<Rightarrow> bool" where
  "scalar c \<longleftrightarrow> c \<le> 0x10FFFF \<and> \<not> (0xD800 \<le> c \<and> c \<le> 0xDFFF)"

text \<open>The table of RFC 3629.\<close>

definition utf8 :: "nat \<Rightarrow> nat list" where
  "utf8 c = (if c < 0x80 then [c]
     else if c < 0x800 then [192 + c div 64, 128 + c mod 64]
     else if c < 0x10000 then [224 + c div 4096, 128 + c div 64 mod 64, 128 + c mod 64]
     else [240 + c div 262144, 128 + c div 4096 mod 64, 128 + c div 64 mod 64, 128 + c mod 64])"

text \<open>The bytes of \<open>s\<close> at \<open>i\<close> are those numbers.\<close>

definition bytes_at :: "u8 list \<Rightarrow> nat \<Rightarrow> nat list \<Rightarrow> bool" where
  "bytes_at s i ns \<longleftrightarrow> (\<forall>k<length ns. unat (s ! (i + k)) = ns ! k)"

definition utf8_at :: "u8 list \<Rightarrow> nat \<Rightarrow> nat \<Rightarrow> nat \<Rightarrow> u32 \<Rightarrow> bool" where
  "utf8_at s n i i' c \<longleftrightarrow> scalar c \<and> i' = i + length (utf8 (unat c)) \<and> i' \<le> n \<and> bytes_at s i (utf8 (unat c))"

lemma scalar_unat: "scalar c \<longleftrightarrow> unat c < 1114112 \<and> \<not> (55296 \<le> unat c \<and> unat c < 57344)"
  by (auto simp: scalar_def word_le_nat_alt)

lemma radix64: "b < 64 \<Longrightarrow> c = a * 64 + b \<longleftrightarrow> a = c div 64 \<and> b = (c mod 64 :: nat)"
  by auto

lemma radix64_3: "b < 64 \<Longrightarrow> d < 64 \<Longrightarrow>
    c = (a * 64 + b) * 64 + d \<longleftrightarrow> a = c div 4096 \<and> b = c div 64 mod 64 \<and> d = (c mod 64 :: nat)"
  using radix64 [of d c "a * 64 + b"] radix64 [of b "c div 64" a] by (auto simp: div_mult2_eq [symmetric])

lemma radix64_4: "b < 64 \<Longrightarrow> d < 64 \<Longrightarrow> e < 64 \<Longrightarrow>
    c = ((a * 64 + b) * 64 + d) * 64 + e \<longleftrightarrow>
      a = c div 262144 \<and> b = c div 4096 mod 64 \<and> d = c div 64 mod 64 \<and> e = (c mod 64 :: nat)"
  using radix64 [of e c "(a * 64 + b) * 64 + d"] radix64_3 [of b d "c div 64" a] by (auto simp: div_mult2_eq [symmetric])

lemma rest_iff:
  "utf8_rest (Suc need) lo hi s n p cp = (CONDE_OK, i', c) \<longleftrightarrow>
     p < n \<and> unat lo \<le> unat (s ! p) \<and> unat (s ! p) \<le> unat hi \<and>
     utf8_rest need 0x80 0xBF s n (Suc p) (push_bit 6 cp OR (ucast (s ! p) AND 0x3F)) = (CONDE_OK, i', c)"
  by (auto simp: utf8_rest.simps(2) Let_def word_less_nat_alt not_less)

lemma cont_low: "128 \<le> v \<Longrightarrow> v \<le> 191 \<Longrightarrow> v mod 64 = v - (128 :: nat)"
  by (simp add: le_mod_geq)

lemma rest_step:
  assumes "unat cp * 64 + 63 < m" "m \<le> 4294967296" "128 \<le> unat lo" "unat hi \<le> 191"
    "\<And>c'. unat c' < m \<Longrightarrow> utf8_rest need 0x80 0xBF s n (Suc p) c' = (CONDE_OK, i', c) \<longleftrightarrow> P (unat c')"
  shows "utf8_rest (Suc need) lo hi s n p cp = (CONDE_OK, i', c) \<longleftrightarrow>
     p < n \<and> unat lo \<le> unat (s ! p) \<and> unat (s ! p) \<le> unat hi \<and> P (unat cp * 64 + (unat (s ! p) - 128))"
proof (cases "unat lo \<le> unat (s ! p) \<and> unat (s ! p) \<le> unat hi")
  case True
  then have "unat (s ! p) mod 64 = unat (s ! p) - 128" using assms(3,4) by (intro cont_low) simp_all
  moreover have "unat cp < 67108864" using assms(1,2) by linarith
  ultimately have v: "unat (push_bit 6 cp OR (ucast (s ! p) AND 0x3F)) = unat cp * 64 + (unat (s ! p) - 128)"
    using unat_shift6 [of cp "ucast (s ! p)"] by simp
  have "unat (push_bit 6 cp OR (ucast (s ! p) AND 0x3F)) < m" unfolding v using True assms(1,4) by linarith
  from assms(5) [OF this] show ?thesis unfolding rest_iff v using True by simp
next
  case False
  then show ?thesis unfolding rest_iff by blast
qed

lemma rest0_iff: "utf8_rest 0 lo hi s n p cp = (CONDE_OK, i', c) \<longleftrightarrow> i' = p \<and> unat c = unat cp"
  by (auto simp: word_unat_eq_iff)

lemma rest1_iff:
  assumes "unat cp < 32768" "128 \<le> unat lo" "unat hi \<le> 191"
  shows "utf8_rest (Suc 0) lo hi s n p cp = (CONDE_OK, i', c) \<longleftrightarrow>
     p < n \<and> unat lo \<le> unat (s ! p) \<and> unat (s ! p) \<le> unat hi \<and> i' = Suc p \<and>
     unat c = unat cp * 64 + (unat (s ! p) - 128)"
  by (rule rest_step [where m = 4294967296]) (use assms rest0_iff in auto)

lemma unat_80_BF: "unat (0x80 :: u32) = 128" "unat (0xBF :: u32) = 191"
  by simp_all

lemma rest2_iff:
  assumes "unat cp < 512" "128 \<le> unat lo" "unat hi \<le> 191"
  shows "utf8_rest (Suc (Suc 0)) lo hi s n p cp = (CONDE_OK, i', c) \<longleftrightarrow>
     p < n \<and> unat lo \<le> unat (s ! p) \<and> unat (s ! p) \<le> unat hi \<and>
     Suc p < n \<and> 128 \<le> unat (s ! Suc p) \<and> unat (s ! Suc p) \<le> 191 \<and> i' = Suc (Suc p) \<and>
     unat c = (unat cp * 64 + (unat (s ! p) - 128)) * 64 + (unat (s ! Suc p) - 128)"
  by (rule rest_step [where m = 32768], use assms in simp_all) (subst rest1_iff, simp_all)

lemma rest3_iff:
  assumes "unat cp < 8" "128 \<le> unat lo" "unat hi \<le> 191"
  shows "utf8_rest (Suc (Suc (Suc 0))) lo hi s n p cp = (CONDE_OK, i', c) \<longleftrightarrow>
     p < n \<and> unat lo \<le> unat (s ! p) \<and> unat (s ! p) \<le> unat hi \<and>
     Suc p < n \<and> 128 \<le> unat (s ! Suc p) \<and> unat (s ! Suc p) \<le> 191 \<and>
     Suc (Suc p) < n \<and> 128 \<le> unat (s ! Suc (Suc p)) \<and> unat (s ! Suc (Suc p)) \<le> 191 \<and> i' = Suc (Suc (Suc p)) \<and>
     unat c = ((unat cp * 64 + (unat (s ! p) - 128)) * 64 + (unat (s ! Suc p) - 128)) * 64 + (unat (s ! Suc (Suc p)) - 128)"
  by (rule rest_step [where m = 512], use assms in simp_all) (subst rest2_iff, simp_all)

text \<open>The reader in numbers: lead byte \<open>x\<close>, the others \<open>y\<close>, \<open>z\<close> and \<open>w\<close>.\<close>

lemma next_utf8_numbers:
  fixes s i
  defines "x \<equiv> unat (s ! i)" and "y \<equiv> unat (s ! Suc i)" and "z \<equiv> unat (s ! Suc (Suc i))" and "w \<equiv> unat (s ! Suc (Suc (Suc i)))"
  shows "next_utf8 s n i = (CONDE_OK, i', c) \<longleftrightarrow>
    x < 128 \<and> i' = i + 1 \<and> unat c = x \<or>
    194 \<le> x \<and> x \<le> 223 \<and> i + 1 < n \<and> 128 \<le> y \<and> y \<le> 191 \<and> i' = i + 2 \<and> unat c = (x - 192) * 64 + (y - 128) \<or>
    224 \<le> x \<and> x \<le> 239 \<and> i + 2 < n \<and> (if x = 224 then 160 else 128) \<le> y \<and> y \<le> (if x = 237 then 159 else 191) \<and>
      128 \<le> z \<and> z \<le> 191 \<and> i' = i + 3 \<and> unat c = ((x - 224) * 64 + (y - 128)) * 64 + (z - 128) \<or>
    240 \<le> x \<and> x \<le> 244 \<and> i + 3 < n \<and> (if x = 240 then 144 else 128) \<le> y \<and> y \<le> (if x = 244 then 143 else 191) \<and>
      128 \<le> z \<and> z \<le> 191 \<and> 128 \<le> w \<and> w \<le> 191 \<and> i' = i + 4 \<and>
      unat c = (((x - 240) * 64 + (y - 128)) * 64 + (z - 128)) * 64 + (w - 128)"
proof -
  let ?b = "ucast (s ! i) :: u32"
  have xb: "unat ?b = x" by (simp add: x_def)
  have cmp: "?b = k \<longleftrightarrow> x = unat k" "?b < k \<longleftrightarrow> x < unat k" "k \<le> ?b \<longleftrightarrow> unat k \<le> x" "?b \<le> k \<longleftrightarrow> x \<le> unat k" for k
    by (simp_all only: word_unat_eq_iff word_less_nat_alt word_le_nat_alt xb)
  consider "x < 128" | "128 \<le> x" "x < 194" | "194 \<le> x" "x \<le> 223" | "224 \<le> x" "x \<le> 239" | "240 \<le> x" "x \<le> 244" | "245 \<le> x"
    by linarith
  then show ?thesis
  proof cases
    case 1
    then have e: "next_utf8 s n i = (CONDE_OK, i + 1, ?b)" by (simp add: next_utf8_def Let_def cmp)
    have "?b = c \<longleftrightarrow> unat c = x" using xb by (auto simp: word_unat_eq_iff)
    then show ?thesis using 1 unfolding e by auto
  next
    case 2
    then have e: "next_utf8 s n i = (CONDE_DATA, i + 1, 0)" by (simp add: next_utf8_def Let_def cmp)
    show ?thesis using 2 unfolding e by simp
  next
    case 3
    have "x mod 32 = x - 192" using 3 by (simp add: le_mod_geq)
    then have l: "unat (?b AND 0x1F) = x - 192" by (simp only: unat_5 xb)
    have e: "next_utf8 s n i = utf8_rest (Suc 0) 0x80 0xBF s n (Suc i) (?b AND 0x1F)"
      using 3 by (simp add: next_utf8_def Let_def cmp)
    have "unat (?b AND 0x1F) < 32768" using 3 l by simp
    then show ?thesis unfolding e using 3 by (subst rest1_iff) (simp_all add: l y_def [symmetric] conj_ac)
  next
    case 4
    have "x mod 16 = x - 224" using 4 by (simp add: le_mod_geq)
    then have l: "unat (?b AND 0x0F) = x - 224" by (simp only: unat_4 xb)
    have e: "next_utf8 s n i = utf8_rest 2 (if x = 224 then 0xA0 else 0x80) (if x = 237 then 0x9F else 0xBF) s n (Suc i) (?b AND 0x0F)"
      using 4 by (simp add: next_utf8_def Let_def cmp)
    have "unat (?b AND 0x0F) < 512" using 4 l by simp
    then show ?thesis unfolding e numeral_2_eq_2 using 4 by (subst rest2_iff) (auto simp: l y_def [symmetric] z_def [symmetric])
  next
    case 5
    have "x mod 8 = x - 240" using 5 by (simp add: le_mod_geq)
    then have l: "unat (?b AND 0x07) = x - 240" by (simp only: unat_3 xb)
    have e: "next_utf8 s n i = utf8_rest 3 (if x = 240 then 0x90 else 0x80) (if x = 244 then 0x8F else 0xBF) s n (Suc i) (?b AND 0x07)"
      using 5 by (simp add: next_utf8_def Let_def cmp)
    have "unat (?b AND 0x07) < 8" using 5 l by simp
    then show ?thesis unfolding e numeral_3_eq_3 using 5
      by (subst rest3_iff) (auto simp: l y_def [symmetric] z_def [symmetric] w_def [symmetric])
  next
    case 6
    then have e: "next_utf8 s n i = (CONDE_DATA, i + 1, 0)" by (simp add: next_utf8_def Let_def cmp)
    show ?thesis using 6 unfolding e by simp
  qed
qed

text \<open>The same conditions on the code point instead of on the bytes.\<close>

lemma seq2_iff:
  fixes x y c :: nat
  shows "194 \<le> x \<and> x \<le> 223 \<and> 128 \<le> y \<and> y \<le> 191 \<and> c = (x - 192) * 64 + (y - 128) \<longleftrightarrow>
    128 \<le> c \<and> c < 2048 \<and> x = 192 + c div 64 \<and> y = 128 + c mod 64"
proof
  assume h: "194 \<le> x \<and> x \<le> 223 \<and> 128 \<le> y \<and> y \<le> 191 \<and> c = (x - 192) * 64 + (y - 128)"
  then have "x - 192 = c div 64 \<and> y - 128 = c mod 64" by (subst radix64 [symmetric]) auto
  then show "128 \<le> c \<and> c < 2048 \<and> x = 192 + c div 64 \<and> y = 128 + c mod 64" using h by linarith
next
  assume h: "128 \<le> c \<and> c < 2048 \<and> x = 192 + c div 64 \<and> y = 128 + c mod 64"
  then have "c = (x - 192) * 64 + (y - 128)" by simp
  moreover have "c div 64 < 32" "c mod 64 < 64" "2 \<le> c div 64" using h by auto
  ultimately show "194 \<le> x \<and> x \<le> 223 \<and> 128 \<le> y \<and> y \<le> 191 \<and> c = (x - 192) * 64 + (y - 128)" using h by linarith
qed

lemma seq3_iff:
  fixes x y z c :: nat
  shows "224 \<le> x \<and> x \<le> 239 \<and> (if x = 224 then 160 else 128) \<le> y \<and> y \<le> (if x = 237 then 159 else 191) \<and>
      128 \<le> z \<and> z \<le> 191 \<and> c = ((x - 224) * 64 + (y - 128)) * 64 + (z - 128) \<longleftrightarrow>
    2048 \<le> c \<and> c < 65536 \<and> \<not> (55296 \<le> c \<and> c < 57344) \<and> x = 224 + c div 4096 \<and> y = 128 + c div 64 mod 64 \<and> z = 128 + c mod 64"
    (is "?l \<longleftrightarrow> ?r")
proof
  assume h: ?l
  then have y: "128 \<le> y" "y \<le> 191" by (auto split: if_splits)
  have d: "x - 224 = c div 4096 \<and> y - 128 = c div 64 mod 64 \<and> z - 128 = c mod 64"
    using h y by (subst radix64_3 [symmetric]) auto
  have "2048 \<le> c" "c < 65536" using h y by (auto split: if_splits)
  moreover have "\<not> (55296 \<le> c \<and> c < 57344)" using h y by (auto split: if_splits)
  ultimately show ?r using d h y by linarith
next
  assume h: ?r
  define a b d where "a = c div 4096" and "b = c div 64 mod 64" and "d = c mod 64"
  have b: "b < 64" "d < 64" by (simp_all add: b_def d_def)
  have c: "c = (a * 64 + b) * 64 + d" using radix64_3 [OF b, of c a] by (simp add: a_def b_def d_def)
  have x: "x = 224 + a" "y = 128 + b" "z = 128 + d" using h by (simp_all add: a_def b_def d_def)
  show ?l using h b unfolding x c by (auto split: if_splits)
qed

lemma seq4_iff:
  fixes x y z w c :: nat
  shows "240 \<le> x \<and> x \<le> 244 \<and> (if x = 240 then 144 else 128) \<le> y \<and> y \<le> (if x = 244 then 143 else 191) \<and>
      128 \<le> z \<and> z \<le> 191 \<and> 128 \<le> w \<and> w \<le> 191 \<and>
      c = (((x - 240) * 64 + (y - 128)) * 64 + (z - 128)) * 64 + (w - 128) \<longleftrightarrow>
    65536 \<le> c \<and> c < 1114112 \<and> x = 240 + c div 262144 \<and> y = 128 + c div 4096 mod 64 \<and> z = 128 + c div 64 mod 64 \<and> w = 128 + c mod 64"
    (is "?l \<longleftrightarrow> ?r")
proof
  assume h: ?l
  then have y: "128 \<le> y" "y \<le> 191" by (auto split: if_splits)
  have d: "x - 240 = c div 262144 \<and> y - 128 = c div 4096 mod 64 \<and> z - 128 = c div 64 mod 64 \<and> w - 128 = c mod 64"
  proof (rule radix64_4 [THEN iffD1])
    show "c = (((x - 240) * 64 + (y - 128)) * 64 + (z - 128)) * 64 + (w - 128)" using h by blast
  qed (use h y in linarith)+
  define a b where "a = x - 240" and "b = y - 128"
  have a: "a = 0 \<Longrightarrow> 16 \<le> b" "a = 4 \<Longrightarrow> b \<le> 15" "a \<le> 4" "b \<le> 63"
    using h y by (auto simp: a_def b_def split: if_splits)
  have c: "c = ((a * 64 + b) * 64 + (z - 128)) * 64 + (w - 128)" using h by (simp only: a_def b_def)
  define q e f where "q = a * 64 + b" and "e = z - 128" and "f = w - 128"
  have q: "16 \<le> q" "q \<le> 271" using a by (cases "a = 0"; cases "a = 4"; simp add: q_def)+
  have e: "e < 64" "f < 64" using h unfolding e_def f_def by linarith+
  have c: "c = 4096 * q + 64 * e + f" unfolding c q_def e_def f_def by simp
  have "65536 \<le> c" "c < 1114112" using q e c by linarith+
  moreover have "240 \<le> x" "128 \<le> z" "128 \<le> w" using h by blast+
  ultimately show ?r using d y by (metis le_add_diff_inverse)
next
  assume h: ?r
  define a b d e where "a = c div 262144" and "b = c div 4096 mod 64" and "d = c div 64 mod 64" and "e = c mod 64"
  have b: "b < 64" "d < 64" "e < 64" by (simp_all add: b_def d_def e_def)
  have c: "c = ((a * 64 + b) * 64 + d) * 64 + e" using radix64_4 [OF b, of c a] by (simp add: a_def b_def d_def e_def)
  have x: "x = 240 + a" "y = 128 + b" "z = 128 + d" "w = 128 + e" using h by (simp_all add: a_def b_def d_def e_def)
  show ?l using h b unfolding x c by (auto split: if_splits)
qed

lemma bytes_at_Cons: "bytes_at s i (x # xs) \<longleftrightarrow> unat (s ! i) = x \<and> bytes_at s (Suc i) xs"
  by (auto simp: bytes_at_def nth_Cons less_Suc_eq_0_disj split: nat.splits)

lemma bytes_at_Nil [simp]: "bytes_at s i []"
  by (simp add: bytes_at_def)

lemma next_utf8_iff:
  assumes "i < n"
  shows "next_utf8 s n i = (CONDE_OK, i', c) \<longleftrightarrow> utf8_at s n i i' c"
proof -
  define x y z w where "x = unat (s ! i)" and "y = unat (s ! Suc i)" and "z = unat (s ! Suc (Suc i))"
    and "w = unat (s ! Suc (Suc (Suc i)))"
  have two: "194 \<le> x \<and> x \<le> 223 \<and> i + 1 < n \<and> 128 \<le> y \<and> y \<le> 191 \<and> i' = i + 2 \<and> unat c = (x - 192) * 64 + (y - 128) \<longleftrightarrow>
      i + 1 < n \<and> i' = i + 2 \<and> 128 \<le> unat c \<and> unat c < 2048 \<and> x = 192 + unat c div 64 \<and> y = 128 + unat c mod 64"
    using seq2_iff [of x y "unat c"] by blast
  have three: "224 \<le> x \<and> x \<le> 239 \<and> i + 2 < n \<and> (if x = 224 then 160 else 128) \<le> y \<and> y \<le> (if x = 237 then 159 else 191) \<and>
      128 \<le> z \<and> z \<le> 191 \<and> i' = i + 3 \<and> unat c = ((x - 224) * 64 + (y - 128)) * 64 + (z - 128) \<longleftrightarrow>
      i + 2 < n \<and> i' = i + 3 \<and> 2048 \<le> unat c \<and> unat c < 65536 \<and> \<not> (55296 \<le> unat c \<and> unat c < 57344) \<and>
      x = 224 + unat c div 4096 \<and> y = 128 + unat c div 64 mod 64 \<and> z = 128 + unat c mod 64"
    using seq3_iff [of x y z "unat c"] by blast
  have four: "240 \<le> x \<and> x \<le> 244 \<and> i + 3 < n \<and> (if x = 240 then 144 else 128) \<le> y \<and> y \<le> (if x = 244 then 143 else 191) \<and>
      128 \<le> z \<and> z \<le> 191 \<and> 128 \<le> w \<and> w \<le> 191 \<and> i' = i + 4 \<and>
      unat c = (((x - 240) * 64 + (y - 128)) * 64 + (z - 128)) * 64 + (w - 128) \<longleftrightarrow>
      i + 3 < n \<and> i' = i + 4 \<and> 65536 \<le> unat c \<and> unat c < 1114112 \<and> x = 240 + unat c div 262144 \<and>
      y = 128 + unat c div 4096 mod 64 \<and> z = 128 + unat c div 64 mod 64 \<and> w = 128 + unat c mod 64"
    using seq4_iff [of x y z w "unat c"] by blast
  note numbers = next_utf8_numbers [of s n i i' c, folded x_def y_def z_def w_def, unfolded two three four]
  consider "unat c < 128" | "128 \<le> unat c" "unat c < 2048" | "2048 \<le> unat c" "unat c < 65536" | "65536 \<le> unat c" by linarith
  then show ?thesis
  proof cases
    case 1
    have "next_utf8 s n i = (CONDE_OK, i', c) \<longleftrightarrow> x < 128 \<and> i' = i + 1 \<and> unat c = x"
      unfolding numbers using 1 by auto
    then show ?thesis using 1 assms
      by (auto simp: utf8_at_def utf8_def bytes_at_Cons scalar_unat x_def)
  next
    case 2
    have "next_utf8 s n i = (CONDE_OK, i', c) \<longleftrightarrow> i + 1 < n \<and> i' = i + 2 \<and> x = 192 + unat c div 64 \<and> y = 128 + unat c mod 64"
      unfolding numbers using 2 by auto
    then show ?thesis using 2
      by (auto simp: utf8_at_def utf8_def bytes_at_Cons scalar_unat x_def y_def)
  next
    case 3
    have "next_utf8 s n i = (CONDE_OK, i', c) \<longleftrightarrow> i + 2 < n \<and> i' = i + 3 \<and> \<not> (55296 \<le> unat c \<and> unat c < 57344) \<and>
        x = 224 + unat c div 4096 \<and> y = 128 + unat c div 64 mod 64 \<and> z = 128 + unat c mod 64"
      unfolding numbers using 3 by auto
    then show ?thesis using 3
      by (auto simp: utf8_at_def utf8_def bytes_at_Cons scalar_unat x_def y_def z_def)
  next
    case 4
    have "next_utf8 s n i = (CONDE_OK, i', c) \<longleftrightarrow> i + 3 < n \<and> i' = i + 4 \<and> unat c < 1114112 \<and>
        x = 240 + unat c div 262144 \<and> y = 128 + unat c div 4096 mod 64 \<and> z = 128 + unat c div 64 mod 64 \<and> w = 128 + unat c mod 64"
      unfolding numbers using 4 by auto
    then show ?thesis using 4
      by (auto simp: utf8_at_def utf8_def bytes_at_Cons scalar_unat x_def y_def z_def w_def)
  qed
qed

section \<open>Writing and reading back\<close>

lemma unat_lead:
  "unat x < 64 \<Longrightarrow> unat (0x80 OR x :: u32) = 128 + unat x" "unat x < 32 \<Longrightarrow> unat (0xC0 OR x :: u32) = 192 + unat x"
  "unat x < 16 \<Longrightarrow> unat (0xE0 OR x :: u32) = 224 + unat x" "unat x < 8 \<Longrightarrow> unat (0xF0 OR x :: u32) = 240 + unat x"
  using unat_join [of x 6 2] unat_join [of x 5 6] unat_join [of x 4 14] unat_join [of x 3 30] by simp_all

lemma unat_cont: "unat (ucast (0x80 OR (drop_bit k c AND 0x3F) :: u32) :: u8) = 128 + unat c div 2 ^ k mod 64"
proof -
  have "unat (drop_bit k c AND 0x3F) = unat c div 2 ^ k mod 64" by (simp only: unat_6 unat_right)
  then show ?thesis by (simp only: unat_narrow) (subst unat_lead(1), simp_all)
qed

lemma utf8_code_bytes:
  assumes "scalar c"
  shows "map unat (code_bytes CODE_UTF8 c) = utf8 (unat c)"
proof -
  have cmp: "c < k \<longleftrightarrow> unat c < unat k" for k :: u32 by (rule word_less_nat_alt)
  have b: "unat c < 1114112" using assms by (simp add: scalar_unat)
  have up: "[Suc 0..<2] = [1]" "[Suc 0..<3] = [1, 2]" "[Suc 0..<4] = [1, 2, 3]" by (simp_all add: upt_rec)
  have c0: "unat (ucast (0x80 OR (c AND 0x3F) :: u32) :: u8) = 128 + unat c mod 64" using unat_cont [of 0 c] by simp
  consider "unat c < 128" | "128 \<le> unat c" "unat c < 2048" | "2048 \<le> unat c" "unat c < 65536" | "65536 \<le> unat c" by linarith
  then show ?thesis
  proof cases
    case 1
    then show ?thesis by (simp add: code_bytes_def utf8_def cmp unat_narrow)
  next
    case 2
    have "unat (drop_bit 6 c) = unat c div 64" unfolding unat_right by simp
    then have "unat (ucast (0xC0 OR drop_bit 6 c) :: u8) = 192 + unat c div 64"
      unfolding unat_narrow using 2 by (subst unat_lead(2)) simp_all
    then show ?thesis using 2 c0 by (simp add: code_bytes_def utf8_def cmp lead_def up)
  next
    case 3
    have "unat (drop_bit 12 c) = unat c div 4096" unfolding unat_right by simp
    then have "unat (ucast (0xE0 OR drop_bit 12 c) :: u8) = 224 + unat c div 4096"
      unfolding unat_narrow using 3 by (subst unat_lead(3)) simp_all
    then show ?thesis using 3 c0 unat_cont [of 6 c] by (simp add: code_bytes_def utf8_def cmp lead_def up)
  next
    case 4
    have "unat (drop_bit 18 c) = unat c div 262144" unfolding unat_right by simp
    then have "unat (ucast (0xF0 OR drop_bit 18 c) :: u8) = 240 + unat c div 262144"
      unfolding unat_narrow using 4 b by (subst unat_lead(4)) simp_all
    then show ?thesis using 4 c0 unat_cont [of 6 c] unat_cont [of 12 c] by (simp add: code_bytes_def utf8_def cmp lead_def up)
  qed
qed

text \<open>The bytes of \<open>s\<close> at \<open>i\<close> are those of code point \<open>c\<close>, up to \<open>i'\<close>.\<close>

definition code_at :: "nat \<Rightarrow> u8 list \<Rightarrow> nat \<Rightarrow> nat \<Rightarrow> nat \<Rightarrow> u32 \<Rightarrow> bool" where
  "code_at enc s n i i' c \<longleftrightarrow> scalar c \<and> i' = i + length (code_bytes enc c) \<and> i' \<le> n \<and>
     (\<forall>k<length (code_bytes enc c). s ! (i + k) = code_bytes enc c ! k)"

lemma code_at_utf8: "code_at CODE_UTF8 s n i i' c \<longleftrightarrow> utf8_at s n i i' c"
proof (cases "scalar c")
  case True
  have l: "length (code_bytes CODE_UTF8 c) = length (utf8 (unat c))"
    using arg_cong [OF utf8_code_bytes [OF True], of length] by simp
  have "unat (s ! (i + k)) = utf8 (unat c) ! k \<longleftrightarrow> s ! (i + k) = code_bytes CODE_UTF8 c ! k"
    if "k < length (utf8 (unat c))" for k
  proof -
    have "k < length (code_bytes CODE_UTF8 c)" using that l by simp
    then have "utf8 (unat c) ! k = unat (code_bytes CODE_UTF8 c ! k)"
      by (subst utf8_code_bytes [OF True, symmetric]) simp
    then show ?thesis by (simp only: word_unat_eq_iff)
  qed
  then show ?thesis using True l by (simp add: code_at_def utf8_at_def bytes_at_def)
qed (simp add: code_at_def utf8_at_def)

lemma unat_unit16:
  "unat (unit16 s p big) = (if big then 256 * unat (s ! p) + unat (s ! (p + 1)) else 256 * unat (s ! (p + 1)) + unat (s ! p))"
proof -
  have j: "unat (push_bit 8 (ucast a) OR ucast b :: u32) = 256 * unat a + unat b" for a b :: u8
  proof -
    have "unat (push_bit 8 (ucast a) OR ucast b :: u32) = unat (ucast a :: u32) * 2 ^ 8 + unat (ucast b :: u32)"
      by (rule unat_join) (use unat_byte_less [of a] unat_byte_less [of b] in \<open>simp_all only: unat_byte\<close>, simp_all)
    then show ?thesis by (simp only: unat_byte) simp
  qed
  show ?thesis by (cases big) (simp_all only: unit16_def j if_True if_False)
qed

lemma radix256: "b < 256 \<Longrightarrow> 256 * a + b = u \<longleftrightarrow> a = u div 256 \<and> b = (u mod 256 :: nat)"
  by auto

lemma put16_bytes:
  assumes "unat u < 65536"
  shows "unat (put16 u big ! 0) = (if big then unat u div 256 else unat u mod 256)"
    "unat (put16 u big ! 1) = (if big then unat u mod 256 else unat u div 256)" "length (put16 u big) = 2"
proof -
  have "unat (drop_bit 8 u) = unat u div 256" unfolding unat_right by simp
  moreover from this have "unat (ucast (drop_bit 8 u) :: u8) = unat u div 256" unfolding unat_narrow using assms by simp
  ultimately show "unat (put16 u big ! 0) = (if big then unat u div 256 else unat u mod 256)"
    "unat (put16 u big ! 1) = (if big then unat u mod 256 else unat u div 256)" "length (put16 u big) = 2"
    by (simp_all add: put16_def unat_narrow)
qed

lemma unit16_iff:
  assumes "unat u < 65536"
  shows "unit16 s p big = u \<longleftrightarrow> s ! p = put16 u big ! 0 \<and> s ! (p + 1) = put16 u big ! 1"
  unfolding word_unat_eq_iff unat_unit16 put16_bytes [OF assms]
  using radix256 [of "unat (s ! (p + 1))" "unat (s ! p)" "unat u"] radix256 [of "unat (s ! p)" "unat (s ! (p + 1))" "unat u"]
    unat_byte_less [of "s ! p"] unat_byte_less [of "s ! (p + 1)"]
  by (simp split: if_splits) blast

lemma unit16_less: "unat (unit16 s p big) < 65536"
  using unat_byte_less [of "s ! p"] unat_byte_less [of "s ! (p + 1)"] by (simp add: unat_unit16)

lemma all_less_2: "(\<forall>k<2. P k) \<longleftrightarrow> P 0 \<and> P (1 :: nat)"
  by (auto simp: less_2_cases_iff)

lemma all_less_4: "(\<forall>k<4. P k) \<longleftrightarrow> P 0 \<and> P 1 \<and> P 2 \<and> P (3 :: nat)"
  by (auto simp: numeral_eq_Suc less_Suc_eq)

lemma code_at_short:
  assumes "enc = (if big then CODE_UTF16BE else CODE_UTF16LE)" "c < 0x10000" "i < n"
  shows "code_at enc s n i i' c \<longleftrightarrow> scalar c \<and> 2 \<le> n - i \<and> i' = i + 2 \<and> unit16 s i big = c"
proof -
  have "code_bytes enc c = put16 c big" using assms(1,2) by (simp add: code_bytes_def)
  moreover have u: "unat c < 65536" using assms(2) by (simp add: word_less_nat_alt)
  ultimately show ?thesis using assms(3)
    by (auto simp: code_at_def put16_bytes(3) [OF u] unit16_iff [OF u] all_less_2)
qed

lemma code_at_pair:
  assumes "enc = (if big then CODE_UTF16BE else CODE_UTF16LE)" "\<not> c < 0x10000" "i < n"
  shows "code_at enc s n i i' c \<longleftrightarrow> scalar c \<and> 4 \<le> n - i \<and> i' = i + 4 \<and>
    unat (unit16 s i big) = 55296 + (unat c - 65536) div 1024 \<and> unat (unit16 s (i + 2) big) = 56320 + (unat c - 65536) mod 1024"
proof (cases "scalar c")
  case True
  define v where "v = c - 0x10000"
  define h where "h = 0xD800 + drop_bit 10 v"
  define l where "l = 0xDC00 + (v AND 0x3FF)"
  have c: "65536 \<le> unat c" "unat c < 1114112" using assms(2) True by (simp_all add: word_less_nat_alt scalar_unat)
  have v: "unat v = unat c - 65536" unfolding v_def using c by (subst unat_sub) (simp_all add: word_le_nat_alt)
  have "unat (drop_bit 10 v) = unat v div 1024" unfolding unat_right by simp
  then have h: "unat h = 55296 + (unat c - 65536) div 1024" unfolding h_def
    by (subst unat_add_lem [THEN iffD1]) (use v c in simp_all)
  have "unat (v AND 0x3FF) = unat v mod 1024" using unat_low [of v 10] by (simp add: mask_eq_exp_minus_1)
  then have l: "unat l = 56320 + (unat c - 65536) mod 1024" unfolding l_def
    by (subst unat_add_lem [THEN iffD1]) (use v in simp_all)
  have "(unat c - 65536) div 1024 < 1024" using c by linarith
  then have b: "unat h < 65536" "unat l < 65536" using h l by simp_all
  have e: "code_bytes enc c = put16 h big @ put16 l big"
    using assms(1,2) by (simp add: code_bytes_def Let_def h_def l_def v_def)
  have eq: "unat (unit16 s p big) = k \<longleftrightarrow> unit16 s p big = u" if "unat u = k" for p k u
    using that by (simp only: word_unat_eq_iff)
  have e3: "i + 3 = Suc (Suc (Suc i))" by simp
  show ?thesis unfolding eq [OF h] eq [OF l] using assms(3) True
    by (auto simp: e3 code_at_def e put16_bytes(3) [OF b(1)] put16_bytes(3) [OF b(2)] unit16_iff [OF b(1)] unit16_iff [OF b(2)]
        all_less_4 nth_append)
qed (simp add: code_at_def)

lemma radix1024: "b < 1024 \<Longrightarrow> c = 1024 * a + b \<longleftrightarrow> a = c div 1024 \<and> b = (c mod 1024 :: nat)"
  by auto

lemma pair_value:
  assumes "55296 \<le> unat u" "unat u < 56320" "56320 \<le> unat v" "unat v \<le> 57343"
  shows "unat (0x10000 + push_bit 10 (u - 0xD800) + (v - 0xDC00) :: u32) = 65536 + (1024 * (unat u - 55296) + (unat v - 56320))"
proof -
  have s: "unat (u - 0xD800) = unat u - 55296" "unat (v - 0xDC00) = unat v - 56320"
    using assms by (simp_all add: unat_sub word_le_nat_alt)
  have "unat (push_bit 10 (u - 0xD800)) = 1024 * (unat u - 55296)"
    using unat_join [of 0 10 "u - 0xD800"] assms s by simp
  then show ?thesis using s assms by (simp add: unat_word_ariths)
qed

lemma next_utf16_iff:
  assumes "i < n" "enc = (if big then CODE_UTF16BE else CODE_UTF16LE)"
  shows "next_utf16 s n i big = (CONDE_OK, i', c) \<longleftrightarrow> code_at enc s n i i' c"
proof -
  define u v where "u = unit16 s i big" and "v = unit16 s (i + 2) big"
  have cmp: "w < k \<longleftrightarrow> unat w < unat k" "k \<le> w \<longleftrightarrow> unat k \<le> unat w" for w k :: u32
    by (rule word_less_nat_alt, rule word_le_nat_alt)
  show ?thesis
  proof (cases "c < 0x10000")
    case True
    have c: "unat c < 65536" using True by (simp add: cmp)
    have ne: "unat (0x10000 + push_bit 10 (u - 0xD800) + (v - 0xDC00)) \<noteq> unat c"
      if "55296 \<le> unat u" "unat u < 56320" "56320 \<le> unat v" "unat v \<le> 57343"
      using pair_value [OF that] c by simp
    have "code_at enc s n i i' c \<longleftrightarrow> (unat c < 55296 \<or> 57343 < unat c) \<and> 2 \<le> n - i \<and> i' = i + 2 \<and> u = c"
      using code_at_short [OF assms(2) True assms(1), of s i'] c by (auto simp: u_def scalar_unat)
    moreover have "next_utf16 s n i big = (CONDE_OK, i', c) \<longleftrightarrow> (unat c < 55296 \<or> 57343 < unat c) \<and> 2 \<le> n - i \<and> i' = i + 2 \<and> u = c"
      unfolding next_utf16_def Let_def u_def [symmetric] v_def [symmetric]
      using ne by (auto simp: cmp not_less not_le)
    ultimately show ?thesis by blast
  next
    case False
    then have c: "65536 \<le> unat c" by (simp add: cmp)
    have u: "unat u < 65536" "unat v < 65536" unfolding u_def v_def by (rule unit16_less)+
    have "code_at enc s n i i' c \<longleftrightarrow> scalar c \<and> 4 \<le> n - i \<and> i' = i + 4 \<and>
        unat u = 55296 + (unat c - 65536) div 1024 \<and> unat v = 56320 + (unat c - 65536) mod 1024"
      using code_at_pair [OF assms(2) False assms(1), of s i'] by (simp only: u_def v_def)
    also have "\<dots> \<longleftrightarrow> 4 \<le> n - i \<and> i' = i + 4 \<and> 55296 \<le> unat u \<and> unat u < 56320 \<and> 56320 \<le> unat v \<and> unat v \<le> 57343 \<and>
        unat c = 65536 + (1024 * (unat u - 55296) + (unat v - 56320))"
      (is "?l \<longleftrightarrow> ?r")
    proof
      assume h: ?l
      then have "unat c < 1114112" by (simp add: scalar_unat)
      then have "(unat c - 65536) div 1024 < 1024" by linarith
      then show ?r using h c by auto
    next
      assume h: ?r
      have b: "unat v - 56320 < 1024" using h by linarith
      have "unat u - 55296 = (unat c - 65536) div 1024 \<and> unat v - 56320 = (unat c - 65536) mod 1024"
        by (rule radix1024 [OF b, THEN iffD1]) (use h in simp)
      moreover have "unat u - 55296 < 1024" using h by linarith
      then have "scalar c" using h b unfolding scalar_unat by linarith
      ultimately show ?l using h by (metis le_add_diff_inverse)
    qed
    also have "\<dots> \<longleftrightarrow> next_utf16 s n i big = (CONDE_OK, i', c)"
    proof (cases "55296 \<le> unat u \<and> unat u < 56320 \<and> 56320 \<le> unat v \<and> unat v \<le> 57343")
      case True
      then have "0x10000 + push_bit 10 (u - 0xD800) + (v - 0xDC00) = c \<longleftrightarrow>
          unat c = 65536 + (1024 * (unat u - 55296) + (unat v - 56320))"
        using pair_value [of u v] by (metis word_unat_eq_iff)
      then show ?thesis unfolding next_utf16_def Let_def u_def [symmetric] v_def [symmetric]
        using True by (auto simp: cmp)
    next
      case no: False
      have "u \<noteq> c" using u c by auto
      then show ?thesis unfolding next_utf16_def Let_def u_def [symmetric] v_def [symmetric]
        using no by (auto simp: cmp)
    qed
    finally show ?thesis by blast
  qed
qed

lemma be32_bytes: "be32 a b c d = w \<longleftrightarrow> a = byte_at 3 w \<and> b = byte_at 2 w \<and> c = byte_at (Suc 0) w \<and> d = byte_at 0 w"
  by (metis be32_byte_at byte_at_be32)

lemma next_utf32_iff:
  assumes "i < n" "enc = (if big then CODE_UTF32BE else CODE_UTF32LE)"
  shows "next_utf32 s n i big = (CONDE_OK, i', c) \<longleftrightarrow> code_at enc s n i i' c"
proof -
  have up: "[0..<4] = [0, 1, 2, 3::nat]" by (simp add: upt_rec)
  have b: "code_bytes enc c = (if big then [byte_at 3 c, byte_at 2 c, byte_at 1 c, byte_at 0 c]
      else [byte_at 0 c, byte_at 1 c, byte_at 2 c, byte_at 3 c])"
    using assms(2) by (simp add: code_bytes_def up byte_at_def)
  define v where "v = (if big then be32 (s ! i) (s ! (i + 1)) (s ! (i + 2)) (s ! (i + 3))
      else be32 (s ! (i + 3)) (s ! (i + 2)) (s ! (i + 1)) (s ! i))"
  have "(\<forall>k<4. s ! (i + k) = code_bytes enc c ! k) \<longleftrightarrow> v = c"
    unfolding all_less_4 b v_def by (cases big) (auto simp: be32_bytes)
  moreover have "length (code_bytes enc c) = 4" by (simp add: b)
  ultimately have at: "code_at enc s n i i' c \<longleftrightarrow> scalar c \<and> i' = i + 4 \<and> i' \<le> n \<and> v = c"
    unfolding code_at_def by metis
  have "next_utf32 s n i big = (if n - i < 4 then (CONDE_INPUT_EOF, n, 0) else if scalar v then (CONDE_OK, i + 4, v) else (CONDE_DATA, i + 4, 0))"
    unfolding next_utf32_def Let_def v_def [symmetric] scalar_def by auto
  then show ?thesis unfolding at using assms(1) by auto
qed

lemma next_code_iff:
  assumes "i < n" "enc \<noteq> CODE_UTF8_BOM" "enc \<le> CODE_UTF32BE"
  shows "next_code enc s n i = (CONDE_OK, i', c) \<longleftrightarrow> code_at enc s n i i' c"
proof -
  consider "enc = CODE_UTF8" | "enc = CODE_UTF16LE" | "enc = CODE_UTF16BE" | "enc = CODE_UTF32LE" | "enc = CODE_UTF32BE"
    using assms(2,3) by linarith
  then show ?thesis
    by cases (simp_all only: next_code_def, simp_all add: code_at_utf8 next_utf8_iff [OF assms(1)]
        next_utf16_iff [OF assms(1)] next_utf32_iff [OF assms(1)])
qed

section \<open>Conversion of whole texts\<close>

definition encode :: "nat \<Rightarrow> u32 list \<Rightarrow> u8 list" where
  "encode enc cs = concat (map (code_bytes enc) cs)"

lemma encode_simps [simp]: "encode enc [] = []" "encode enc (c # cs) = code_bytes enc c @ encode enc cs"
  "encode enc (cs @ ds) = encode enc cs @ encode enc ds"
  by (simp_all add: encode_def)

lemma code_bytes_nonempty [simp]: "code_bytes enc c \<noteq> []"
  by (simp add: code_bytes_def put16_def Let_def)

lemma drop_prefix:
  assumes "i + length bs \<le> length s"
  shows "drop i s = bs @ drop (i + length bs) s \<longleftrightarrow> (\<forall>k<length bs. s ! (i + k) = bs ! k)"
proof
  assume h: "drop i s = bs @ drop (i + length bs) s"
  have "s ! (i + k) = bs ! k" if "k < length bs" for k
  proof -
    have "s ! (i + k) = drop i s ! k" using assms that by simp
    then show ?thesis using that by (simp add: h nth_append)
  qed
  then show "\<forall>k<length bs. s ! (i + k) = bs ! k" by blast
next
  assume h: "\<forall>k<length bs. s ! (i + k) = bs ! k"
  have "take (length bs) (drop i s) = bs" using h assms by (intro nth_equalityI) simp_all
  then show "drop i s = bs @ drop (i + length bs) s" by (metis append_take_drop_id drop_drop add.commute)
qed

lemma code_at_drop:
  "code_at enc s (length s) i i' c \<longleftrightarrow> scalar c \<and> i' = i + length (code_bytes enc c) \<and> i' \<le> length s \<and>
     drop i s = code_bytes enc c @ drop i' s"
  unfolding code_at_def using drop_prefix [of i "code_bytes enc c" s] by blast

lemma code_at_of_drop:
  assumes "drop i s = code_bytes enc c @ rest" "scalar c"
  shows "code_at enc s (length s) i (i + length (code_bytes enc c)) c" "drop (i + length (code_bytes enc c)) s = rest"
proof -
  have "length (code_bytes enc c) + length rest = length s - i" using arg_cong [OF assms(1), of length] by simp
  moreover have "code_bytes enc c \<noteq> []" by simp
  ultimately have l: "i + length (code_bytes enc c) \<le> length s" by (cases "code_bytes enc c") auto
  show r: "drop (i + length (code_bytes enc c)) s = rest"
    using arg_cong [OF assms(1), of "drop (length (code_bytes enc c))"] by (simp add: drop_drop add.commute)
  show "code_at enc s (length s) i (i + length (code_bytes enc c)) c"
    unfolding code_at_drop using assms l r by simp
qed

lemma conde_done_eq [simp]: "conde_done x = conde_done y \<longleftrightarrow> x = y" "conde_fail e x = conde_done y \<longleftrightarrow> e = 0 \<and> x = y \<and> y = []"
  by (auto simp: conde_done_def conde_fail_def)

definition texts :: "nat \<Rightarrow> nat \<Rightarrow> u8 list \<Rightarrow> u8 list \<Rightarrow> bool" where
  "texts from_enc to s d \<longleftrightarrow> (\<exists>cs. list_all scalar cs \<and> s = encode from_enc cs \<and> d = encode to cs)"

lemma convert_loop_iff:
  assumes "from_enc \<noteq> CODE_UTF8_BOM" "from_enc \<le> CODE_UTF32BE" "i \<le> length src" "length out \<le> cap"
  shows "convert_loop cap src (length src) from_enc to 0 i first out = conde_done res \<longleftrightarrow>
    (\<exists>d. texts from_enc to (drop i src) d \<and> res = out @ d \<and> length res \<le> cap)"
  using assms(3,4)
proof (induction "length src - i" arbitrary: i first out rule: less_induct)
  case less
  show ?case
  proof (cases "i = length src")
    case True
    have "texts from_enc to [] d \<longleftrightarrow> d = []" for d
    proof
      assume "texts from_enc to [] d"
      then obtain cs where "encode from_enc cs = []" "d = encode to cs" unfolding texts_def by metis
      then show "d = []" by (cases cs) simp_all
    qed (auto simp: texts_def intro!: exI [of _ "[]"])
    then show ?thesis using True less.prems by (subst convert_loop.simps) auto
  next
    case False
    then have i: "i < length src" using less.prems by simp
    obtain r i' c where nx: "next_code from_enc src (length src) i = (r, i', c)" by (cases "next_code from_enc src (length src) i") blast
    have first_code: "\<exists>c cs. list_all scalar (c # cs) \<and> drop i src = encode from_enc (c # cs) \<and> d = encode to (c # cs)"
      if "texts from_enc to (drop i src) d" for d
    proof -
      obtain cs where cs: "list_all scalar cs" "drop i src = encode from_enc cs" "d = encode to cs" using \<open>texts from_enc to (drop i src) d\<close> unfolding texts_def by blast
      then show ?thesis using i by (cases cs) auto
    qed
    have reads: "next_code from_enc src (length src) i = (CONDE_OK, i + length (code_bytes from_enc c), c)"
      "drop (i + length (code_bytes from_enc c)) src = encode from_enc cs"
      if "list_all scalar (c # cs)" "drop i src = encode from_enc (c # cs)" for c cs
    proof -
      have d: "drop i src = code_bytes from_enc c @ encode from_enc cs" "scalar c" using that by simp_all
      show "drop (i + length (code_bytes from_enc c)) src = encode from_enc cs" by (rule code_at_of_drop(2) [OF d])
      show "next_code from_enc src (length src) i = (CONDE_OK, i + length (code_bytes from_enc c), c)"
        unfolding next_code_iff [OF i assms(1,2)] by (rule code_at_of_drop(1) [OF d])
    qed
    show ?thesis
    proof (cases "r = CONDE_OK")
      case r: False
      then have "convert_loop cap src (length src) from_enc to 0 i first out \<noteq> conde_done res"
        using i by (subst convert_loop.simps) (simp add: nx)
      moreover have "\<not> texts from_enc to (drop i src) d" for d
        using first_code [of d] reads(1) nx r by auto
      ultimately show ?thesis by blast
    next
      case r: True
      have at: "code_at from_enc src (length src) i i' c" using nx r next_code_iff [OF i assms(1,2)] by simp
      then have c: "scalar c" "i' = i + length (code_bytes from_enc c)" "i' \<le> length src" "drop i src = code_bytes from_enc c @ drop i' src"
        by (simp_all add: code_at_drop)
      have i': "length src - i' < length src - i" using next_code_position [OF nx i] i by linarith
      let ?bs = "code_bytes to c"
      have texts: "texts from_enc to (drop i src) d \<longleftrightarrow> (\<exists>d'. d = ?bs @ d' \<and> texts from_enc to (drop i' src) d')" for d
      proof
        assume "texts from_enc to (drop i src) d"
        then obtain b cs where b: "list_all scalar (b # cs)" "drop i src = encode from_enc (b # cs)" "d = encode to (b # cs)"
          using first_code by blast
        have "b = c" "i' = i + length (code_bytes from_enc b)" using reads(1) [OF b(1,2)] nx by simp_all
        then show "\<exists>d'. d = ?bs @ d' \<and> texts from_enc to (drop i' src) d'"
          using b reads(2) [OF b(1,2)] unfolding texts_def by auto
      next
        assume "\<exists>d'. d = ?bs @ d' \<and> texts from_enc to (drop i' src) d'"
        then obtain cs where "d = ?bs @ encode to cs" "list_all scalar cs" "drop i' src = encode from_enc cs"
          by (auto simp: texts_def)
        then show "texts from_enc to (drop i src) d" unfolding texts_def using c
          by (intro exI [of _ "c # cs"]) simp
      qed
      show ?thesis
      proof (cases "cap - length out < length ?bs")
        case True
        then have "convert_loop cap src (length src) from_enc to 0 i first out \<noteq> conde_done res"
          using i r by (subst convert_loop.simps) (simp add: nx put_def Let_def)
        moreover have "\<not> length (out @ ?bs @ d') \<le> cap" for d' using True by simp
        ultimately show ?thesis unfolding texts by blast
      next
        case fits: False
        then have "convert_loop cap src (length src) from_enc to 0 i first out =
            convert_loop cap src (length src) from_enc to 0 i' False (out @ ?bs)"
          using i r by (subst convert_loop.simps) (simp add: nx put_def Let_def)
        moreover have "length (out @ ?bs) \<le> cap" using fits less.prems(2) by simp
        ultimately show ?thesis using less.hyps [OF i' c(3), of "out @ ?bs" False] unfolding texts by auto
      qed
    qed
  qed
qed

lemma bom_bytes: "code_bytes CODE_UTF8_BOM BOM = [0xEF, 0xBB, 0xBF]"
  by code_simp

definition bom_of :: "nat \<Rightarrow> u8 list" where
  "bom_of enc = (if enc = CODE_UTF8_BOM then [0xEF, 0xBB, 0xBF] else [])"

lemma length_bom: "length (bom_of enc) = (if enc = CODE_UTF8_BOM then 3 else 0)"
  by (simp add: bom_of_def)

lemma from_utf32be_iff:
  assumes "enc \<le> CODE_UTF32LE" "length src = n"
  shows "cpt_code_utf32be_to enc False (Some cap) (Some src) n 0 = conde_done d \<longleftrightarrow>
    (\<exists>e. texts CODE_UTF32BE enc src e \<and> d = bom_of enc @ e \<and> length d \<le> cap)"
proof (cases "enc = CODE_UTF8_BOM")
  case True
  show ?thesis
  proof (cases "3 \<le> cap")
    case c: True
    then have "cpt_code_utf32be_to enc False (Some cap) (Some src) n 0 = convert_loop cap src n CODE_UTF32BE enc 0 0 True [0xEF, 0xBB, 0xBF]"
      using True by (simp add: cpt_code_utf32be_to_def convert_def put_def bom_bytes [simplified] Let_def)
    then show ?thesis using convert_loop_iff [of CODE_UTF32BE 0 src "[0xEF, 0xBB, 0xBF]" cap enc True d] assms True c
      by (simp add: bom_of_def)
  next
    case c: False
    then have "cpt_code_utf32be_to enc False (Some cap) (Some src) n 0 = conde_fail CONDE_OUTPUT_EOF []"
      using True by (simp add: cpt_code_utf32be_to_def convert_def put_def bom_bytes [simplified] Let_def)
    then show ?thesis using True c by (auto simp: bom_of_def)
  qed
next
  case False
  then have "cpt_code_utf32be_to enc False (Some cap) (Some src) n 0 = convert_loop cap src n CODE_UTF32BE enc 0 0 True []"
    using assms(1) by (simp add: cpt_code_utf32be_to_def convert_def)
  then show ?thesis using convert_loop_iff [of CODE_UTF32BE 0 src "[]" cap enc True d] assms False
    by (simp add: bom_of_def)
qed

lemma to_utf32be_iff:
  assumes "enc \<le> CODE_UTF32LE" "enc = CODE_UTF8_BOM \<longrightarrow> take 3 src = [0xEF, 0xBB, 0xBF]" "length src = n"
  shows "cpt_code_to_utf32be enc False (Some cap) (Some src) n 0 = conde_done d \<longleftrightarrow>
    texts (if enc = CODE_UTF8_BOM then CODE_UTF8 else enc) CODE_UTF32BE (drop (length (bom_of enc)) src) d \<and> length d \<le> cap"
proof (cases "enc = CODE_UTF8_BOM")
  case True
  obtain rest where src: "src = [0xEF, 0xBB, 0xBF] @ rest"
    using assms(2) True by (metis append_take_drop_id)
  then have "cpt_code_to_utf32be enc False (Some cap) (Some src) n 0 = convert_loop cap src n CODE_UTF8 CODE_UTF32BE 0 3 True []"
    using assms(3) True by (auto simp: cpt_code_to_utf32be_def convert_def)
  moreover have "3 \<le> length src" by (simp add: src)
  ultimately show ?thesis using convert_loop_iff [of CODE_UTF8 3 src "[]" cap CODE_UTF32BE True d] assms(3) True
    by (simp add: length_bom)
next
  case False
  then have "cpt_code_to_utf32be enc False (Some cap) (Some src) n 0 = convert_loop cap src n enc CODE_UTF32BE 0 0 True []"
    using assms(1) by (simp add: cpt_code_to_utf32be_def convert_def)
  then show ?thesis using convert_loop_iff [of enc 0 src "[]" cap CODE_UTF32BE True d] assms False
    by (simp add: bom_of_def)
qed

lemma encode_bom: "encode CODE_UTF8_BOM cs = encode CODE_UTF8 cs"
proof -
  have "code_bytes CODE_UTF8_BOM = code_bytes CODE_UTF8" by (simp add: code_bytes_def fun_eq_iff)
  then show ?thesis by (simp add: encode_def)
qed


text \<open>C21: What was converted from UTF-32BE to any of the five encodings converts back to the same bytes.\<close>

theorem code_roundtrip:
  assumes "enc \<le> CODE_UTF32LE" "length src = n" "n \<le> cap'"
    "cpt_code_utf32be_to enc False (Some cap) (Some src) n 0 = conde_done d"
  shows "cpt_code_to_utf32be enc False (Some cap') (Some d) (length d) 0 = conde_done src"
proof -
  obtain cs where cs: "list_all scalar cs" "src = encode CODE_UTF32BE cs" "d = bom_of enc @ encode enc cs"
    using assms(4) unfolding from_utf32be_iff [OF assms(1,2)] texts_def by blast
  have "enc = CODE_UTF8_BOM \<longrightarrow> take 3 d = [0xEF, 0xBB, 0xBF]" by (simp add: cs(3) bom_of_def)
  moreover have "texts (if enc = CODE_UTF8_BOM then CODE_UTF8 else enc) CODE_UTF32BE (drop (length (bom_of enc)) d) src"
    unfolding texts_def using cs by (intro exI [of _ cs]) (auto simp: encode_bom simp del: One_nat_def)
  ultimately show ?thesis using to_utf32be_iff [OF assms(1) _ refl, of d cap' src] assms(2,3) by blast
qed

text \<open>The letter A, the euro sign, and a musical symbol above the basic plane.\<close>

definition code_sample :: "u32 list" where "code_sample = [0x41, 0x20AC, 0x1D11E]"

lemma code_sample_ok: "list_all scalar code_sample"
  by (simp add: code_sample_def scalar_def)

lemma code_sample_bytes:
  "encode CODE_UTF32BE code_sample = [0, 0, 0, 0x41, 0, 0, 0x20, 0xAC, 0, 1, 0xD1, 0x1E]"
  "encode CODE_UTF16LE code_sample = [0x41, 0, 0xAC, 0x20, 0x34, 0xD8, 0x1E, 0xDD]"
  by code_simp+


theorem code_roundtrip_witness:
  "\<exists>d. cpt_code_utf32be_to CODE_UTF8_BOM False (Some 20) (Some (encode CODE_UTF32BE code_sample)) 12 0 = conde_done d \<and>
     cpt_code_to_utf32be CODE_UTF8_BOM False (Some 12) (Some d) (length d) 0 = conde_done (encode CODE_UTF32BE code_sample)"
proof -
  have l: "length (encode CODE_UTF32BE code_sample) = 12" by (simp only: code_sample_bytes) simp
  have "length (bom_of CODE_UTF8_BOM @ encode CODE_UTF8_BOM code_sample) \<le> 20" by code_simp
  then have "cpt_code_utf32be_to CODE_UTF8_BOM False (Some 20) (Some (encode CODE_UTF32BE code_sample)) 12 0 =
      conde_done (bom_of CODE_UTF8_BOM @ encode CODE_UTF8_BOM code_sample)"
    using from_utf32be_iff [OF _ l, of CODE_UTF8_BOM 20] code_sample_ok unfolding texts_def by auto
  from this code_roundtrip [OF _ l _ this, of 12] show ?thesis by auto
qed

end
