(* ===== verification/Code_Bound.thy ===== *)
theory Code_Bound
  imports Code_Facts
begin

text \<open>
  The size bound of \<open>foundation/lib/code/code.c\<close>: a buffer of \<open>cpt_code_bound\<close> bytes is never too small,
  whatever the input and the flags are.
\<close>

text \<open>What a code point may take in the target encoding: at most \<open>per\<close> bytes in the basic plane, 4 otherwise.\<close>

definition per_code :: "nat \<Rightarrow> nat" where
  "per_code to = (if to = CODE_UTF16LE \<or> to = CODE_UTF16BE then 2 else if to = CODE_UTF32LE \<or> to = CODE_UTF32BE then 4 else 3)"

lemma code_bytes_length:
  assumes "to \<le> CODE_UTF32BE"
  shows "length (code_bytes to c) \<le> 4" "unat c < 65536 \<Longrightarrow> length (code_bytes to c) \<le> per_code to"
proof -
  have p: "length (put16 u big) = 2" for u big by (simp add: put16_def)
  consider "to = CODE_UTF8" | "to = CODE_UTF8_BOM" | "to = CODE_UTF16LE" | "to = CODE_UTF16BE" | "to = CODE_UTF32LE" | "to = CODE_UTF32BE"
    using assms by linarith
  then show "length (code_bytes to c) \<le> 4" "unat c < 65536 \<Longrightarrow> length (code_bytes to c) \<le> per_code to"
    by (cases; simp add: code_bytes_def Let_def p per_code_def word_less_nat_alt)+
qed

lemma units_1 [simp]: "units 1 m = m" "units (Suc 0) m = m"
  by (simp_all add: units_def)

lemma units_step:
  assumes "0 < k" "k \<le> m"
  shows "units k (m - k) + 1 = units k m"
  using assms by (simp add: units_def le_div_geq le_mod_geq)

lemma units_0 [simp]: "units k 0 = 0"
  by (simp add: units_def)

lemma units_pos: "0 < k \<Longrightarrow> 0 < m \<Longrightarrow> 1 \<le> units k m"
  by (cases "m < k") (auto simp: units_def le_div_geq)

lemma per_unit_le: "per_code to \<le> per_unit unit to" "unit = 4 \<Longrightarrow> 4 \<le> per_unit unit to" "2 \<le> per_unit unit to"
  by (simp_all add: per_unit_def per_code_def Let_def)

lemma next_code_status: "next_code enc s n i = (r, i', c) \<Longrightarrow> r \<in> {CONDE_OK, CONDE_DATA, CONDE_INPUT_EOF}"
proof -
  have "utf8_rest need lo hi s n p cp = (r, i', c) \<Longrightarrow> r \<in> {CONDE_OK, CONDE_DATA, CONDE_INPUT_EOF}" for need lo hi p cp
    by (induction need lo hi s n p cp rule: utf8_rest.induct)
       (auto simp: utf8_rest.simps(2) Let_def split: if_splits)
  then have "next_utf8 s n i = (r, i', c) \<Longrightarrow> r \<in> {CONDE_OK, CONDE_DATA, CONDE_INPUT_EOF}"
    unfolding next_utf8_def Let_def by (force split: if_splits)
  then show "next_code enc s n i = (r, i', c) \<Longrightarrow> r \<in> {CONDE_OK, CONDE_DATA, CONDE_INPUT_EOF}"
    unfolding next_code_def next_utf16_def next_utf32_def Let_def by (force split: if_splits)
qed

text \<open>Each read uses up at least as many units as its output needs.\<close>

lemma wide_step:
  assumes "i < n" "enc = (if big then CODE_UTF16BE else CODE_UTF16LE)" "next_utf16 s n i big = (r, i', c)"
  shows "i' = i + 2 \<and> 2 \<le> n - i \<and> (r = CONDE_OK \<longrightarrow> unat c < 65536) \<or> i' = i + 4 \<and> 4 \<le> n - i \<or> i' = n \<and> r \<noteq> CONDE_OK"
  using assms unit16_less [of s i big] by (auto simp: next_utf16_def Let_def split: if_splits)

lemma units_used:
  assumes "next_code from_enc s n i = (r, i', c)" "i < n" "from_enc \<noteq> CODE_UTF8_BOM" "from_enc \<le> CODE_UTF32BE" "to \<le> CODE_UTF32BE"
  defines "u \<equiv> unit_of from_enc" and "cp \<equiv> (if r \<noteq> CONDE_OK then REPLACEMENT else c)"
  shows "length (code_bytes to cp) + per_unit u to * units u (n - i') \<le> per_unit u to * units u (n - i)"
proof -
  have rep: "unat REPLACEMENT < 65536" by simp
  have adv: "i < i' \<and> i' \<le> n" by (rule next_code_position [OF assms(1,2)])
  have enough: "length (code_bytes to cp) + per_unit u to * units u (n - i') \<le> per_unit u to * units u (n - i)"
    if "length (code_bytes to cp) \<le> per_unit u to * k" "units u (n - i') + k \<le> units u (n - i)" for k
  proof -
    have "per_unit u to * (units u (n - i') + k) \<le> per_unit u to * units u (n - i)" using that(2) by (rule mult_le_mono2)
    then show ?thesis using that(1) by (simp add: distrib_left)
  qed
  have short: "length (code_bytes to cp) \<le> per_unit u to * 1" if "r = CONDE_OK \<longrightarrow> unat c < 65536"
  proof -
    have "unat cp < 65536" using that rep by (simp add: cp_def)
    then show ?thesis using code_bytes_length(2) [OF assms(5), of cp] per_unit_le(1) [of to u] by linarith
  qed
  consider "from_enc = CODE_UTF8" | "from_enc = CODE_UTF16LE \<or> from_enc = CODE_UTF16BE" | "from_enc = CODE_UTF32LE \<or> from_enc = CODE_UTF32BE"
    using assms(3,4) by linarith
  then show ?thesis
  proof cases
    case 1
    then have u: "u = 1" by (simp add: u_def unit_of_def)
    show ?thesis
    proof (cases "r = CONDE_OK \<longrightarrow> unat c < 65536")
      case True
      show ?thesis by (rule enough [OF short [OF True]]) (use adv in \<open>simp only: u units_1; linarith\<close>)
    next
      case False
      then have "next_utf8 s n i = (CONDE_OK, i', c)" using assms(1) 1 by (simp add: next_code_def)
      then have "i' = i + 4" using False next_utf8_iff [OF assms(2)] by (auto simp: utf8_at_def utf8_def)
      moreover have "length (code_bytes to cp) \<le> per_unit u to * 4"
        using code_bytes_length(1) [OF assms(5), of cp] per_unit_le(3) [of u to] by linarith
      ultimately show ?thesis by (intro enough [where k = 4]) (use adv in \<open>simp_all only: u units_1\<close>, linarith)
    qed
  next
    case 2
    then have u: "u = 2" by (auto simp: u_def unit_of_def)
    obtain big where "next_utf16 s n i big = (r, i', c)" "from_enc = (if big then CODE_UTF16BE else CODE_UTF16LE)"
      using assms(1) 2 by (cases "from_enc = CODE_UTF16BE") (simp_all add: next_code_def)
    from wide_step [OF assms(2) this(2,1)]
    consider "i' = i + 2" "2 \<le> n - i" "r = CONDE_OK \<longrightarrow> unat c < 65536" | "i' = i + 4" "4 \<le> n - i" | "i' = n" "r \<noteq> CONDE_OK" by blast
    then show ?thesis
    proof cases
      case 1
      show ?thesis by (rule enough [OF short [OF 1(3)]]) (use 1(1,2) units_step [of 2 "n - i"] in \<open>simp add: u\<close>)
    next
      case 2
      have "length (code_bytes to cp) \<le> per_unit u to * 2"
        using code_bytes_length(1) [OF assms(5), of cp] per_unit_le(3) [of u to] by linarith
      moreover have "units 2 (n - i - 2) + 1 = units 2 (n - i)" "units 2 (n - i - 2 - 2) + 1 = units 2 (n - i - 2)"
        using 2 by (intro units_step; simp)+
      moreover have "n - i - 2 - 2 = n - i'" using 2 by simp
      ultimately have "units u (n - i') + 2 \<le> units u (n - i)" "length (code_bytes to cp) \<le> per_unit u to * 2"
        unfolding u by simp_all
      then show ?thesis by (intro enough)
    next
      case 3
      show ?thesis by (rule enough [OF short]) (use 3 units_pos [of 2 "n - i"] assms(2) in \<open>simp_all add: u\<close>)
    qed
  next
    case 3
    then have u: "u = 4" by (auto simp: u_def unit_of_def)
    obtain big where "next_utf32 s n i big = (r, i', c)"
      using assms(1) 3 by (cases "from_enc = CODE_UTF32BE") (simp_all add: next_code_def)
    then have "i' = i + 4 \<and> 4 \<le> n - i \<or> i' = n" by (auto simp: next_utf32_def Let_def split: if_splits)
    then have "units 4 (n - i') + 1 \<le> units 4 (n - i)"
      using units_step [of 4 "n - i"] units_pos [of 4 "n - i"] assms(2) by auto
    moreover have "length (code_bytes to cp) \<le> per_unit u to * 1"
      using code_bytes_length(1) [OF assms(5), of cp] per_unit_le(2) [OF u, of to] by linarith
    ultimately show ?thesis by (intro enough [where k = 1]) (simp_all add: u)
  qed
qed

lemma convert_loop_room:
  assumes "from_enc \<noteq> CODE_UTF8_BOM" "from_enc \<le> CODE_UTF32BE" "to \<le> CODE_UTF32BE"
    "length out + per_unit (unit_of from_enc) to * units (unit_of from_enc) (n - i) \<le> cap"
  shows "status (convert_loop cap src n from_enc to flags i first out) \<noteq> CONDE_OUTPUT_EOF"
  using assms(4)
proof (induction "n - i" arbitrary: i first out rule: less_induct)
  case less
  show ?case
  proof (cases "i < n")
    case False
    then show ?thesis by (subst convert_loop.simps) simp
  next
    case True
    obtain r i' c where nx: "next_code from_enc src n i = (r, i', c)" by (cases "next_code from_enc src n i") blast
    let ?cp = "if r \<noteq> CONDE_OK then REPLACEMENT else c"
    note room = units_used [OF nx True assms(1-3)]
    have less': "n - i' < n - i" using next_code_position [OF nx True] True by linarith
    have st: "r \<noteq> CONDE_OUTPUT_EOF" using next_code_status [OF nx] by auto
    have fits: "\<not> cap - length out < length (code_bytes to ?cp)" using room less.prems by linarith
    have skip: "status (convert_loop cap src n from_enc to flags i' False out) \<noteq> CONDE_OUTPUT_EOF"
      by (rule less.hyps [OF less']) (use room less.prems in linarith)
    have go: "status (convert_loop cap src n from_enc to flags i' False (out @ code_bytes to ?cp)) \<noteq> CONDE_OUTPUT_EOF"
      by (rule less.hyps [OF less']) (use room less.prems in simp)
    have "convert_loop cap src n from_enc to flags i first out =
        (if r \<noteq> CONDE_OK \<and> flags AND CODE_REPLACE = 0 then conde_fail r out
         else if first \<and> ?cp = BOM \<and> r = CONDE_OK \<and> flags AND CODE_STRIP_BOM \<noteq> 0
         then convert_loop cap src n from_enc to flags i' False out
         else convert_loop cap src n from_enc to flags i' False (out @ code_bytes to ?cp))"
      using True fits by (subst convert_loop.simps) (simp only: nx prod.case put_def Let_def not_le [symmetric] if_False simp_thms)
    then show ?thesis using st skip go by (simp only: conde_result_simps split: if_split) blast
  qed
qed

text \<open>C22: \<open>cpt_code_bound\<close> is enough for every input, well formed or not, and all flags: a conversion with that
  capacity never reports a full buffer.\<close>

theorem code_bound_suffices:
  assumes "cpt_code_bound n from_enc to < 0xFFFFFFFF" "cpt_code_bound n from_enc to \<le> cap"
  shows "status (convert dst_null (Some cap) src n from_enc to flags) \<noteq> CONDE_OUTPUT_EOF"
proof -
  let ?from = "if from_enc = CODE_UTF8_BOM then CODE_UTF8 else from_enc"
  have enc: "to \<le> CODE_UTF32BE" "from_enc \<le> CODE_UTF32BE" using assms(1) by (auto simp: cpt_code_bound_def split: if_splits)
  have u: "unit_of from_enc = unit_of ?from" by (simp add: unit_of_def)
  have b: "per_unit (unit_of ?from) to * units (unit_of ?from) n + per_code to \<le> cap"
  proof -
    define k m where "k = units (unit_of ?from) n" and "m = per_unit (unit_of ?from) to"
    have "cpt_code_bound n from_enc to = (let total = (if 0xFFFFFFFF div m < k then 0xFFFFFFFF else k * m) + per_code to
        in if 0xFFFFFFFF \<le> total then 0xFFFFFFFF else total)"
      using enc by (simp only: cpt_code_bound_def bound_for_def Let_def u k_def [symmetric] m_def [symmetric] per_code_def
          not_less [symmetric] simp_thms if_False)
    then have "k * m + per_code to \<le> cap" using assms by (simp add: Let_def split: if_splits)
    then show ?thesis unfolding k_def [symmetric] m_def [symmetric] by (simp only: mult.commute)
  qed
  have mono: "units (unit_of ?from) (n - i) \<le> units (unit_of ?from) n" if "i \<noteq> 0 \<Longrightarrow> from_enc = CODE_UTF8_BOM" for i
    using that by (cases "i = 0") (simp_all add: unit_of_def)
  have room: "status (convert_loop cap s n ?from to flags i first out) \<noteq> CONDE_OUTPUT_EOF"
    if "length out \<le> per_code to" "i \<noteq> 0 \<Longrightarrow> from_enc = CODE_UTF8_BOM" for s i first out
  proof (rule convert_loop_room)
    have "per_unit (unit_of ?from) to * units (unit_of ?from) (n - i) \<le> per_unit (unit_of ?from) to * units (unit_of ?from) n"
      using mono [OF that(2)] by (rule mult_le_mono2)
    then show "length out + per_unit (unit_of ?from) to * units (unit_of ?from) (n - i) \<le> cap" using b that(1) by linarith
  qed (use enc in simp_all)
  have bom: "length (code_bytes to BOM) \<le> per_code to" by (rule code_bytes_length(2) [OF enc(1)]) simp
  then have "\<not> cap < length (code_bytes to BOM)" using b by linarith
  then have pb: "put cap to BOM [] = (CONDE_OK, code_bytes to BOM)" by (simp add: put_def)
  show ?thesis
    unfolding convert_def option.case Let_def pb prod.case
    using room bom by (auto split: if_splits)
qed

theorem code_bound_suffices_witness:
  "cpt_code_bound 5 CODE_UTF8 CODE_UTF16LE = 12 \<and>
   status (convert False (Some 12) (Some [0xFF, 0xFE, 0xC0, 0x80, 0x41]) 5 CODE_UTF8 CODE_UTF16LE (CODE_REPLACE OR CODE_ADD_BOM))
     \<noteq> CONDE_OUTPUT_EOF"
proof -
  have "cpt_code_bound 5 CODE_UTF8 CODE_UTF16LE = 12"
    by (simp add: cpt_code_bound_def bound_for_def units_def per_unit_def unit_of_def Let_def)
  moreover have "status (convert False (Some 12) (Some [0xFF, 0xFE, 0xC0, 0x80, 0x41]) 5 CODE_UTF8 CODE_UTF16LE (CODE_REPLACE OR CODE_ADD_BOM))
     \<noteq> CONDE_OUTPUT_EOF"
    by (rule code_bound_suffices; subst calculation) simp_all
  ultimately show ?thesis by blast
qed

end
