(* ===== verification/Name.thy ===== *)
theory Name
  imports Casefold
begin

text \<open>
  File names (\<open>foundation/lib/fnd/name.c\<close> and \<open>name_api.c\<close>): decoding, case folding, comparison, hash,
  checks and pattern matching. A C string is the list of its bytes without the final NUL.
\<close>

abbreviation FND_END :: int where "FND_END \<equiv> 1"
abbreviation FND_E_BAD_PATH :: int where "FND_E_BAD_PATH \<equiv> - 67"
abbreviation FND_E_NAME_TOO_LONG :: int where "FND_E_NAME_TOO_LONG \<equiv> - 68"

section \<open>Decoding\<close>

text \<open>The loop over the continuation bytes; \<open>None\<close> is the early return.\<close>

fun utf8_tail :: "u8 list \<Rightarrow> nat \<Rightarrow> nat \<Rightarrow> u32 \<Rightarrow> u32 option" where
  "utf8_tail s p 0 c = Some c"
| "utf8_tail s p (Suc need) c =
     (let b = ucast (s ! p) :: u32 in
      if b AND 0xC0 \<noteq> 0x80 then None else utf8_tail s (p + 1) need (push_bit 6 c OR (b AND 0x3F)))"

text \<open>The status, the position after the call and the code point (when the status is \<open>FND_OK\<close>).\<close>

definition fnd_utf8_next :: "u8 list \<Rightarrow> nat \<Rightarrow> nat \<Rightarrow> int \<times> nat \<times> u32" where
  "fnd_utf8_next s n i =
     (if n \<le> i then (FND_END, i, 0)
      else let c = ucast (s ! i) :: u32 in
        if c < 0x80 then (FND_OK, i + 1, c)
        else case (if c AND 0xE0 = 0xC0 then Some (1, 0x80, c AND 0x1F)
                   else if c AND 0xF0 = 0xE0 then Some (2, 0x800, c AND 0x0F)
                   else if c AND 0xF8 = 0xF0 then Some (3, 0x10000, c AND 0x07)
                   else None) of
            None \<Rightarrow> (FND_E_BAD_PATH, i, 0)
          | Some (need, low, c) \<Rightarrow>
              if n - i - 1 < need then (FND_E_BAD_PATH, i, 0)
              else (case utf8_tail s (i + 1) need c of
                  None \<Rightarrow> (FND_E_BAD_PATH, i, 0)
                | Some c \<Rightarrow>
                    if c < low \<or> 0x10FFFF < c \<or> (0xD800 \<le> c \<and> c \<le> 0xDFFF) then (FND_E_BAD_PATH, i, 0)
                    else (FND_OK, i + 1 + need, c)))"

lemma fnd_utf8_next_advances: "fnd_utf8_next s n i = (FND_OK, i', c) \<Longrightarrow> i < i' \<and> i < n \<and> i' \<le> n"
  by (auto simp: fnd_utf8_next_def Let_def split: if_splits option.splits)

section \<open>Case folding\<close>

function cf_search :: "u32 \<Rightarrow> nat \<Rightarrow> nat \<Rightarrow> nat option" where
  "cf_search cp lo hi =
     (if lo < hi then
        let m = (lo + hi) div 2; fr = fnd_cf_from ! m in
        if fr = cp then Some m
        else if fr < cp then cf_search cp (m + 1) hi
        else cf_search cp lo m
      else None)"
  by pat_completeness auto
termination by (relation "measure (\<lambda>(_, lo, hi). hi - lo)") auto

declare cf_search.simps [simp del]

definition ascii_fold :: "u32 \<Rightarrow> u32" where
  "ascii_fold c = (if 0x41 \<le> c \<and> c \<le> 0x5A then c + 0x20 else c)"

definition fnd_casefold :: "u32 \<Rightarrow> u32 list" where
  "fnd_casefold cp =
     (if cp < 0x80 then [ascii_fold cp]
      else (case cf_search cp 0 (length fnd_cf_from) of
          None \<Rightarrow> [cp]
        | Some m \<Rightarrow>
            let to = fnd_cf_to ! m in
            if to AND 0x80000000 = 0 then [to]
            else takeWhile (\<lambda>w. w \<noteq> 0) (map (\<lambda>k. fnd_cf_multi ! (unat (to AND 0xFFFF) * 3 + k)) [0..<3])))"

record fold_iter =
  it_s :: "u8 list"
  it_pos :: nat
  it_buf :: "u32 list"
  it_n :: nat
  it_i :: nat

definition fnd_fold_init :: "u8 list \<Rightarrow> fold_iter" where
  "fnd_fold_init s = \<lparr>it_s = s, it_pos = 0, it_buf = [0, 0, 0], it_n = 0, it_i = 0\<rparr>"

definition take_buf :: "fold_iter \<Rightarrow> u32 \<times> fold_iter" where
  "take_buf it = (it_buf it ! it_i it, it\<lparr>it_i := it_i it + 1\<rparr>)"

definition fnd_fold_next :: "fold_iter \<Rightarrow> (u32 \<times> fold_iter) option" where
  "fnd_fold_next it =
     (if it_i it = it_n it then
        if it_pos it < length (it_s it) \<and> it_s it ! it_pos it < 0x80 then
          Some (ascii_fold (ucast (it_s it ! it_pos it)), it\<lparr>it_pos := it_pos it + 1\<rparr>)
        else (case fnd_utf8_next (it_s it) (length (it_s it)) (it_pos it) of (st, pos, c) \<Rightarrow>
          if st \<noteq> FND_OK then None
          else let out = fnd_casefold c in
            Some (take_buf (it\<lparr>it_pos := pos, it_buf := out @ drop (length out) (it_buf it), it_n := length out, it_i := 0\<rparr>)))
      else Some (take_buf it))"

partial_function (option) key_equal_loop :: "fold_iter \<Rightarrow> fold_iter \<Rightarrow> bool option" where
  "key_equal_loop x y =
     (case (fnd_fold_next x, fnd_fold_next y) of
        (None, None) \<Rightarrow> Some True
      | (Some (ca, x), Some (cb, y)) \<Rightarrow> if ca \<noteq> cb then Some False else key_equal_loop x y
      | _ \<Rightarrow> Some False)"

definition fnd_name_key_equal :: "u8 list \<Rightarrow> u8 list \<Rightarrow> bool option" where
  "fnd_name_key_equal a b = key_equal_loop (fnd_fold_init a) (fnd_fold_init b)"

partial_function (option) key_hash_loop :: "fold_iter \<Rightarrow> u32 \<Rightarrow> u32 option" where
  "key_hash_loop it h =
     (case fnd_fold_next it of
        None \<Rightarrow> Some h
      | Some (c, it) \<Rightarrow> key_hash_loop it ((h XOR c) * 16777619))"

definition fnd_name_key_hash :: "u8 list \<Rightarrow> u32 option" where
  "fnd_name_key_hash s = key_hash_loop (fnd_fold_init s) 2166136261"

section \<open>Checking a name\<close>

text \<open>The loop of \<open>fnd_name_check\<close>: the number of scalars when it gets to the end.\<close>

function check_loop :: "u8 list \<Rightarrow> nat \<Rightarrow> nat \<Rightarrow> nat option" where
  "check_loop s pos n =
     (case fnd_utf8_next s (length s) pos of (st, pos', c) \<Rightarrow>
        if st = FND_OK then
          if c = 0x2F \<or> c < 0x20 \<or> (0x7F \<le> c \<and> c \<le> 0x9F) then None else check_loop s pos' (n + 1)
        else if st \<noteq> FND_END then None else Some n)"
  by pat_completeness auto
termination
  by (relation "measure (\<lambda>(s, pos, _). length s - pos)") (auto dest!: fnd_utf8_next_advances [OF sym])

declare check_loop.simps [simp del]

definition fnd_name_check :: "u8 list \<Rightarrow> int \<times> nat" where
  "fnd_name_check s =
     (if s = [] then (FND_E_BAD_PATH, 0)
      else (case check_loop s 0 0 of
          None \<Rightarrow> (FND_E_BAD_PATH, 0)
        | Some n \<Rightarrow>
            if s = [0x2E] \<or> s = [0x2E, 0x2E] then (FND_E_BAD_PATH, 0)
            else if 256 < n \<or> 1024 < length s then (FND_E_NAME_TOO_LONG, 0)
            else (FND_OK, n)))"

section \<open>The functions of libfnd\<close>

definition utf8_put :: "u32 \<Rightarrow> u8 list" where
  "utf8_put c =
     (if c < 0x80 then [ucast c]
      else if c < 0x800 then [ucast (0xC0 OR drop_bit 6 c), ucast (0x80 OR (c AND 0x3F))]
      else if c < 0x10000 then
        [ucast (0xE0 OR drop_bit 12 c), ucast (0x80 OR (drop_bit 6 c AND 0x3F)), ucast (0x80 OR (c AND 0x3F))]
      else [ucast (0xF0 OR drop_bit 18 c), ucast (0x80 OR (drop_bit 12 c AND 0x3F)),
            ucast (0x80 OR (drop_bit 6 c AND 0x3F)), ucast (0x80 OR (c AND 0x3F))])"

text \<open>The loops of \<open>fnd_name_equal\<close> that only check a string.\<close>

function valid_loop :: "u8 list \<Rightarrow> nat \<Rightarrow> bool" where
  "valid_loop s pos =
     (case fnd_utf8_next s (length s) pos of (st, pos', c) \<Rightarrow>
        if st = FND_OK then valid_loop s pos' else st = FND_END)"
  by pat_completeness auto
termination
  by (relation "measure (\<lambda>(s, pos). length s - pos)") (auto dest!: fnd_utf8_next_advances [OF sym])

declare valid_loop.simps [simp del]

text \<open>The measuring loop of \<open>fnd_name_fold\<close>.\<close>

function measure_loop :: "u8 list \<Rightarrow> nat \<Rightarrow> nat \<Rightarrow> nat option" where
  "measure_loop s pos need =
     (case fnd_utf8_next s (length s) pos of (st, pos', c) \<Rightarrow>
        if st = FND_OK then
          measure_loop s pos' (need + sum_list (map (\<lambda>f. length (utf8_put f)) (fnd_casefold c)))
        else if st \<noteq> FND_END then None else Some need)"
  by pat_completeness auto
termination
  by (relation "measure (\<lambda>(s, pos, _). length s - pos)") (auto dest!: fnd_utf8_next_advances [OF sym])

declare measure_loop.simps [simp del]

partial_function (option) write_loop :: "fold_iter \<Rightarrow> u8 list \<Rightarrow> u8 list option" where
  "write_loop it out =
     (case fnd_fold_next it of
        None \<Rightarrow> Some out
      | Some (c, it) \<Rightarrow> write_loop it (out @ utf8_put c))"

text \<open>The status, the bytes written before the NUL and \<open>*len\<close>.\<close>

definition fnd_name_fold :: "u8 list \<Rightarrow> nat \<Rightarrow> (int \<times> u8 list option \<times> nat option) option" where
  "fnd_name_fold name cap =
     (case measure_loop name 0 0 of
        None \<Rightarrow> Some (FND_E_BAD_PATH, None, None)
      | Some need \<Rightarrow>
          if cap < need + 1 then Some (FND_E_LIMIT, None, Some (need + 1))
          else map_option (\<lambda>out. (FND_OK, Some out, Some (length out))) (write_loop (fnd_fold_init name) []))"

definition fnd_name_equal :: "u8 list \<Rightarrow> u8 list \<Rightarrow> bool option" where
  "fnd_name_equal a b =
     (if \<not> valid_loop a 0 then Some False
      else if \<not> valid_loop b 0 then Some False
      else fnd_name_key_equal a b)"

abbreviation QUERY :: u32 where "QUERY \<equiv> 0x3F"
abbreviation STAR :: u32 where "STAR \<equiv> 0x2A"
abbreviation MATCH_MAX :: nat where "MATCH_MAX \<equiv> 1024"

function fold_all_loop :: "u8 list \<Rightarrow> nat \<Rightarrow> u32 list \<Rightarrow> u32 list option" where
  "fold_all_loop s pos out =
     (case fnd_utf8_next s (length s) pos of (st, pos', c) \<Rightarrow>
        if st = FND_OK then
          let f = fnd_casefold c in
          if MATCH_MAX < length out + length f then None else fold_all_loop s pos' (out @ f)
        else if st = FND_END then Some out else None)"
  by pat_completeness auto
termination
  by (relation "measure (\<lambda>(s, pos, _). length s - pos)") (auto dest!: fnd_utf8_next_advances [OF sym])

declare fold_all_loop.simps [simp del]

definition fold_all :: "u8 list \<Rightarrow> u32 list option" where
  "fold_all s = fold_all_loop s 0 []"

text \<open>The greedy match: \<open>star\<close> is the position of the last \<open>*\<close>, \<open>mark\<close> the one it was last tried at.\<close>

partial_function (option) match_loop ::
  "u32 list \<Rightarrow> u32 list \<Rightarrow> nat \<Rightarrow> nat \<Rightarrow> nat option \<Rightarrow> nat \<Rightarrow> bool option" where
  "match_loop p s i j star mark =
     (if j < length s then
        if i < length p \<and> (p ! i = QUERY \<or> p ! i = s ! j) \<and> p ! i \<noteq> STAR then match_loop p s (i + 1) (j + 1) star mark
        else if i < length p \<and> p ! i = STAR then match_loop p s (i + 1) j (Some i) j
        else (case star of
            Some k \<Rightarrow> match_loop p s (k + 1) (mark + 1) star (mark + 1)
          | None \<Rightarrow> Some False)
      else Some (i + length (takeWhile (\<lambda>c. c = STAR) (drop i p)) = length p))"

definition fnd_name_match :: "u8 list \<Rightarrow> u8 list \<Rightarrow> bool option" where
  "fnd_name_match pattern name =
     (case fold_all pattern of None \<Rightarrow> Some False
      | Some p \<Rightarrow> (case fold_all name of None \<Rightarrow> Some False
        | Some s \<Rightarrow> match_loop p s 0 0 None 0))"

end
