(* ===== verification/Name_Utf8.thy ===== *)
theory Name_Utf8
  imports Name Code_Facts
begin

text \<open>The decoder of names accepts what the converter accepts.\<close>

lemma masks_table:
  "list_all (\<lambda>h. (push_bit 3 (word_of_nat h AND 28 :: u32) = 0xC0 \<longleftrightarrow> 24 \<le> h \<and> h \<le> 27) \<and>
     (push_bit 3 (word_of_nat h AND 30 :: u32) = 0xE0 \<longleftrightarrow> 28 \<le> h \<and> h \<le> 29) \<and>
     (push_bit 3 (word_of_nat h AND 31 :: u32) = 0xF0 \<longleftrightarrow> h = 30) \<and>
     (push_bit 3 (word_of_nat h AND 24 :: u32) = 0x80 \<longleftrightarrow> 16 \<le> h \<and> h \<le> 23)) [0..<32]"
  by code_simp

lemma and_high: "x AND push_bit k m = push_bit k (drop_bit k x AND m)" for x m :: u32
  by (rule bit_word_eqI) (auto simp: bit_simps)

lemma lead_bits:
  fixes b :: u8
  shows "(ucast b :: u32) AND 0xE0 = 0xC0 \<longleftrightarrow> 192 \<le> unat b \<and> unat b \<le> 223"
    "(ucast b :: u32) AND 0xF0 = 0xE0 \<longleftrightarrow> 224 \<le> unat b \<and> unat b \<le> 239"
    "(ucast b :: u32) AND 0xF8 = 0xF0 \<longleftrightarrow> 240 \<le> unat b \<and> unat b \<le> 247"
    "(ucast b :: u32) AND 0xC0 = 0x80 \<longleftrightarrow> 128 \<le> unat b \<and> unat b \<le> 191"
proof -
  define h where "h = unat b div 8"
  have h: "h < 32" using unat_byte_less [of b] by (simp add: h_def)
  have "unat (drop_bit 3 (ucast b :: u32)) = h" unfolding unat_right by (simp add: h_def)
  then have d: "drop_bit 3 (ucast b :: u32) = word_of_nat h"
    using h by (simp only: word_unat_eq_iff) (simp add: unat_of_nat take_bit_nat_eq_self)
  have m: "(0xE0 :: u32) = push_bit 3 28" "(0xF0 :: u32) = push_bit 3 30" "(0xF8 :: u32) = push_bit 3 31" "(0xC0 :: u32) = push_bit 3 24"
    by code_simp+
  note t = masks_table [unfolded list_all_iff, rule_format, of h]
  have "(ucast b :: u32) AND 0xE0 = 0xC0 \<longleftrightarrow> 24 \<le> h \<and> h \<le> 27" using t h by (simp only: m(1) and_high d) simp
  then show "(ucast b :: u32) AND 0xE0 = 0xC0 \<longleftrightarrow> 192 \<le> unat b \<and> unat b \<le> 223" unfolding h_def by auto
  have "(ucast b :: u32) AND 0xF0 = 0xE0 \<longleftrightarrow> 28 \<le> h \<and> h \<le> 29" using t h by (simp only: m(2) and_high d) simp
  then show "(ucast b :: u32) AND 0xF0 = 0xE0 \<longleftrightarrow> 224 \<le> unat b \<and> unat b \<le> 239" unfolding h_def by auto
  have "(ucast b :: u32) AND 0xF8 = 0xF0 \<longleftrightarrow> h = 30" using t h by (simp only: m(3) and_high d) simp
  then show "(ucast b :: u32) AND 0xF8 = 0xF0 \<longleftrightarrow> 240 \<le> unat b \<and> unat b \<le> 247" unfolding h_def by auto
  have "(ucast b :: u32) AND 0xC0 = 0x80 \<longleftrightarrow> 16 \<le> h \<and> h \<le> 23" using t h by (simp only: m(4) and_high d) simp
  then show "(ucast b :: u32) AND 0xC0 = 0x80 \<longleftrightarrow> 128 \<le> unat b \<and> unat b \<le> 191" unfolding h_def by auto
qed

lemma tail_step:
  assumes "unat c < 67108864" "128 \<le> unat (s ! p)" "unat (s ! p) \<le> 191" "unat e = unat c * 64 + (unat (s ! p) - 128)"
  shows "utf8_tail s p (Suc need) c = utf8_tail s (Suc p) need e"
proof -
  have "unat (push_bit 6 c OR (ucast (s ! p) AND 0x3F) :: u32) = unat e"
    using unat_shift6 [OF assms(1), of "ucast (s ! p)"] cont_low [of "unat (s ! p)"] assms by simp
  then have "push_bit 6 c OR (ucast (s ! p) AND 0x3F) = e" by (simp only: word_unat_eq_iff)
  then show ?thesis using assms(2,3) lead_bits [of "s ! p"] by (simp add: Let_def)
qed

lemma tail_bad: "\<not> (128 \<le> unat (s ! p) \<and> unat (s ! p) \<le> 191) \<Longrightarrow> utf8_tail s p (Suc need) c = None"
  using lead_bits [of "s ! p"] by (simp add: Let_def)

declare utf8_tail.simps(2) [simp del]

lemma word_with:
  assumes "n < 4294967296"
  obtains c :: u32 where "unat c = n"
  using assms by (intro that [of "word_of_nat n"]) (simp add: unat_of_nat take_bit_nat_eq_self)

lemma tail1:
  assumes "unat c < 67108864"
  shows "utf8_tail s p (Suc 0) c = Some d \<longleftrightarrow>
    128 \<le> unat (s ! p) \<and> unat (s ! p) \<le> 191 \<and> unat d = unat c * 64 + (unat (s ! p) - 128)"
proof (cases "128 \<le> unat (s ! p) \<and> unat (s ! p) \<le> 191")
  case True
  obtain e :: u32 where e: "unat e = unat c * 64 + (unat (s ! p) - 128)" by (rule word_with [of "unat c * 64 + (unat (s ! p) - 128)"]) (use assms True in linarith)
  show ?thesis using True unfolding tail_step [OF assms conjunct1 [OF True] conjunct2 [OF True] e] e [symmetric]
    by (simp add: word_unat_eq_iff eq_commute)
qed (auto simp: tail_bad)

lemma tail2:
  assumes "unat c < 1048575"
  shows "utf8_tail s p (Suc (Suc 0)) c = Some d \<longleftrightarrow>
    128 \<le> unat (s ! p) \<and> unat (s ! p) \<le> 191 \<and> 128 \<le> unat (s ! Suc p) \<and> unat (s ! Suc p) \<le> 191 \<and>
    unat d = (unat c * 64 + (unat (s ! p) - 128)) * 64 + (unat (s ! Suc p) - 128)"
proof (cases "128 \<le> unat (s ! p) \<and> unat (s ! p) \<le> 191")
  case True
  obtain e :: u32 where e: "unat e = unat c * 64 + (unat (s ! p) - 128)" by (rule word_with [of "unat c * 64 + (unat (s ! p) - 128)"]) (use assms True in linarith)
  have "unat e < 67108864" "unat c < 67108864" using assms True e by linarith+
  then show ?thesis using True tail1 [of e s "Suc p" d] tail_step [OF _ conjunct1 [OF True] conjunct2 [OF True] e, of "Suc 0"]
    unfolding e [symmetric] by simp
qed (auto simp: tail_bad)

lemma tail3:
  assumes "unat c < 8"
  shows "utf8_tail s p (Suc (Suc (Suc 0))) c = Some d \<longleftrightarrow>
    128 \<le> unat (s ! p) \<and> unat (s ! p) \<le> 191 \<and> 128 \<le> unat (s ! Suc p) \<and> unat (s ! Suc p) \<le> 191 \<and>
    128 \<le> unat (s ! Suc (Suc p)) \<and> unat (s ! Suc (Suc p)) \<le> 191 \<and>
    unat d = ((unat c * 64 + (unat (s ! p) - 128)) * 64 + (unat (s ! Suc p) - 128)) * 64 + (unat (s ! Suc (Suc p)) - 128)"
proof (cases "128 \<le> unat (s ! p) \<and> unat (s ! p) \<le> 191")
  case True
  obtain e :: u32 where e: "unat e = unat c * 64 + (unat (s ! p) - 128)" by (rule word_with [of "unat c * 64 + (unat (s ! p) - 128)"]) (use assms True in linarith)
  have "unat e < 1048575" "unat c < 67108864" using assms True e by linarith+
  then show ?thesis using True tail2 [of e s "Suc p" d] tail_step [OF _ conjunct1 [OF True] conjunct2 [OF True] e, of "Suc (Suc 0)"]
    unfolding e [symmetric] by simp
qed (auto simp: tail_bad)

text \<open>The reader in numbers: lead byte \<open>x\<close>, the others \<open>y\<close>, \<open>z\<close> and \<open>w\<close>.\<close>

lemma fnd_utf8_numbers:
  fixes s i
  defines "x \<equiv> unat (s ! i)" and "y \<equiv> unat (s ! Suc i)" and "z \<equiv> unat (s ! Suc (Suc i))" and "w \<equiv> unat (s ! Suc (Suc (Suc i)))"
  assumes "i < n"
  shows "fnd_utf8_next s n i = (FND_OK, i', c) \<longleftrightarrow>
    x < 128 \<and> i' = i + 1 \<and> unat c = x \<or>
    192 \<le> x \<and> x \<le> 223 \<and> i + 1 < n \<and> 128 \<le> y \<and> y \<le> 191 \<and> i' = i + 2 \<and> unat c = (x - 192) * 64 + (y - 128) \<and>
      128 \<le> unat c \<or>
    224 \<le> x \<and> x \<le> 239 \<and> i + 2 < n \<and> 128 \<le> y \<and> y \<le> 191 \<and> 128 \<le> z \<and> z \<le> 191 \<and> i' = i + 3 \<and>
      unat c = ((x - 224) * 64 + (y - 128)) * 64 + (z - 128) \<and> 2048 \<le> unat c \<and> \<not> (55296 \<le> unat c \<and> unat c \<le> 57343) \<or>
    240 \<le> x \<and> x \<le> 247 \<and> i + 3 < n \<and> 128 \<le> y \<and> y \<le> 191 \<and> 128 \<le> z \<and> z \<le> 191 \<and> 128 \<le> w \<and> w \<le> 191 \<and> i' = i + 4 \<and>
      unat c = (((x - 240) * 64 + (y - 128)) * 64 + (z - 128)) * 64 + (w - 128) \<and> 65536 \<le> unat c \<and> unat c \<le> 1114111"
proof -
  let ?b = "ucast (s ! i) :: u32"
  have xb: "unat ?b = x" by (simp add: x_def)
  have cmp: "b < k \<longleftrightarrow> unat b < unat k" "k \<le> b \<longleftrightarrow> unat k \<le> unat b" for b k :: u32
    by (simp_all only: word_less_nat_alt word_le_nat_alt)
  have bits: "?b AND 0xE0 = 0xC0 \<longleftrightarrow> 192 \<le> x \<and> x \<le> 223" "?b AND 0xF0 = 0xE0 \<longleftrightarrow> 224 \<le> x \<and> x \<le> 239"
    "?b AND 0xF8 = 0xF0 \<longleftrightarrow> 240 \<le> x \<and> x \<le> 247"
    using lead_bits [of "s ! i"] by (simp_all add: x_def)
  consider "x < 128" | "128 \<le> x" "x < 192" | "192 \<le> x" "x \<le> 223" | "224 \<le> x" "x \<le> 239" | "240 \<le> x" "x \<le> 247" | "248 \<le> x"
    by linarith
  then show ?thesis
  proof cases
    case 1
    then have e: "fnd_utf8_next s n i = (FND_OK, i + 1, ?b)" using assms(5) by (simp add: fnd_utf8_next_def Let_def cmp x_def [symmetric])
    have "?b = c \<longleftrightarrow> unat c = x" using xb by (auto simp: word_unat_eq_iff)
    then show ?thesis using 1 unfolding e by auto
  next
    case 2
    then have e: "fnd_utf8_next s n i = (FND_E_BAD_PATH, i, 0)" using assms(5) by (simp add: fnd_utf8_next_def Let_def cmp bits x_def [symmetric])
    show ?thesis using 2 unfolding e by simp
  next
    case 3
    have "x mod 32 = x - 192" using 3 by (simp add: le_mod_geq)
    then have l: "unat (?b AND 0x1F) = x - 192" by (simp only: unat_5 xb)
    have l': "unat (?b AND 0x1F) < 67108864" using 3 l by simp
    have e: "fnd_utf8_next s n i = (FND_OK, i', c) \<longleftrightarrow> i + 1 < n \<and> utf8_tail s (Suc i) (Suc 0) (?b AND 0x1F) = Some c \<and>
        128 \<le> unat c \<and> unat c \<le> 1114111 \<and> \<not> (55296 \<le> unat c \<and> unat c \<le> 57343) \<and> i' = i + 2"
      unfolding fnd_utf8_next_def Let_def using 3 assms(5)
      by (auto simp: bits cmp x_def [symmetric] not_less not_le split: option.splits)
    show ?thesis unfolding e tail1 [OF l'] l y_def [symmetric] using 3 by auto
  next
    case 4
    have "x mod 16 = x - 224" using 4 by (simp add: le_mod_geq)
    then have l: "unat (?b AND 0x0F) = x - 224" by (simp only: unat_4 xb)
    have l': "unat (?b AND 0x0F) < 1048575" using 4 l by simp
    have e: "fnd_utf8_next s n i = (FND_OK, i', c) \<longleftrightarrow> i + 2 < n \<and> utf8_tail s (Suc i) (Suc (Suc 0)) (?b AND 0x0F) = Some c \<and>
        2048 \<le> unat c \<and> unat c \<le> 1114111 \<and> \<not> (55296 \<le> unat c \<and> unat c \<le> 57343) \<and> i' = i + 3"
      unfolding fnd_utf8_next_def Let_def numeral_2_eq_2 [symmetric] using 4 assms(5)
      by (auto simp: bits cmp x_def [symmetric] not_less not_le split: option.splits)
    show ?thesis unfolding e tail2 [OF l'] l y_def [symmetric] z_def [symmetric] using 4 by auto
  next
    case 5
    have "x mod 8 = x - 240" using 5 by (simp add: le_mod_geq)
    then have l: "unat (?b AND 0x07) = x - 240" by (simp only: unat_3 xb)
    have l': "unat (?b AND 0x07) < 8" using 5 l by simp
    have e: "fnd_utf8_next s n i = (FND_OK, i', c) \<longleftrightarrow> i + 3 < n \<and> utf8_tail s (Suc i) (Suc (Suc (Suc 0))) (?b AND 0x07) = Some c \<and>
        65536 \<le> unat c \<and> unat c \<le> 1114111 \<and> \<not> (55296 \<le> unat c \<and> unat c \<le> 57343) \<and> i' = i + 4"
      unfolding fnd_utf8_next_def Let_def numeral_3_eq_3 [symmetric] using 5 assms(5)
      by (auto simp: bits cmp x_def [symmetric] not_less not_le split: option.splits)
    show ?thesis unfolding e tail3 [OF l'] l y_def [symmetric] z_def [symmetric] w_def [symmetric] using 5 by auto
  next
    case 6
    then have e: "fnd_utf8_next s n i = (FND_E_BAD_PATH, i, 0)" using assms(5) by (simp add: fnd_utf8_next_def Let_def cmp bits x_def [symmetric])
    show ?thesis using 6 unfolding e by simp
  qed
qed

lemma three_bytes:
  fixes x y z c :: nat
  assumes "224 \<le> x" "x \<le> 239" "128 \<le> y" "y \<le> 191" "128 \<le> z" "z \<le> 191" "c = ((x - 224) * 64 + (y - 128)) * 64 + (z - 128)"
  shows "2048 \<le> c \<and> \<not> (55296 \<le> c \<and> c \<le> 57343) \<longleftrightarrow> (if x = 224 then 160 else 128) \<le> y \<and> y \<le> (if x = 237 then 159 else 191)"
proof -
  define a b d where "a = x - 224" and "b = y - 128" and "d = z - 128"
  have e: "x = 224 + a" "y = 128 + b" "c = (a * 64 + b) * 64 + d" "a \<le> 15" "b \<le> 63" "d \<le> 63"
    using assms by (simp_all add: a_def b_def d_def)
  consider "a = 0" | "a = 13" | "0 < a" "a < 13" | "13 < a" by linarith
  then show ?thesis using e(4-6) unfolding e(1-3) by cases auto
qed

lemma four_bytes:
  fixes x y z w c :: nat
  assumes "240 \<le> x" "x \<le> 247" "128 \<le> y" "y \<le> 191" "128 \<le> z" "z \<le> 191" "128 \<le> w" "w \<le> 191"
    "c = (((x - 240) * 64 + (y - 128)) * 64 + (z - 128)) * 64 + (w - 128)"
  shows "65536 \<le> c \<and> c \<le> 1114111 \<longleftrightarrow> x \<le> 244 \<and> (if x = 240 then 144 else 128) \<le> y \<and> y \<le> (if x = 244 then 143 else 191)"
proof -
  define a b d e where "a = x - 240" and "b = y - 128" and "d = z - 128" and "e = w - 128"
  have h: "x = 240 + a" "y = 128 + b" "c = ((a * 64 + b) * 64 + d) * 64 + e" "a \<le> 7" "b \<le> 63" "d \<le> 63" "e \<le> 63"
    using assms by (simp_all add: a_def b_def d_def e_def)
  consider "a = 0" | "a = 4" | "0 < a" "a < 4" | "4 < a" by linarith
  then show ?thesis using h(4-7) unfolding h(1-3) by cases auto
qed

lemma fnd_utf8_next_iff:
  assumes "i < n"
  shows "fnd_utf8_next s n i = (FND_OK, i', c) \<longleftrightarrow> utf8_at s n i i' c"
proof -
  define x y z w where "x = unat (s ! i)" and "y = unat (s ! Suc i)" and "z = unat (s ! Suc (Suc i))"
    and "w = unat (s ! Suc (Suc (Suc i)))"
  have two: "192 \<le> x \<and> x \<le> 223 \<and> i + 1 < n \<and> 128 \<le> y \<and> y \<le> 191 \<and> i' = i + 2 \<and> unat c = (x - 192) * 64 + (y - 128) \<and>
      128 \<le> unat c \<longleftrightarrow>
    194 \<le> x \<and> x \<le> 223 \<and> i + 1 < n \<and> 128 \<le> y \<and> y \<le> 191 \<and> i' = i + 2 \<and> unat c = (x - 192) * 64 + (y - 128)"
    by auto
  have y: "(if x = 224 then 160 else 128) \<le> y \<and> y \<le> (if x = 237 then 159 else 191) \<Longrightarrow> 128 \<le> y \<and> y \<le> 191"
    "(if x = 240 then 144 else 128) \<le> y \<and> y \<le> (if x = 244 then 143 else 191) \<Longrightarrow> 128 \<le> y \<and> y \<le> 191"
    "x \<le> 244 \<Longrightarrow> x \<le> 247"
    by (simp_all split: if_splits)
  have three: "224 \<le> x \<and> x \<le> 239 \<and> i + 2 < n \<and> 128 \<le> y \<and> y \<le> 191 \<and> 128 \<le> z \<and> z \<le> 191 \<and> i' = i + 3 \<and>
      unat c = ((x - 224) * 64 + (y - 128)) * 64 + (z - 128) \<and> 2048 \<le> unat c \<and> \<not> (55296 \<le> unat c \<and> unat c \<le> 57343) \<longleftrightarrow>
    224 \<le> x \<and> x \<le> 239 \<and> i + 2 < n \<and> (if x = 224 then 160 else 128) \<le> y \<and> y \<le> (if x = 237 then 159 else 191) \<and>
      128 \<le> z \<and> z \<le> 191 \<and> i' = i + 3 \<and> unat c = ((x - 224) * 64 + (y - 128)) * 64 + (z - 128)"
    using three_bytes [of x y z "unat c"] y(1) by metis
  have four: "240 \<le> x \<and> x \<le> 247 \<and> i + 3 < n \<and> 128 \<le> y \<and> y \<le> 191 \<and> 128 \<le> z \<and> z \<le> 191 \<and> 128 \<le> w \<and> w \<le> 191 \<and> i' = i + 4 \<and>
      unat c = (((x - 240) * 64 + (y - 128)) * 64 + (z - 128)) * 64 + (w - 128) \<and> 65536 \<le> unat c \<and> unat c \<le> 1114111 \<longleftrightarrow>
    240 \<le> x \<and> x \<le> 244 \<and> i + 3 < n \<and> (if x = 240 then 144 else 128) \<le> y \<and> y \<le> (if x = 244 then 143 else 191) \<and>
      128 \<le> z \<and> z \<le> 191 \<and> 128 \<le> w \<and> w \<le> 191 \<and> i' = i + 4 \<and>
      unat c = (((x - 240) * 64 + (y - 128)) * 64 + (z - 128)) * 64 + (w - 128)"
    using four_bytes [of x y z w "unat c"] y(2,3) by metis
  show ?thesis
    unfolding next_utf8_iff [OF assms, symmetric] next_utf8_numbers fnd_utf8_numbers [OF assms]
      x_def [symmetric] y_def [symmetric] z_def [symmetric] w_def [symmetric] two three four by (rule refl)
qed

end
