(* ===== verification/Name_Match.thy ===== *)
theory Name_Match
  imports Name
begin

text \<open>
  The pattern language of \<open>fnd_name_match\<close> (\<open>foundation/lib/fnd/name_api.c\<close>), and that the greedy search
  which goes back to the last star decides it.
\<close>

fun glob :: "u32 list \<Rightarrow> u32 list \<Rightarrow> bool" where
  "glob [] s \<longleftrightarrow> s = []"
| "glob (x # p) [] \<longleftrightarrow> x = STAR \<and> glob p []"
| "glob (x # p) (c # s) \<longleftrightarrow>
     (if x = STAR then glob p (c # s) \<or> glob (x # p) s else (x = QUERY \<or> x = c) \<and> glob p s)"

lemma glob_star: "glob (STAR # p) s \<longleftrightarrow> (\<exists>m\<le>length s. glob p (drop m s))"
proof (induction s)
  case (Cons c s)
  have "(\<exists>m\<le>length (c # s). glob p (drop m (c # s))) \<longleftrightarrow> glob p (c # s) \<or> (\<exists>m\<le>length s. glob p (drop m s))"
    (is "?l \<longleftrightarrow> ?r")
  proof
    assume ?l
    then obtain m where "m \<le> length (c # s)" "glob p (drop m (c # s))" by blast
    then show ?r by (cases m) auto
  next
    assume ?r
    then show ?l by (metis drop0 drop_Suc_Cons length_Cons not_less_eq_eq zero_le)
  qed
  then show ?case using Cons by simp
qed simp

lemma glob_star_drop: "glob (STAR # p) (drop j s) \<longleftrightarrow> (\<exists>m\<ge>j. m \<le> max j (length s) \<and> glob p (drop m s))"
proof -
  have "(\<exists>m\<le>length s - j. glob p (drop (j + m) s)) \<longleftrightarrow> (\<exists>m\<ge>j. m \<le> max j (length s) \<and> glob p (drop m s))"
    (is "?l \<longleftrightarrow> ?r")
  proof
    assume ?l
    then obtain m where "m \<le> length s - j" "glob p (drop (j + m) s)" by blast
    then show ?r by (intro exI [of _ "j + m"]) auto
  next
    assume ?r
    then obtain m where "j \<le> m" "m \<le> max j (length s)" "glob p (drop m s)" by blast
    then show ?l by (intro exI [of _ "m - j"]) auto
  qed
  then show ?thesis by (simp add: glob_star add.commute)
qed

text \<open>A part without stars takes one scalar each.\<close>

lemma glob_plain: "STAR \<notin> set q \<Longrightarrow> glob (q @ p) s \<Longrightarrow> length q \<le> length s \<and> glob p (drop (length q) s)"
proof (induction q arbitrary: s)
  case (Cons x q)
  then show ?case by (cases s) auto
qed simp

lemma glob_stars: "glob p [] \<longleftrightarrow> list_all (\<lambda>c. c = STAR) p"
  by (induction p) auto

lemma all_stars: "length (takeWhile P xs) = length xs \<longleftrightarrow> list_all P xs"
  by (induction xs) auto

text \<open>Since the last star at \<open>k\<close>, tried at \<open>mark\<close>, plain scalars have matched up to \<open>i\<close> and \<open>j\<close>.\<close>

definition since :: "u32 list \<Rightarrow> nat \<Rightarrow> nat \<Rightarrow> nat option \<Rightarrow> nat \<Rightarrow> bool" where
  "since p i j star mark \<longleftrightarrow> (case star of None \<Rightarrow> True
     | Some k \<Rightarrow> mark \<le> j \<and> i = Suc k + (j - mark) \<and> STAR \<notin> set (take (j - mark) (drop (Suc k) p)))"

definition later :: "u32 list \<Rightarrow> u32 list \<Rightarrow> nat option \<Rightarrow> nat \<Rightarrow> bool" where
  "later p s star mark \<longleftrightarrow> (case star of None \<Rightarrow> False
     | Some k \<Rightarrow> \<exists>m>mark. m \<le> length s \<and> glob (drop (Suc k) p) (drop m s))"

lemma since_split:
  assumes "since p i j (Some k) mark" "i \<le> length p"
  obtains q where "drop (Suc k) p = q @ drop i p" "STAR \<notin> set q" "length q = j - mark" "mark \<le> j" "i = Suc k + (j - mark)"
proof
  show "drop (Suc k) p = take (j - mark) (drop (Suc k) p) @ drop i p"
    using append_take_drop_id [of "j - mark" "drop (Suc k) p"] assms(1) by (simp add: since_def add.commute)
qed (use assms in \<open>simp_all add: since_def\<close>)

lemma later_match:
  assumes "since p i j (Some k) mark" "i \<le> length p" "mark < m" "m \<le> length s" "glob (drop (Suc k) p) (drop m s)"
  obtains m' where "j < m'" "m' \<le> length s" "glob (drop i p) (drop m' s)"
proof -
  obtain q where q: "drop (Suc k) p = q @ drop i p" "STAR \<notin> set q" "length q = j - mark" "mark \<le> j"
    by (rule since_split [OF assms(1,2)])
  have "length q \<le> length s - m \<and> glob (drop i p) (drop (m + length q) s)"
    using glob_plain [OF q(2), of "drop i p" "drop m s"] assms(5) by (simp add: q(1) add.commute)
  then show thesis using assms(3,4) q(3,4) by (intro that [of "m + length q"]) auto
qed

theorem match_loop_glob:
  assumes "i \<le> length p" "j \<le> length s" "since p i j star mark"
  shows "match_loop p s i j star mark = Some (glob (drop i p) (drop j s) \<or> later p s star mark)"
  using assms
proof (induction "(case star of None \<Rightarrow> Suc (length p) | Some k \<Rightarrow> length p - k, length s - mark, length s - j)"
    arbitrary: i j star mark rule: wf_induct_rule [OF wf_measures [of "[fst, fst \<circ> snd, snd \<circ> snd]"]])
  case 1
  note IH = "1.hyps" and i = "1.prems"(1) and j = "1.prems"(2) and since = "1.prems"(3)
  show ?case
  proof (cases "j < length s")
    case False
    then have e: "j = length s" using j by simp
    have "\<not> later p s star mark"
    proof
      assume "later p s star mark"
      then obtain k m where k: "star = Some k" "mark < m" "m \<le> length s" "glob (drop (Suc k) p) (drop m s)"
        by (auto simp: later_def split: option.splits)
      show False using later_match [OF since [unfolded k(1)] i k(2-4)] e by simp
    qed
    then show ?thesis using e i all_stars [of "\<lambda>c. c = STAR" "drop i p"]
      by (subst match_loop.simps) (auto simp: glob_stars)
  next
    case True
    have sj: "drop j s = s ! j # drop (Suc j) s" using True by (rule Cons_nth_drop_Suc [symmetric])
    consider (plain) "i < length p" "p ! i = QUERY \<or> p ! i = s ! j" "p ! i \<noteq> STAR"
      | (star) "i < length p" "p ! i = STAR"
      | (miss) "i = length p \<or> i < length p \<and> p ! i \<noteq> STAR \<and> \<not> (p ! i = QUERY \<or> p ! i = s ! j)"
      using i by fastforce
    then show ?thesis
    proof cases
      case plain
      have pi: "drop i p = p ! i # drop (Suc i) p" using plain(1) by (rule Cons_nth_drop_Suc [symmetric])
      have s': "since p (Suc i) (Suc j) star mark"
        using since plain by (auto simp: since_def Suc_diff_le take_Suc_conv_app_nth split: option.splits)
      have "match_loop p s (Suc i) (Suc j) star mark = Some (glob (drop (Suc i) p) (drop (Suc j) s) \<or> later p s star mark)"
        by (rule IH) (use plain True s' in auto)
      then show ?thesis using True plain by (subst match_loop.simps) (auto simp: pi sj)
    next
      case star
      have pi: "drop i p = STAR # drop (Suc i) p" using Cons_nth_drop_Suc [OF star(1)] star(2) by simp
      have "match_loop p s (Suc i) j (Some i) j = Some (glob (drop (Suc i) p) (drop j s) \<or> later p s (Some i) j)"
        by (rule IH) (use star True since in \<open>auto simp: since_def split: option.splits\<close>)
      moreover have "glob (drop (Suc i) p) (drop j s) \<or> later p s (Some i) j \<longleftrightarrow> glob (drop i p) (drop j s)"
        using True unfolding pi glob_star_drop later_def by (auto simp: le_less)
      moreover have "glob (drop i p) (drop j s)" if l: "later p s star mark"
      proof -
        obtain k m where k: "star = Some k" "mark < m" "m \<le> length s" "glob (drop (Suc k) p) (drop m s)"
          using l by (auto simp: later_def split: option.splits)
        obtain m' where "j < m'" "m' \<le> length s" "glob (drop i p) (drop m' s)"
          by (rule later_match [OF since [unfolded k(1)] i k(2-4)])
        then obtain m'' where "m' \<le> m''" "m'' \<le> length s" "glob (drop (Suc i) p) (drop m'' s)"
          unfolding pi glob_star_drop by auto
        then show ?thesis unfolding pi glob_star_drop using \<open>j < m'\<close> by (intro exI [of _ m'']) auto
      qed
      ultimately show ?thesis using True star by (subst match_loop.simps) auto
    next
      case miss
      then have no: "\<not> glob (drop i p) (drop j s)" unfolding sj
        by (elim disjE) (simp, metis Cons_nth_drop_Suc glob.simps(3))
      show ?thesis
      proof (cases star)
        case None
        then show ?thesis using miss no True by (subst match_loop.simps) (auto simp: later_def)
      next
        case (Some k)
        obtain q where q: "i = Suc k + (j - mark)" "mark \<le> j" by (rule since_split [OF since [unfolded Some] i])
        have "match_loop p s (Suc k) (Suc mark) star (Suc mark) =
            Some (glob (drop (Suc k) p) (drop (Suc mark) s) \<or> later p s star (Suc mark))"
          by (rule IH) (use q True i Some in \<open>auto simp: since_def\<close>)
        moreover have "glob (drop (Suc k) p) (drop (Suc mark) s) \<or> later p s star (Suc mark) \<longleftrightarrow> later p s star mark"
          unfolding Some later_def using q True by (auto simp: less_Suc_eq_le intro: Suc_lessI le_neq_trans dest: Suc_lessD)
        ultimately show ?thesis using miss no True by (subst match_loop.simps) (auto simp: Some)
      qed
    qed
  qed
qed

end
