(* ===== verification/Name_Facts.thy ===== *)
theory Name_Facts
  imports Name_Utf8 Name_Match
begin

text \<open>
  Case folding and the comparison of names (\<open>foundation/lib/fnd/name.c\<close>): the binary search against the
  whole table, the iterator over folded scalars against a list, equality, hash, fold and match.
\<close>

section \<open>The table\<close>

lemma cf_sorted: "i < j \<Longrightarrow> j < 1557 \<Longrightarrow> fnd_cf_from ! i < fnd_cf_from ! j"
  using cf_ascending by (simp add: ascending_sorted sorted_wrt_iff_nth_less)

lemma cf_search_Some: "cf_search c lo hi = Some m \<Longrightarrow> lo \<le> m \<and> m < hi \<and> fnd_cf_from ! m = c"
proof (induction c lo hi rule: cf_search.induct)
  case (1 c lo hi)
  then show ?case by (subst (asm) (3) cf_search.simps) (fastforce simp: Let_def split: if_splits)
qed

lemma cf_search_finds: "lo \<le> m \<Longrightarrow> m < hi \<Longrightarrow> hi \<le> 1557 \<Longrightarrow> cf_search (fnd_cf_from ! m) lo hi = Some m"
proof (induction "fnd_cf_from ! m" lo hi rule: cf_search.induct)
  case (1 lo hi)
  define k where "k = (lo + hi) div 2"
  have k: "lo \<le> k" "k < hi" "lo < hi" using 1 by (auto simp: k_def)
  consider "k = m" | "k < m" | "m < k" by linarith
  then show ?case
  proof cases
    case 1
    then show ?thesis using k by (subst cf_search.simps) (simp add: k_def [symmetric])
  next
    case 2
    then have l: "fnd_cf_from ! k < fnd_cf_from ! m" using "1.prems" by (intro cf_sorted) simp_all
    then have "cf_search (fnd_cf_from ! m) (k + 1) hi = Some m"
      using "1.hyps"(1) [OF k(3) k_def refl] "1.prems" 2 by auto
    then show ?thesis using k l by (subst cf_search.simps) (auto simp: k_def [symmetric] Let_def)
  next
    case 3
    then have l: "fnd_cf_from ! m < fnd_cf_from ! k" using "1.prems" k by (intro cf_sorted) simp_all
    then have "cf_search (fnd_cf_from ! m) lo k = Some m"
      using "1.hyps"(2) [OF k(3) k_def refl] "1.prems" 3 k by auto
    then show ?thesis using k l by (subst cf_search.simps) (auto simp: k_def [symmetric] Let_def)
  qed
qed

text \<open>What a row of the table stands for, and the table as a map.\<close>

definition row_fold :: "u32 \<Rightarrow> u32 list" where
  "row_fold t = (if t < 0x80000000 then [t]
     else filter (\<lambda>w. w \<noteq> 0) (take 3 (drop (3 * (unat t - 2147483648)) fnd_cf_multi)))"

definition table_fold :: "u32 \<Rightarrow> u32 list" where
  "table_fold c = (case map_of (zip fnd_cf_from fnd_cf_to) c of None \<Rightarrow> [c] | Some t \<Rightarrow> row_fold t)"

lemma cf_search_map: "map_option (\<lambda>m. fnd_cf_to ! m) (cf_search c 0 1557) = map_of (zip fnd_cf_from fnd_cf_to) c"
proof (cases "cf_search c 0 1557")
  case None
  have "c \<notin> set fnd_cf_from"
  proof
    assume "c \<in> set fnd_cf_from"
    then obtain m where "m < 1557" "c = fnd_cf_from ! m" by (auto simp: in_set_conv_nth)
    then show False using cf_search_finds [of 0 m 1557] None by simp
  qed
  then have "map_of (zip fnd_cf_from fnd_cf_to) c = None" by (simp add: map_of_zip_is_None)
  then show ?thesis using None by (simp only: option.map(1))
next
  case (Some m)
  have m: "m < 1557" "fnd_cf_from ! m = c" using cf_search_Some [OF Some] by simp_all
  have "distinct fnd_cf_from" using cf_ascending by (auto simp: ascending_sorted strict_sorted_iff)
  then have "map_of (zip fnd_cf_from fnd_cf_to) (fnd_cf_from ! m) = Some (fnd_cf_to ! m)"
    using m by (intro map_of_zip_nth) simp_all
  then show ?thesis using Some m by simp
qed

lemma table_fold_search:
  "table_fold c = (case cf_search c 0 1557 of None \<Rightarrow> [c] | Some m \<Rightarrow> row_fold (fnd_cf_to ! m))"
  unfolding table_fold_def cf_search_map [symmetric] by (cases "cf_search c 0 1557") simp_all

lemma row_of: "m < 1557 \<Longrightarrow> row_ok (fnd_cf_to ! m)"
  using cf_rows by (simp add: list_all_length)

lemma high_bit: "t AND 0x80000000 = 0 \<longleftrightarrow> t < (0x80000000 :: u32)"
proof -
  have e: "(0x80000000 :: u32) = push_bit 31 1" by code_simp
  have "t AND push_bit 31 1 = push_bit 31 (drop_bit 31 t AND 1)" by (rule and_high)
  moreover have "unat (drop_bit 31 t) < 2" unfolding unat_right using unsigned_less [where 'a = nat and w = t] by simp
  then have "drop_bit 31 t = 0 \<or> drop_bit 31 t = 1" by (auto simp: word_unat_eq_iff less_2_cases_iff)
  moreover have "drop_bit 31 t = 0 \<longleftrightarrow> t < 0x80000000"
  proof -
    have "drop_bit 31 t = 0 \<longleftrightarrow> unat t div 2147483648 = 0" unfolding word_unat_eq_iff unat_right by simp
    then show ?thesis by (simp only: word_less_nat_alt) auto
  qed
  moreover have "push_bit 31 (1 :: u32) \<noteq> 0" by code_simp
  ultimately show ?thesis unfolding e by (auto simp del: push_bit_of_1)
qed

lemma row_index: "row_ok t \<Longrightarrow> \<not> t < 0x80000000 \<Longrightarrow> unat (t AND 0xFFFF) = unat t - 2147483648 \<and> unat t - 2147483648 < 104"
proof -
  assume "row_ok t" "\<not> t < 0x80000000"
  then have t: "unat t < 2147483752" "2147483648 \<le> unat t" by (auto simp: row_ok_def word_less_nat_alt split: if_splits)
  define k where "k = unat t - 2147483648"
  have k: "unat t = k + 32768 * 65536" "k < 104" using t by (simp_all add: k_def)
  have "unat (t AND 0xFFFF) = unat t mod 65536" using unat_low [of t 16] by (simp add: mask_eq_exp_minus_1)
  also have "\<dots> = k" unfolding k(1) using k(2) by (subst mod_mult_self1) simp
  finally show ?thesis using k by simp
qed

lemma triple_words:
  assumes "k < 104"
  shows "map (\<lambda>j. fnd_cf_multi ! (k * 3 + j)) [0..<3] = take 3 (drop (3 * k) fnd_cf_multi)"
    "take 3 (drop (3 * k) fnd_cf_multi) = [fnd_cf_multi ! (3 * k), fnd_cf_multi ! (3 * k + 1), fnd_cf_multi ! (3 * k + 2)]"
proof -
  have u: "[0..<3] = [0, 1, 2 :: nat]" by (simp add: upt_rec)
  have "i < length xs \<Longrightarrow> drop i xs = xs ! i # drop (i + 1) xs" for i and xs :: "u32 list"
    by (simp add: Cons_nth_drop_Suc)
  then show "take 3 (drop (3 * k) fnd_cf_multi) = [fnd_cf_multi ! (3 * k), fnd_cf_multi ! (3 * k + 1), fnd_cf_multi ! (3 * k + 2)]"
    using assms by (simp add: numeral_3_eq_3 numeral_2_eq_2)
  then show "map (\<lambda>j. fnd_cf_multi ! (k * 3 + j)) [0..<3] = take 3 (drop (3 * k) fnd_cf_multi)"
    by (simp add: u mult.commute)
qed

text \<open>No triple has a zero before a scalar: taking words up to a zero is dropping the zeroes.\<close>

fun zeros_last :: "u32 list \<Rightarrow> bool" where
  "zeros_last (a # b # c # xs) \<longleftrightarrow> (b = 0 \<longrightarrow> c = 0) \<and> zeros_last xs"
| "zeros_last xs \<longleftrightarrow> True"

lemma cf_zeros_last: "zeros_last fnd_cf_multi"
  unfolding fnd_cf_multi_def by simp

lemma zeros_nth: "zeros_last xs \<Longrightarrow> 3 * k + 2 < length xs \<Longrightarrow> xs ! (3 * k + 1) = 0 \<Longrightarrow> xs ! (3 * k + 2) = 0"
proof (induction xs arbitrary: k rule: zeros_last.induct)
  case (1 a b c xs)
  show ?case
  proof (cases k)
    case (Suc j)
    have e: "3 * k = Suc (Suc (Suc (3 * j)))" using Suc by simp
    show ?thesis using "1.IH" [of j] "1.prems" unfolding e by simp
  qed (use "1.prems" in auto)
qed auto

lemma row_fold_triple:
  assumes "k < 104"
  shows "takeWhile (\<lambda>w. w \<noteq> 0) (map (\<lambda>j. fnd_cf_multi ! (k * 3 + j)) [0..<3]) =
      filter (\<lambda>w. w \<noteq> 0) (take 3 (drop (3 * k) fnd_cf_multi))"
    "filter (\<lambda>w. w \<noteq> 0) (take 3 (drop (3 * k) fnd_cf_multi)) \<noteq> []"
    "length (filter (\<lambda>w. w \<noteq> 0) (take 3 (drop (3 * k) fnd_cf_multi))) \<le> 3"
    "list_all (\<lambda>w. w < 0xD800) (filter (\<lambda>w. w \<noteq> 0) (take 3 (drop (3 * k) fnd_cf_multi)))"
  unfolding triple_words [OF assms]
  using triples_nth [OF cf_triples, of k] zeros_nth [OF cf_zeros_last, of k] assms by auto

lemma lower_rows:
  "take 26 fnd_cf_from = map word_of_nat [65..<91]" "take 26 fnd_cf_to = map word_of_nat [97..<123]" "fnd_cf_from ! 26 = 0xB5"
proof -
  have "take 26 fnd_cf_from_0 = map word_of_nat [65..<91] \<and> length fnd_cf_from_0 = 160 \<and> fnd_cf_from_0 ! 26 = 0xB5"
    unfolding fnd_cf_from_0_def by (simp add: upt_rec)
  moreover have "take 26 fnd_cf_to_0 = map word_of_nat [97..<123] \<and> length fnd_cf_to_0 = 160"
    unfolding fnd_cf_to_0_def by (simp add: upt_rec)
  ultimately show "take 26 fnd_cf_from = map word_of_nat [65..<91]" "take 26 fnd_cf_to = map word_of_nat [97..<123]" "fnd_cf_from ! 26 = 0xB5"
    unfolding fnd_cf_from_def fnd_cf_to_def by (simp_all add: nth_append)
qed

lemma ascii_rows:
  assumes "c < 0x80"
  shows "table_fold c = [ascii_fold c]"
proof -
  have c: "unat c < 128" using assms by (simp add: word_less_nat_alt)
  have low: "fnd_cf_from ! m = word_of_nat (65 + m)" "fnd_cf_to ! m = word_of_nat (97 + m)" if "m < 26" for m
  proof -
    have "fnd_cf_from ! m = take 26 fnd_cf_from ! m" "fnd_cf_to ! m = take 26 fnd_cf_to ! m" using that by simp_all
    moreover have "map word_of_nat [65..<91] ! m = (word_of_nat (65 + m) :: u32)" by (rule nth_map_upt) (use that in simp)
    moreover have "map word_of_nat [97..<123] ! m = (word_of_nat (97 + m) :: u32)" by (rule nth_map_upt) (use that in simp)
    ultimately show "fnd_cf_from ! m = word_of_nat (65 + m)" "fnd_cf_to ! m = word_of_nat (97 + m)" unfolding lower_rows by metis+
  qed
  show ?thesis
  proof (cases "65 \<le> unat c \<and> unat c \<le> 90")
    case True
    define m where "m = unat c - 65"
    have m: "m < 26" "unat c = 65 + m" using True unfolding m_def by linarith+
    have f: "fnd_cf_from ! m = c" unfolding low(1) [OF m(1)] m(2) [symmetric] by simp
    have t: "fnd_cf_to ! m = c + 0x20" unfolding low(2) [OF m(1)] using m
      by (simp add: word_unat_eq_iff unat_of_nat take_bit_nat_eq_self unat_word_ariths)
    have "cf_search c 0 1557 = Some m" using cf_search_finds [of 0 m 1557] m(1) f by simp
    then have "map_of (zip fnd_cf_from fnd_cf_to) c = Some (c + 0x20)" using cf_search_map [of c] t by simp
    moreover have "unat (c + 0x20) = unat c + 32" using c by (simp add: unat_word_ariths)
    then have "c + 0x20 < 0x80000000" using c by (simp add: word_less_nat_alt)
    ultimately show ?thesis using True by (simp add: table_fold_def row_fold_def ascii_fold_def word_le_nat_alt)
  next
    case False
    have "cf_search c 0 1557 = None"
    proof (rule ccontr)
      assume "cf_search c 0 1557 \<noteq> None"
      then obtain m where m: "m < 1557" "fnd_cf_from ! m = c" using cf_search_Some by blast
      have "m < 26"
      proof (rule ccontr)
        assume "\<not> m < 26"
        then have "0xB5 \<le> c" using cf_sorted [of 26 m] m lower_rows(3) by (cases "m = 26") auto
        then show False using c by (simp add: word_le_nat_alt)
      qed
      then have "c = word_of_nat (65 + m)" using low(1) [of m] m(2) by simp
      moreover have "unat (word_of_nat (65 + m) :: u32) = 65 + m" by (subst unat_of_nat) (use \<open>m < 26\<close> in \<open>simp add: take_bit_nat_eq_self\<close>)
      ultimately have "unat c = 65 + m" by simp
      then show False using False \<open>m < 26\<close> by simp
    qed
    then show ?thesis using False by (auto simp: table_fold_search ascii_fold_def word_le_nat_alt)
  qed
qed

lemma casefold_table: "fnd_casefold c = table_fold c"
proof (cases "c < 0x80")
  case True
  then show ?thesis by (simp add: fnd_casefold_def ascii_rows)
next
  case False
  show ?thesis
  proof (cases "cf_search c 0 1557")
    case None
    then show ?thesis using False by (simp add: fnd_casefold_def table_fold_search)
  next
    case (Some m)
    have m: "row_ok (fnd_cf_to ! m)" using cf_search_Some [OF Some] by (intro row_of) simp
    show ?thesis using False Some high_bit [of "fnd_cf_to ! m"] row_index [OF m]
        row_fold_triple(1) [of "unat (fnd_cf_to ! m) - 2147483648"]
      by (simp add: fnd_casefold_def table_fold_search row_fold_def Let_def)
  qed
qed

lemma row_fold_ok:
  assumes "row_ok t"
  shows "row_fold t \<noteq> []" "length (row_fold t) \<le> 3" "list_all scalar (row_fold t)"
proof -
  have "w < 0xD800 \<Longrightarrow> scalar w" for w by (auto simp: scalar_unat word_less_nat_alt)
  then show "row_fold t \<noteq> []" "length (row_fold t) \<le> 3" "list_all scalar (row_fold t)"
    using assms row_index [OF assms] row_fold_triple(2-4) [of "unat t - 2147483648"]
    by (auto simp: row_fold_def row_ok_def scalar_def list_all_iff split: if_splits)
qed

lemma casefold_length: "fnd_casefold c \<noteq> [] \<and> length (fnd_casefold c) \<le> 3"
proof -
  have "fnd_casefold c = [c] \<or> (\<exists>m<1557. fnd_casefold c = row_fold (fnd_cf_to ! m))"
    using cf_search_Some [of c 0 1557] by (cases "cf_search c 0 1557") (auto simp: casefold_table table_fold_search)
  then show ?thesis by (elim disjE exE conjE) (simp_all add: row_fold_ok(1,2) row_of)
qed

lemma casefold_scalar: "scalar c \<Longrightarrow> list_all scalar (fnd_casefold c)"
proof -
  assume "scalar c"
  moreover have "fnd_casefold c = [c] \<or> (\<exists>m<1557. fnd_casefold c = row_fold (fnd_cf_to ! m))"
    using cf_search_Some [of c 0 1557] by (cases "cf_search c 0 1557") (auto simp: casefold_table table_fold_search)
  ultimately show ?thesis using row_fold_ok(3) row_of by auto
qed


section \<open>The iterator\<close>

text \<open>The scalars of a string up to its end or the first bytes that are not UTF-8.\<close>

function scalars_from :: "u8 list \<Rightarrow> nat \<Rightarrow> u32 list" where
  "scalars_from s pos =
     (case fnd_utf8_next s (length s) pos of (st, pos', c) \<Rightarrow> if st = FND_OK then c # scalars_from s pos' else [])"
  by pat_completeness auto
termination
  by (relation "measure (\<lambda>(s, pos). length s - pos)") (auto dest!: fnd_utf8_next_advances [OF sym])

declare scalars_from.simps [simp del]

definition folded :: "u8 list \<Rightarrow> u32 list" where
  "folded s = concat (map fnd_casefold (scalars_from s 0))"

definition it_ok :: "fold_iter \<Rightarrow> bool" where
  "it_ok it \<longleftrightarrow> it_i it \<le> it_n it \<and> it_n it \<le> 3 \<and> length (it_buf it) = 3"

definition remaining :: "fold_iter \<Rightarrow> u32 list" where
  "remaining it = take (it_n it - it_i it) (drop (it_i it) (it_buf it)) @ concat (map fnd_casefold (scalars_from (it_s it) (it_pos it)))"

lemma init_remaining: "it_ok (fnd_fold_init s)" "remaining (fnd_fold_init s) = folded s"
  by (simp_all add: it_ok_def remaining_def fnd_fold_init_def folded_def)

lemma take_buf_ok:
  assumes "it_ok it" "it_i it < it_n it"
  shows "remaining it = fst (take_buf it) # remaining (snd (take_buf it)) \<and> it_ok (snd (take_buf it))"
proof -
  have "take (it_n it - it_i it) (drop (it_i it) (it_buf it)) =
      it_buf it ! it_i it # take (it_n it - Suc (it_i it)) (drop (Suc (it_i it)) (it_buf it))"
    using assms by (simp add: it_ok_def Cons_nth_drop_Suc [symmetric] take_Cons' )
  then show ?thesis using assms by (simp add: take_buf_def remaining_def it_ok_def)
qed

lemma ascii_next:
  assumes "pos < length s" "s ! pos < 0x80"
  shows "fnd_utf8_next s (length s) pos = (FND_OK, pos + 1, ucast (s ! pos))" "(ucast (s ! pos) :: u32) < 0x80"
proof -
  show l: "(ucast (s ! pos) :: u32) < 0x80" using assms(2) by (simp add: word_less_nat_alt)
  then show "fnd_utf8_next s (length s) pos = (FND_OK, pos + 1, ucast (s ! pos))"
    using assms(1) by (simp add: fnd_utf8_next_def Let_def)
qed

lemma fold_next_remaining:
  assumes "it_ok it"
  shows "case remaining it of [] \<Rightarrow> fnd_fold_next it = None
    | c # cs \<Rightarrow> \<exists>it'. fnd_fold_next it = Some (c, it') \<and> it_ok it' \<and> remaining it' = cs"
proof (cases "it_i it = it_n it")
  case False
  moreover have "it_i it < it_n it" using False assms by (simp add: it_ok_def)
  ultimately show ?thesis using take_buf_ok [OF assms] by (cases "take_buf it") (simp add: fnd_fold_next_def)
next
  case True
  obtain st pos c where nx: "fnd_utf8_next (it_s it) (length (it_s it)) (it_pos it) = (st, pos, c)"
    by (cases "fnd_utf8_next (it_s it) (length (it_s it)) (it_pos it)") blast
  have rem: "remaining it = (if st = FND_OK then fnd_casefold c @ concat (map fnd_casefold (scalars_from (it_s it) pos)) else [])"
    using True by (simp add: remaining_def scalars_from.simps [of _ "it_pos it"] nx)
  show ?thesis
  proof (cases "it_pos it < length (it_s it) \<and> it_s it ! it_pos it < 0x80")
    case ascii: True
    then have "st = FND_OK" "pos = it_pos it + 1" "c = ucast (it_s it ! it_pos it)" "c < 0x80"
      using ascii_next [of "it_pos it" "it_s it"] nx by auto
    moreover from this have "fnd_fold_next it = Some (ascii_fold c, it\<lparr>it_pos := pos\<rparr>)"
      using True ascii by (simp add: fnd_fold_next_def)
    moreover have "fnd_casefold c = [ascii_fold c]" using calculation(4) by (simp add: fnd_casefold_def)
    ultimately show ?thesis using True assms by (simp add: rem it_ok_def) (simp add: remaining_def)
  next
    case ascii: False
    show ?thesis
    proof (cases "st = FND_OK")
      case ok: True
      define it' where "it' = it\<lparr>it_pos := pos, it_buf := fnd_casefold c @ drop (length (fnd_casefold c)) (it_buf it),
        it_n := length (fnd_casefold c), it_i := 0\<rparr>"
      have i: "it_ok it'" "it_i it' < it_n it'" using casefold_length [of c] assms by (auto simp: it'_def it_ok_def)
      have "remaining it' = remaining it" using ok by (simp add: rem) (simp add: remaining_def it'_def)
      moreover have "fnd_fold_next it = Some (take_buf it')"
        using True ascii ok nx by (auto simp: fnd_fold_next_def it'_def Let_def)
      ultimately show ?thesis using take_buf_ok [OF i] by (cases "take_buf it'") (auto split: list.splits)
    next
      case False
      then show ?thesis using True ascii nx by (auto simp: rem fnd_fold_next_def)
    qed
  qed
qed

lemma fold_next_cases:
  assumes "it_ok it"
  obtains "remaining it = []" "fnd_fold_next it = None"
  | c it' where "remaining it = c # remaining it'" "fnd_fold_next it = Some (c, it')" "it_ok it'"
  using fold_next_remaining [OF assms] that by (cases "remaining it") auto

lemma key_equal_remaining:
  assumes "it_ok x" "it_ok y"
  shows "key_equal_loop x y = Some (remaining x = remaining y)"
  using assms
proof (induction "remaining x" arbitrary: x y)
  case Nil
  have x: "fnd_fold_next x = None" by (rule fold_next_cases [OF Nil(2)]) (use Nil(1) in simp_all)
  show ?case by (rule fold_next_cases [OF Nil(3)]) (simp_all add: key_equal_loop.simps [of x] x Nil(1) [symmetric])
next
  case (Cons c cs)
  show ?case
  proof (cases rule: fold_next_cases [OF Cons.prems(1)])
    case 1
    then show ?thesis using Cons.hyps(2) by simp
  next
    case x: (2 c x')
    show ?thesis
    proof (cases rule: fold_next_cases [OF Cons.prems(2)])
      case 1
      then show ?thesis using x by (subst key_equal_loop.simps) simp
    next
      case y: (2 d y')
      have "key_equal_loop x' y' = Some (remaining x' = remaining y')"
        using Cons.hyps x y by (intro Cons.hyps(1)) auto
      then show ?thesis using x y by (subst key_equal_loop.simps) auto
    qed
  qed
qed

lemma key_hash_remaining:
  "it_ok it \<Longrightarrow> key_hash_loop it h = Some (fold (\<lambda>c h. (h XOR c) * 16777619) (remaining it) h)"
proof (induction "remaining it" arbitrary: it h)
  case Nil
  show ?case by (rule fold_next_cases [OF Nil(2)]) (use Nil(1) in \<open>simp_all add: key_hash_loop.simps [of it]\<close>)
next
  case (Cons c cs)
  show ?case
  proof (cases rule: fold_next_cases [OF Cons.prems])
    case 1
    then show ?thesis using Cons.hyps(2) by simp
  next
    case (2 d it')
    then show ?thesis using Cons.hyps(1) [of it'] Cons.hyps(2) by (subst key_hash_loop.simps) auto
  qed
qed

lemma write_remaining: "it_ok it \<Longrightarrow> write_loop it out = Some (out @ concat (map utf8_put (remaining it)))"
proof (induction "remaining it" arbitrary: it out)
  case Nil
  show ?case by (rule fold_next_cases [OF Nil(2)]) (use Nil(1) in \<open>simp_all add: write_loop.simps [of it]\<close>)
next
  case (Cons c cs)
  show ?case
  proof (cases rule: fold_next_cases [OF Cons.prems])
    case 1
    then show ?thesis using Cons.hyps(2) by simp
  next
    case (2 d it')
    then show ?thesis using Cons.hyps(1) [of it'] Cons.hyps(2) by (subst write_loop.simps) auto
  qed
qed


section \<open>Names\<close>

text \<open>The scalars of a string of valid UTF-8.\<close>

definition utf8_text :: "u8 list \<Rightarrow> u32 list \<Rightarrow> bool" where
  "utf8_text s cs \<longleftrightarrow> list_all scalar cs \<and> s = encode CODE_UTF8 cs"

text \<open>Reading at a position: at the end, a scalar, or an error.\<close>

lemma next_cases [consumes 1, case_names finish bad ok]:
  assumes "pos \<le> length s"
  obtains (finish) "pos = length s" "fnd_utf8_next s (length s) pos = (FND_END, pos, 0)"
  | (bad) st where "fnd_utf8_next s (length s) pos = (st, pos, 0)" "st \<noteq> FND_OK" "st \<noteq> FND_END"
      "\<And>cs. \<not> utf8_text (drop pos s) cs"
  | (ok) pos' c where "fnd_utf8_next s (length s) pos = (FND_OK, pos', c)" "scalar c" "pos' \<le> length s"
      "drop pos s = code_bytes CODE_UTF8 c @ drop pos' s"
proof (cases "pos = length s")
  case True
  then show thesis by (intro finish) (simp_all add: fnd_utf8_next_def)
next
  case False
  then have l: "pos < length s" using assms by simp
  obtain st pos' c where nx: "fnd_utf8_next s (length s) pos = (st, pos', c)" by (cases "fnd_utf8_next s (length s) pos") blast
  show thesis
  proof (cases "st = FND_OK")
    case True
    then have "code_at CODE_UTF8 s (length s) pos pos' c" using nx l by (simp add: fnd_utf8_next_iff code_at_utf8)
    then show thesis using nx True by (intro ok) (simp_all add: code_at_drop)
  next
    case st: False
    then have b: "st = FND_E_BAD_PATH \<and> pos' = pos \<and> c = 0" using nx l
      by (auto simp: fnd_utf8_next_def Let_def split: if_splits option.splits)
    have "\<not> utf8_text (drop pos s) cs" for cs
    proof
      assume "utf8_text (drop pos s) cs"
      then obtain d ds where d: "scalar d" "drop pos s = code_bytes CODE_UTF8 d @ encode CODE_UTF8 ds"
        using l by (cases cs) (auto simp: utf8_text_def)
      have "fnd_utf8_next s (length s) pos = (FND_OK, pos + length (code_bytes CODE_UTF8 d), d)"
        using code_at_of_drop(1) [OF d(2,1)] l by (simp add: fnd_utf8_next_iff code_at_utf8)
      then show False using nx st by simp
    qed
    then show thesis using nx b by (intro bad) auto
  qed
qed

lemma code_bytes_inj:
  assumes "scalar c" "scalar d" "code_bytes CODE_UTF8 c @ xs = code_bytes CODE_UTF8 d @ ys"
  shows "c = d \<and> xs = ys"
proof -
  let ?s = "code_bytes CODE_UTF8 c @ xs"
  have p: "0 < length ?s" by simp
  have "drop 0 ?s = code_bytes CODE_UTF8 c @ xs" "drop 0 ?s = code_bytes CODE_UTF8 d @ ys" using assms(3) by simp_all
  then have "code_at CODE_UTF8 ?s (length ?s) 0 (0 + length (code_bytes CODE_UTF8 c)) c"
    "code_at CODE_UTF8 ?s (length ?s) 0 (0 + length (code_bytes CODE_UTF8 d)) d"
    using code_at_of_drop(1) assms(1,2) by blast+
  then have "fnd_utf8_next ?s (length ?s) 0 = (FND_OK, 0 + length (code_bytes CODE_UTF8 c), c)"
    "fnd_utf8_next ?s (length ?s) 0 = (FND_OK, 0 + length (code_bytes CODE_UTF8 d), d)"
    using fnd_utf8_next_iff [OF p] code_at_utf8 by blast+
  then have "c = d" by simp
  then show ?thesis using assms(3) by simp
qed

lemma encode_inj: "list_all scalar cs \<Longrightarrow> list_all scalar ds \<Longrightarrow> encode CODE_UTF8 cs = encode CODE_UTF8 ds \<Longrightarrow> cs = ds"
proof (induction cs arbitrary: ds)
  case Nil
  then show ?case by (cases ds) auto
next
  case (Cons c cs)
  obtain d ds' where d: "ds = d # ds'" using Cons.prems(3) by (cases ds) simp_all
  have s: "scalar c" "scalar d" "list_all scalar cs" "list_all scalar ds'" using Cons.prems(1,2) d by simp_all
  have "code_bytes CODE_UTF8 c @ encode CODE_UTF8 cs = code_bytes CODE_UTF8 d @ encode CODE_UTF8 ds'"
    using Cons.prems(3) d by simp
  from code_bytes_inj [OF s(1,2) this] show ?case using Cons.IH [OF s(3,4)] d by simp
qed

lemma utf8_text_unique: "utf8_text s cs \<Longrightarrow> utf8_text s ds \<Longrightarrow> cs = ds"
  unfolding utf8_text_def using encode_inj by blast

lemma utf8_text_Cons:
  assumes "scalar c" "s = code_bytes CODE_UTF8 c @ t"
  shows "utf8_text s cs \<longleftrightarrow> (\<exists>ds. cs = c # ds \<and> utf8_text t ds)"
proof
  assume h: "utf8_text s cs"
  then obtain d ds where d: "cs = d # ds" using assms(2) by (cases cs) (auto simp: utf8_text_def)
  then show "\<exists>ds. cs = c # ds \<and> utf8_text t ds"
    using h assms code_bytes_inj [of c d t "encode CODE_UTF8 ds"] by (auto simp: utf8_text_def)
qed (use assms in \<open>auto simp: utf8_text_def\<close>)

lemma utf8_text_Nil: "utf8_text [] cs \<longleftrightarrow> cs = []"
  by (cases cs) (auto simp: utf8_text_def)

lemma utf8_put_bytes: "utf8_put c = code_bytes CODE_UTF8 c"
proof -
  have u: "[Suc 0..<2] = [1]" "[Suc 0..<3] = [1, 2]" "[Suc 0..<4] = [1, 2, 3]" by (simp_all add: upt_rec)
  show ?thesis by (simp add: utf8_put_def code_bytes_def lead_def Let_def u)
qed

text \<open>All loops over a string follow this decoder.\<close>

function text_from :: "u8 list \<Rightarrow> nat \<Rightarrow> u32 list option" where
  "text_from s pos =
     (case fnd_utf8_next s (length s) pos of (st, pos', c) \<Rightarrow>
        if st = FND_OK then map_option ((#) c) (text_from s pos') else if st = FND_END then Some [] else None)"
  by pat_completeness auto
termination
  by (relation "measure (\<lambda>(s, pos). length s - pos)") (auto dest!: fnd_utf8_next_advances [OF sym])

declare text_from.simps [simp del]

definition text_of :: "u8 list \<Rightarrow> u32 list option" where
  "text_of s = text_from s 0"

lemma reading_induct [consumes 1, case_names finish bad ok]:
  assumes "pos \<le> length s"
    and "\<And>pos. pos = length s \<Longrightarrow> fnd_utf8_next s (length s) pos = (FND_END, pos, 0) \<Longrightarrow> P pos"
    and "\<And>pos st. pos \<le> length s \<Longrightarrow> fnd_utf8_next s (length s) pos = (st, pos, 0) \<Longrightarrow> st \<noteq> FND_OK \<Longrightarrow> st \<noteq> FND_END \<Longrightarrow>
      (\<And>cs. \<not> utf8_text (drop pos s) cs) \<Longrightarrow> P pos"
    and "\<And>pos pos' c. pos \<le> length s \<Longrightarrow> fnd_utf8_next s (length s) pos = (FND_OK, pos', c) \<Longrightarrow> scalar c \<Longrightarrow>
      drop pos s = code_bytes CODE_UTF8 c @ drop pos' s \<Longrightarrow> pos' \<le> length s \<Longrightarrow> P pos' \<Longrightarrow> P pos"
  shows "P pos"
  using assms(1)
proof (induction "length s - pos" arbitrary: pos rule: less_induct)
  case less
  from less.prems show ?case
  proof (cases rule: next_cases)
    case finish
    then show ?thesis by (rule assms(2))
  next
    case (bad st)
    then show ?thesis using assms(3) less.prems by blast
  next
    case (ok pos' c)
    then have "length s - pos' < length s - pos" using fnd_utf8_next_advances [OF ok(1)] by linarith
    then show ?thesis using less.hyps ok assms(4) less.prems by blast
  qed
qed

lemma text_from_iff: "pos \<le> length s \<Longrightarrow> text_from s pos = Some cs \<longleftrightarrow> utf8_text (drop pos s) cs"
proof (induction pos arbitrary: cs rule: reading_induct)
  case (ok pos pos' c)
  show ?case unfolding text_from.simps [of s pos] ok.hyps(2) utf8_text_Cons [OF ok.hyps(3,4)]
    using ok.IH by auto
qed (auto simp: text_from.simps [of s] utf8_text_Nil)

lemma text_of_iff: "text_of s = Some cs \<longleftrightarrow> list_all scalar cs \<and> s = encode CODE_UTF8 cs"
  using text_from_iff [of 0 s cs] by (simp add: text_of_def utf8_text_def)

lemma text_from_scalars: "pos \<le> length s \<Longrightarrow> text_from s pos = Some cs \<Longrightarrow> scalars_from s pos = cs"
proof (induction pos arbitrary: cs rule: reading_induct)
  case (ok pos pos' c)
  then show ?case by (auto simp: text_from.simps [of s pos] scalars_from.simps [of s pos])
qed (auto simp: text_from.simps [of s] scalars_from.simps [of s])

lemma folded_text: "text_of s = Some cs \<Longrightarrow> folded s = concat (map fnd_casefold cs)"
  using text_from_scalars [of 0 s cs] by (simp add: text_of_def folded_def)

lemma valid_loop_text: "pos \<le> length s \<Longrightarrow> valid_loop s pos \<longleftrightarrow> text_from s pos \<noteq> None"
proof (induction pos rule: reading_induct)
  case (ok pos pos' c)
  then show ?case by (simp add: text_from.simps [of s pos] valid_loop.simps [of s pos])
qed (auto simp: text_from.simps [of s] valid_loop.simps [of s])

lemma measure_loop_text:
  "pos \<le> length s \<Longrightarrow> measure_loop s pos need =
     map_option (\<lambda>cs. need + length (encode CODE_UTF8 (concat (map fnd_casefold cs)))) (text_from s pos)"
proof (induction pos arbitrary: need rule: reading_induct)
  case (ok pos pos' c)
  then show ?case by (cases "text_from s pos'")
      (simp_all add: text_from.simps [of s pos] measure_loop.simps [of s pos] utf8_put_bytes encode_def length_concat comp_def)
qed (auto simp: text_from.simps [of s] measure_loop.simps [of s])

lemma check_loop_text:
  "pos \<le> length s \<Longrightarrow> check_loop s pos n =
     (case text_from s pos of None \<Rightarrow> None
      | Some cs \<Rightarrow> if list_all (\<lambda>c. c \<noteq> 0x2F \<and> 0x20 \<le> c \<and> \<not> (0x7F \<le> c \<and> c \<le> 0x9F)) cs then Some (n + length cs) else None)"
proof (induction pos arbitrary: n rule: reading_induct)
  case (ok pos pos' c)
  then show ?case by (cases "text_from s pos'") (auto simp: text_from.simps [of s pos] check_loop.simps [of s pos])
qed (auto simp: text_from.simps [of s] check_loop.simps [of s])

lemma fold_all_loop_text:
  "pos \<le> length s \<Longrightarrow> length out \<le> MATCH_MAX \<Longrightarrow> fold_all_loop s pos out =
     (case text_from s pos of None \<Rightarrow> None
      | Some cs \<Rightarrow> let f = out @ concat (map fnd_casefold cs) in if length f \<le> MATCH_MAX then Some f else None)"
proof (induction pos arbitrary: out rule: reading_induct)
  case (ok pos pos' c)
  show ?case
  proof (cases "MATCH_MAX < length out + length (fnd_casefold c)")
    case True
    then show ?thesis using ok.hyps(2) by (cases "text_from s pos'")
        (simp_all add: text_from.simps [of s pos] fold_all_loop.simps [of s pos] Let_def)
  next
    case False
    then show ?thesis using ok.hyps(2) ok.IH [of "out @ fnd_casefold c"] by (cases "text_from s pos'")
        (simp_all add: text_from.simps [of s pos] fold_all_loop.simps [of s pos] Let_def)
  qed
qed (auto simp: text_from.simps [of s] fold_all_loop.simps [of s])

lemmas text_loops = valid_loop_text measure_loop_text check_loop_text fold_all_loop_text

lemma key_equal_folded: "fnd_name_key_equal a b = Some (folded a = folded b)"
  by (simp add: fnd_name_key_equal_def key_equal_remaining init_remaining)

text \<open>Equal keys have equal hashes.\<close>

lemma key_equal_hash: "fnd_name_key_equal a b = Some True \<Longrightarrow> fnd_name_key_hash a = fnd_name_key_hash b"
  by (simp add: key_equal_folded fnd_name_key_hash_def key_hash_remaining init_remaining)

lemma fold_all_text:
  "fold_all s = (case text_of s of None \<Rightarrow> None
     | Some cs \<Rightarrow> let f = concat (map table_fold cs) in if length f \<le> MATCH_MAX then Some f else None)"
  by (simp add: fold_all_def fold_all_loop_text text_of_def casefold_table [abs_def] split: option.split)

text \<open>C23: \<open>fnd_name_equal\<close> returns for all strings, and two strings are the same name exactly when both are UTF-8 and
  fold to the same scalars, each scalar by its row in the whole table: the binary search, the fast path
  for ASCII and the buffer of the iterator do not matter.\<close>

theorem name_equal_table:
  "fnd_name_equal a b = Some (\<exists>cs ds. list_all scalar cs \<and> list_all scalar ds \<and>
     a = encode CODE_UTF8 cs \<and> b = encode CODE_UTF8 ds \<and> concat (map table_fold cs) = concat (map table_fold ds))"
proof -
  have "fnd_name_equal a b = Some (text_of a \<noteq> None \<and> text_of b \<noteq> None \<and> folded a = folded b)"
    by (simp add: fnd_name_equal_def valid_loop_text key_equal_folded text_of_def)
  also have "text_of a \<noteq> None \<and> text_of b \<noteq> None \<and> folded a = folded b \<longleftrightarrow>
      (\<exists>cs ds. text_of a = Some cs \<and> text_of b = Some ds \<and> concat (map table_fold cs) = concat (map table_fold ds))"
    using folded_text [of a] folded_text [of b] by (auto simp: casefold_table [abs_def])
  finally show ?thesis unfolding text_of_iff by (simp only: conj_ac)
qed

text \<open>C24: \<open>fnd_name_fold\<close> writes the folded scalars of a name in UTF-8 when they fit with the final zero, asks for
  exactly that many bytes when they do not, and rejects a string that is not UTF-8.\<close>

theorem name_fold_result:
  "fnd_name_fold s cap = Some (case text_of s of None \<Rightarrow> (FND_E_BAD_PATH, None, None)
     | Some cs \<Rightarrow> let f = encode CODE_UTF8 (concat (map table_fold cs)) in
         if cap < length f + 1 then (FND_E_LIMIT, None, Some (length f + 1)) else (FND_OK, Some f, Some (length f)))"
proof (cases "text_of s")
  case None
  then show ?thesis by (simp add: fnd_name_fold_def measure_loop_text text_of_def)
next
  case (Some cs)
  have "write_loop (fnd_fold_init s) [] = Some (encode CODE_UTF8 (concat (map table_fold cs)))"
    using folded_text [OF Some]
    by (simp add: write_remaining init_remaining utf8_put_bytes [abs_def] encode_def casefold_table [abs_def])
  then show ?thesis using Some
    by (simp add: fnd_name_fold_def measure_loop_text text_of_def Let_def casefold_table [abs_def])
qed

text \<open>C25: \<open>fnd_name_match\<close> returns for all patterns and names, and its greedy search with one point to go back to
  decides the pattern language: \<open>*\<close> any scalars, \<open>?\<close> one, others themselves, on the folded scalars.\<close>

theorem name_match_glob:
  "fnd_name_match pattern name = Some (\<exists>cs ds. text_of pattern = Some cs \<and> text_of name = Some ds \<and>
     length (concat (map table_fold cs)) \<le> MATCH_MAX \<and> length (concat (map table_fold ds)) \<le> MATCH_MAX \<and>
     glob (concat (map table_fold cs)) (concat (map table_fold ds)))"
proof -
  have "match_loop p s 0 0 None 0 = Some (glob p s)" for p s
    using match_loop_glob [of 0 p 0 s None 0] by (simp add: since_def later_def)
  then show ?thesis by (auto simp: fnd_name_match_def fold_all_text Let_def split: option.split)
qed

text \<open>What \<open>fnd_name_check\<close> accepts, as \<open>doc/spec_FS2.md\<close> has it.\<close>

lemma name_check_iff:
  "fnd_name_check s = (FND_OK, n) \<longleftrightarrow> (\<exists>cs. list_all scalar cs \<and> s = encode CODE_UTF8 cs \<and> n = length cs \<and>
     cs \<noteq> [] \<and> length cs \<le> 256 \<and> length s \<le> 1024 \<and> s \<noteq> [0x2E] \<and> s \<noteq> [0x2E, 0x2E] \<and>
     list_all (\<lambda>c. c \<noteq> 0x2F \<and> 0x20 \<le> c \<and> \<not> (0x7F \<le> c \<and> c \<le> 0x9F)) cs)"
proof -
  have nil: "text_of s = Some cs \<Longrightarrow> s = [] \<longleftrightarrow> cs = []" for cs by (cases cs) (auto simp: text_of_iff)
  have "fnd_name_check s = (FND_OK, n) \<longleftrightarrow> (\<exists>cs. text_of s = Some cs \<and> n = length cs \<and>
     s \<noteq> [] \<and> length cs \<le> 256 \<and> length s \<le> 1024 \<and> s \<noteq> [0x2E] \<and> s \<noteq> [0x2E, 0x2E] \<and>
     list_all (\<lambda>c. c \<noteq> 0x2F \<and> 0x20 \<le> c \<and> \<not> (0x7F \<le> c \<and> c \<le> 0x9F)) cs)"
    unfolding fnd_name_check_def check_loop_text [OF le0] text_of_def [symmetric]
    by (cases "text_of s") auto
  then show ?thesis using nil unfolding text_of_iff by blast
qed

end
