(* ===== verification/Phys_Mem.thy ===== *)
theory Phys_Mem
  imports Prelude
begin

text \<open>
  Physical memory as the kernel sees it (S mode is never translated) and the two memory
  primitives of \<open>foundation/kernel/mm.c\<close>, \<open>kmem_copy\<close> and \<open>kmem_zero\<close>, in the CPU-only build
  (\<open>FND_COPY_DMA_MIN\<close> is 0, the build option the source provides; the other build tries the DMA
  controller first). Words are big-endian, the order of SRC32. The sequence of loads and
  stores is the source's: the destination is aligned by bytes, then words are copied eight and
  one at a time, or composed from aligned source words, then the rest by bytes.
\<close>

type_synonym ram = "u32 \<Rightarrow> u8"

definition ld32 :: "ram \<Rightarrow> u32 \<Rightarrow> u32" where
  "ld32 m a = be32 (m a) (m (a + 1)) (m (a + 2)) (m (a + 3))"

definition st32 :: "ram \<Rightarrow> u32 \<Rightarrow> u32 \<Rightarrow> ram" where
  "st32 m a v = m(a := byte_at 3 v, a + 1 := byte_at 2 v, a + 2 := byte_at 1 v, a + 3 := byte_at 0 v)"

text \<open>Whole byte lists.\<close>

fun store_bytes :: "ram \<Rightarrow> u32 \<Rightarrow> u8 list \<Rightarrow> ram" where
  "store_bytes m a [] = m"
| "store_bytes m a (b # bs) = store_bytes (m(a := b)) (a + 1) bs"

definition load_bytes :: "ram \<Rightarrow> u32 \<Rightarrow> nat \<Rightarrow> u8 list" where
  "load_bytes m a n = map (\<lambda>i. m (a + of_nat i)) [0..<n]"

definition bytes_of :: "u32 \<Rightarrow> u8 list" where
  "bytes_of w = [byte_at 3 w, byte_at 2 w, byte_at 1 w, byte_at 0 w]"

section \<open>Copying\<close>

fun copy_bytes :: "ram \<Rightarrow> u32 \<Rightarrow> u32 \<Rightarrow> nat \<Rightarrow> ram" where
  "copy_bytes m d s 0 = m"
| "copy_bytes m d s (Suc n) = copy_bytes (m(d := m s)) (d + 1) (s + 1) n"

fun copy_words :: "ram \<Rightarrow> u32 \<Rightarrow> u32 \<Rightarrow> nat \<Rightarrow> ram" where
  "copy_words m dw sw 0 = m"
| "copy_words m dw sw (Suc n) = copy_words (st32 m dw (ld32 m sw)) (dw + 4) (sw + 4) n"

text \<open>The composing loop: \<open>prev\<close> is the aligned source word read last.\<close>

fun copy_shifted :: "ram \<Rightarrow> u32 \<Rightarrow> u32 \<Rightarrow> nat \<Rightarrow> u32 \<Rightarrow> nat \<Rightarrow> ram" where
  "copy_shifted m dw sw sh prev 0 = m"
| "copy_shifted m dw sw sh prev (Suc n) =
     (let nxt = ld32 m sw in
      copy_shifted (st32 m dw (push_bit sh prev OR drop_bit (32 - sh) nxt)) (dw + 4) (sw + 4) sh nxt n)"

text \<open>How many bytes bring \<open>a\<close> to the next multiple of four.\<close>

definition align_count :: "u32 \<Rightarrow> nat" where
  "align_count a =
     (if a AND 3 = 0 then 0 else if (a + 1) AND 3 = 0 then 1 else if (a + 2) AND 3 = 0 then 2 else 3)"

definition kmem_copy :: "ram \<Rightarrow> u32 \<Rightarrow> u32 \<Rightarrow> u32 \<Rightarrow> ram" where
  "kmem_copy m dst src len =
     (if dst = src then m
      else if 16 \<le> len then
        let k = align_count dst; at = of_nat k;
            m = copy_bytes m dst src k;
            sh = 8 * unat ((src + at) AND 3);
            n = (unat len - k) div 4;
            m = (if sh = 0 then
                   let e = n div 8 * 8; m = copy_words m (dst + at) (src + at) e in
                   copy_words m (dst + at + 4 * of_nat e) (src + at + 4 * of_nat e) (n mod 8)
                 else
                   let sw = (src + at) AND NOT 3 in
                   copy_shifted m (dst + at) (sw + 4) sh (ld32 m sw) n);
            at = k + 4 * n in
        copy_bytes m (dst + of_nat at) (src + of_nat at) (unat len - at)
      else copy_bytes m dst src (unat len))"

fun zero_words :: "ram \<Rightarrow> u32 \<Rightarrow> nat \<Rightarrow> ram" where
  "zero_words m d 0 = m"
| "zero_words m d (Suc n) = zero_words (st32 m d 0) (d + 4) n"

definition kmem_zero :: "ram \<Rightarrow> u32 \<Rightarrow> u32 \<Rightarrow> ram" where
  "kmem_zero m start end_a = zero_words m start (unat ((end_a - start) div 4))"

section \<open>Loads and stores\<close>

lemma word4_neq [simp]:
  "(a::u32) + 1 \<noteq> a" "a + 2 \<noteq> a" "a + 3 \<noteq> a" "a + 1 \<noteq> a + 2" "a + 1 \<noteq> a + 3" "a + 2 \<noteq> a + 3"
  "a \<noteq> a + 1" "a \<noteq> a + 2" "a \<noteq> a + 3" "a + 2 \<noteq> a + 1" "a + 3 \<noteq> a + 1" "a + 3 \<noteq> a + 2"
  by simp_all

lemma ld32_st32_same [simp]: "ld32 (st32 m a v) a = v"
  using be32_byte_at [of v] by (simp add: ld32_def st32_def)

lemma aligned4_iff: "(a::u32) AND 3 = 0 \<longleftrightarrow> 4 dvd unat a"
proof -
  have "a AND 3 = take_bit 2 a" by (simp add: take_bit_eq_mask mask_eq_exp_minus_1)
  then have "unat (a AND 3) = unat a mod 4" by (simp add: take_bit_eq_mod unat_mod_distrib)
  then show ?thesis by (metis dvd_eq_mod_eq_0 unat_eq_zero)
qed

lemma unat_aligned_offset:
  assumes "(a::u32) AND 3 = 0" "i < 4"
  shows "unat (a + of_nat i) = unat a + i"
proof -
  obtain k where k: "unat a = 4 * k" using assms(1) by (auto simp: aligned4_iff)
  then have "unat a + i < 2 ^ 32" using unsigned_less [of a, where 'a = nat] assms(2) by simp
  then show ?thesis using assms(2) by (simp add: unat_word_ariths unat_of_nat)
qed

lemma aligned_offset_neq:
  assumes "(a::u32) AND 3 = 0" "b AND 3 = 0" "i < 4" "j < 4" "a + of_nat i = b + of_nat j"
  shows "a = b"
proof -
  have "unat a + i = unat b + j"
    using assms unat_aligned_offset [of a i] unat_aligned_offset [of b j] by simp
  moreover obtain k where "unat a = 4 * k" using assms(1) by (auto simp: aligned4_iff)
  moreover obtain l where "unat b = 4 * l" using assms(2) by (auto simp: aligned4_iff)
  ultimately have "unat a = unat b" using assms(3,4) by arith
  then show ?thesis by (rule unsigned_word_eqI)
qed

lemma ld32_st32_other:
  assumes "(a::u32) AND 3 = 0" "b AND 3 = 0" "a \<noteq> b"
  shows "ld32 (st32 m a v) b = ld32 m b"
proof -
  have "b + of_nat j \<noteq> a + of_nat i" if "i < 4" "j < 4" for i j
    using aligned_offset_neq [OF assms(2,1) that(2,1)] assms(3) by auto
  note n = this [of 0 0] this [of 0 1] this [of 0 2] this [of 0 3] this [of 1 0] this [of 1 1]
    this [of 1 2] this [of 1 3] this [of 2 0] this [of 2 1] this [of 2 2] this [of 2 3]
    this [of 3 0] this [of 3 1] this [of 3 2] this [of 3 3]
  show ?thesis using n by (simp add: ld32_def st32_def)
qed

section \<open>Correctness of the copy\<close>

text \<open>\<open>copied m d s n\<close> is memory after the first \<open>n\<close> bytes of the copy. Ranges are
  compared by offsets modulo \<open>2 ^ 32\<close>, so that nothing has to be said about the end of the
  address space.\<close>

definition copied :: "ram \<Rightarrow> u32 \<Rightarrow> u32 \<Rightarrow> nat \<Rightarrow> ram" where
  "copied m d s n = (\<lambda>x. if unat (x - d) < n then m (s + (x - d)) else m x)"

definition separate :: "u32 \<Rightarrow> u32 \<Rightarrow> nat \<Rightarrow> bool" where
  "separate d s n \<longleftrightarrow> n \<le> unat (d - s) \<and> n \<le> unat (s - d)"

lemma unat_offset_add:
  assumes "unat (a::u32) + k < 2 ^ 32"
  shows "unat (a + of_nat k) = unat a + k"
  using assms by (simp add: unat_word_ariths unat_of_nat)

lemma sum_mod_zero:
  fixes x y N :: nat
  assumes "(x + y) mod N = 0" "0 < x" "x < N" "y < N"
  shows "x + y = N"
proof -
  have "N dvd x + y" using assms(1) by (simp add: mod_eq_0_iff_dvd)
  then obtain k where k: "x + y = N * k" by (rule dvdE)
  have "k \<noteq> 0" using assms k by (auto intro: ccontr)
  moreover have "N * k < N * 2" using assms k by linarith
  then have "k < 2" by simp
  ultimately have "k = 1" by simp
  then show ?thesis using k by simp
qed

lemma byte_at_1: "byte_at 1 (be32 a b c d) = c"
  by simp

lemma unat_minus_swap:
  assumes "(a::u32) \<noteq> b"
  shows "unat (a - b) + unat (b - a) = 2 ^ 32"
proof -
  let ?u = "unat (a - b)" and ?v = "unat (b - a)"
  have "unat ((a - b) + (b - a)) = (?u + ?v) mod 2 ^ 32" by (simp only: unat_word_ariths) simp
  then have "(?u + ?v) mod 2 ^ 32 = 0" by simp
  moreover have "0 < ?u" using assms by (simp add: unat_gt_0)
  moreover have "?u < 2 ^ 32" "?v < 2 ^ 32"
    using unsigned_less [of "a - b", where 'a = nat] unsigned_less [of "b - a", where 'a = nat] by simp_all
  ultimately show ?thesis by (rule sum_mod_zero)
qed

lemma copied_source:
  assumes "separate d s N" "k < N" "n \<le> N"
  shows "copied m d s n (s + of_nat k) = m (s + of_nat k)"
proof -
  have N: "N \<le> unat (d - s)" "N \<le> unat (s - d)" using assms(1) by (auto simp: separate_def)
  then have "d \<noteq> s" using assms(2) by auto
  then have "unat (s - d) + k < 2 ^ 32" using unat_minus_swap [of d s] N assms(2) by linarith
  then have "unat (s - d + of_nat k) = unat (s - d) + k" by (rule unat_offset_add)
  moreover have "s + of_nat k - d = s - d + of_nat k" by simp
  ultimately have "unat (s + of_nat k - d) = unat (s - d) + k" by metis
  then have "\<not> unat (s + of_nat k - d) < n" using assms(3) N by linarith
  then show ?thesis by (simp add: copied_def)
qed

lemma copied_step:
  assumes "n < 2 ^ 32"
  shows "(copied m d s n)(d + of_nat n := m (s + of_nat n)) = copied m d s (Suc n)"
proof
  fix x
  have n: "unat (of_nat n :: u32) = n" using assms by (simp add: unat_of_nat)
  show "((copied m d s n)(d + of_nat n := m (s + of_nat n))) x = copied m d s (Suc n) x"
  proof (cases "x = d + of_nat n")
    case True
    then show ?thesis by (simp add: copied_def n)
  next
    case False
    have "unat (x - d) \<noteq> n"
    proof
      assume "unat (x - d) = n"
      then have "x - d = of_nat n" by (metis n unsigned_word_eqI)
      then have "x = d + of_nat n" by (metis add.commute diff_add_cancel)
      with False show False ..
    qed
    with False show ?thesis by (simp add: copied_def less_Suc_eq)
  qed
qed

lemma copied_0 [simp]: "copied m d s 0 = m"
  by (simp add: copied_def)

lemma copy_bytes_copied:
  assumes "separate d s N" "N < 2 ^ 32"
  shows "n + j \<le> N \<Longrightarrow>
     copy_bytes (copied m d s n) (d + of_nat n) (s + of_nat n) j = copied m d s (n + j)"
proof (induction j arbitrary: n)
  case (Suc j)
  then have "copied m d s n (s + of_nat n) = m (s + of_nat n)"
    using copied_source [OF assms(1)] by simp
  then have "(copied m d s n)(d + of_nat n := copied m d s n (s + of_nat n)) = copied m d s (Suc n)"
    using copied_step [of n m d s] Suc.prems assms(2) by simp
  then show ?case using Suc.IH [of "Suc n"] Suc.prems by (simp add: ac_simps)
qed simp

lemma copied_store:
  assumes "n + 4 \<le> N" "N < 2 ^ 32"
  shows "st32 (copied m d s n) (d + of_nat n)
     (be32 (m (s + of_nat n)) (m (s + of_nat n + 1)) (m (s + of_nat n + 2)) (m (s + of_nat n + 3)))
     = copied m d s (n + 4)"
proof -
  have c: "copied m d s (n + 4) = (((copied m d s n)(d + of_nat n := m (s + of_nat n)))
      (d + of_nat (n + 1) := m (s + of_nat (n + 1))))
      (d + of_nat (n + 2) := m (s + of_nat (n + 2)), d + of_nat (n + 3) := m (s + of_nat (n + 3)))"
  proof -
    have l: "n < 2 ^ 32" "n + 1 < 2 ^ 32" "n + 2 < 2 ^ 32" "n + 3 < 2 ^ 32" using assms by linarith+
    have e: "Suc n = n + 1" "Suc (n + 1) = n + 2" "Suc (n + 2) = n + 3" "Suc (n + 3) = n + 4" by simp_all
    show ?thesis
      unfolding copied_step [OF l(1), unfolded e] copied_step [OF l(2), unfolded e]
        copied_step [OF l(3), unfolded e] copied_step [OF l(4), unfolded e] ..
  qed
  show ?thesis unfolding c st32_def
    by (simp only: of_nat_add of_nat_1 of_nat_numeral add.assoc byte_at_1 byte_at_be32)
qed

lemma copy_words_copied:
  assumes "separate d s N" "N < 2 ^ 32"
  shows "n + 4 * j \<le> N \<Longrightarrow>
     copy_words (copied m d s n) (d + of_nat n) (s + of_nat n) j = copied m d s (n + 4 * j)"
proof (induction j arbitrary: n)
  case (Suc j)
  have r: "copied m d s n (s + of_nat (n + i)) = m (s + of_nat (n + i))" if "i < 4" for i
    using copied_source [OF assms(1), of "n + i" n m] that Suc.prems by simp
  have "ld32 (copied m d s n) (s + of_nat n) =
      be32 (m (s + of_nat n)) (m (s + of_nat n + 1)) (m (s + of_nat n + 2)) (m (s + of_nat n + 3))"
    using r [of 0] r [of 1] r [of 2] r [of 3] by (simp add: ld32_def ac_simps)
  then have "st32 (copied m d s n) (d + of_nat n) (ld32 (copied m d s n) (s + of_nat n)) = copied m d s (n + 4)"
    using copied_store [of n N m d s] Suc.prems assms(2) by simp
  then show ?case using Suc.IH [of "n + 4"] Suc.prems by (simp add: ac_simps)
qed simp

text \<open>The composing loop: \<open>r\<close> is the source's offset in its aligned word, and the last
  \<open>4 - r\<close> bytes of \<open>prev\<close> are the next bytes to store.\<close>

lemma compose_words:
  "push_bit 8 (be32 a b c d) OR drop_bit 24 (be32 e f g h) = be32 b c d e"
  "push_bit 16 (be32 a b c d) OR drop_bit 16 (be32 e f g h) = be32 c d e f"
  "push_bit 24 (be32 a b c d) OR drop_bit 8 (be32 e f g h) = be32 d e f g"
  by (subst word32_eq_bits; auto simp: all_less32 bit_simps be32_bit)+

definition tail_of :: "ram \<Rightarrow> u32 \<Rightarrow> nat \<Rightarrow> nat \<Rightarrow> nat \<Rightarrow> u32 \<Rightarrow> bool" where
  "tail_of m s N n r prev \<longleftrightarrow>
     (\<exists>b0 b1 b2 b3. prev = be32 b0 b1 b2 b3 \<and>
        (\<forall>j. r \<le> j \<longrightarrow> j < 4 \<longrightarrow> n + (j - r) < N \<longrightarrow> [b0, b1, b2, b3] ! j = m (s + of_nat (n + (j - r)))))"

lemma copied_loads:
  assumes "separate d s N" "n \<le> N" "r < 4"
  shows "\<forall>j<4. n + (4 - r) + j < N \<longrightarrow>
     [copied m d s n (s + of_nat (n + (4 - r))), copied m d s n (s + of_nat (n + (4 - r)) + 1),
      copied m d s n (s + of_nat (n + (4 - r)) + 2), copied m d s n (s + of_nat (n + (4 - r)) + 3)] ! j
     = m (s + of_nat (n + (4 - r) + j))"
proof (intro allI impI)
  fix j :: nat
  assume j: "j < 4" "n + (4 - r) + j < N"
  have "copied m d s n (s + of_nat (n + (4 - r) + j)) = m (s + of_nat (n + (4 - r) + j))"
    using copied_source [OF assms(1) j(2) assms(2)] .
  moreover have "j = 0 \<or> j = 1 \<or> j = 2 \<or> j = 3" using j(1) by arith
  ultimately show "[copied m d s n (s + of_nat (n + (4 - r))), copied m d s n (s + of_nat (n + (4 - r)) + 1),
      copied m d s n (s + of_nat (n + (4 - r)) + 2), copied m d s n (s + of_nat (n + (4 - r)) + 3)] ! j
     = m (s + of_nat (n + (4 - r) + j))"
    by (elim disjE) (simp_all add: ac_simps)
qed

lemma copy_shifted_step:
  assumes "separate d s N" "N < 2 ^ 32" "n + 4 \<le> N" "0 < r" "r < 4" "tail_of m s N n r prev"
  defines "nxt \<equiv> ld32 (copied m d s n) (s + of_nat (n + (4 - r)))"
  shows "st32 (copied m d s n) (d + of_nat n) (push_bit (8 * r) prev OR drop_bit (32 - 8 * r) nxt)
           = copied m d s (n + 4)"
    and "tail_of m s N (n + 4) r nxt"
proof -
  obtain b0 b1 b2 b3 where prev: "prev = be32 b0 b1 b2 b3"
    and b: "\<And>j. r \<le> j \<Longrightarrow> j < 4 \<Longrightarrow> n + (j - r) < N \<Longrightarrow> [b0, b1, b2, b3] ! j = m (s + of_nat (n + (j - r)))"
    using assms(6) unfolding tail_of_def by blast
  obtain c0 c1 c2 c3 where nxt: "nxt = be32 c0 c1 c2 c3"
    and c: "\<And>j. j < 4 \<Longrightarrow> n + (4 - r) + j < N \<Longrightarrow> [c0, c1, c2, c3] ! j = m (s + of_nat (n + (4 - r) + j))"
    using copied_loads [OF assms(1) _ assms(5), of n m] assms(3)
    unfolding nxt_def ld32_def by auto
  have lt: "n < N" "n + 1 < N" "n + 2 < N" "n + 3 < N" using assms(3) by linarith+
  have "push_bit (8 * r) prev OR drop_bit (32 - 8 * r) nxt =
      be32 (m (s + of_nat n)) (m (s + of_nat n + 1)) (m (s + of_nat n + 2)) (m (s + of_nat n + 3))"
  proof -
    consider "r = 1" | "r = 2" | "r = 3" using assms(4,5) by arith
    then show ?thesis
    proof cases
      assume r: "r = 1"
      show ?thesis
        using b [of 1] b [of 2] b [of 3] c [of 0] lt
        by (simp add: prev nxt compose_words r add_ac)
    next
      assume r: "r = 2"
      show ?thesis
        using b [of 2] b [of 3] c [of 0] c [of 1] lt
        by (simp add: prev nxt compose_words r add_ac)
    next
      assume r: "r = 3"
      show ?thesis
        using b [of 3] c [of 0] c [of 1] c [of 2] lt
        by (simp add: prev nxt compose_words r add_ac)
    qed
  qed
  then show "st32 (copied m d s n) (d + of_nat n) (push_bit (8 * r) prev OR drop_bit (32 - 8 * r) nxt)
           = copied m d s (n + 4)"
    using copied_store [OF assms(3,2), of m d s] by simp
  have "[c0, c1, c2, c3] ! j = m (s + of_nat (n + 4 + (j - r)))"
    if "r \<le> j" "j < 4" "n + 4 + (j - r) < N" for j
  proof -
    have e: "n + (4 - r) + j = n + 4 + (j - r)" using that assms(5) by simp
    show ?thesis using c [OF that(2)] that(3) unfolding e by blast
  qed
  then show "tail_of m s N (n + 4) r nxt" unfolding tail_of_def nxt by blast
qed

lemma copy_shifted_copied:
  assumes "separate d s N" "N < 2 ^ 32" "0 < r" "r < 4"
  shows "n + 4 * j \<le> N \<Longrightarrow> tail_of m s N n r prev \<Longrightarrow>
     copy_shifted (copied m d s n) (d + of_nat n) (s + of_nat (n + (4 - r))) (8 * r) prev j =
       copied m d s (n + 4 * j)"
proof (induction j arbitrary: n prev)
  case (Suc j)
  let ?nxt = "ld32 (copied m d s n) (s + of_nat (n + (4 - r)))"
  have n: "n + 4 \<le> N" using Suc.prems by simp
  note step = copy_shifted_step [OF assms(1,2) n assms(3,4) Suc.prems(2)]
  have e: "d + of_nat n + 4 = d + of_nat (n + 4)" "s + of_nat (n + (4 - r)) + 4 = s + of_nat (n + 4 + (4 - r))"
    by simp_all
  have le: "n + 4 + 4 * j \<le> N" using Suc.prems(1) by simp
  have a: "n + 4 + 4 * j = n + 4 * Suc j" by simp
  show ?case
    unfolding copy_shifted.simps Let_def step(1) e Suc.IH [OF le step(2)] a ..
qed simp

lemma align_count_le: "align_count a \<le> 3"
  by (simp add: align_count_def)

lemma word_align_split: "(x::u32) = (x AND NOT 3) + (x AND 3)"
proof -
  have "(x AND NOT 3) + (x AND 3) = (x AND NOT 3) OR (x AND 3)"
    by (rule disjunctive_add) (simp add: bit_simps)
  also have "\<dots> = x" by (simp add: bit.conj_disj_distrib [symmetric])
  finally show ?thesis ..
qed

lemma tail_of_start:
  assumes "separate d s N" "n \<le> N" "0 < r" "r < 4"
  shows "tail_of m s N n r (ld32 (copied m d s n) (s + of_nat n - of_nat r))"
proof -
  let ?M = "copied m d s n" and ?a = "s + of_nat n - of_nat r"
  have "[?M ?a, ?M (?a + 1), ?M (?a + 2), ?M (?a + 3)] ! j = m (s + of_nat (n + (j - r)))"
    if "r \<le> j" "j < 4" "n + (j - r) < N" for j
  proof -
    have "?a + of_nat j = s + of_nat (n + (j - r))" using that(1) by (simp add: of_nat_diff)
    moreover have "?M (s + of_nat (n + (j - r))) = m (s + of_nat (n + (j - r)))"
      using copied_source [OF assms(1) that(3) assms(2)] .
    moreover have "[?M ?a, ?M (?a + 1), ?M (?a + 2), ?M (?a + 3)] ! j = ?M (?a + of_nat j)"
    proof -
      have "j = 1 \<or> j = 2 \<or> j = 3" using that(1,2) assms(3) by arith
      then show ?thesis by (elim disjE) (simp_all add: numeral_eq_Suc)
    qed
    ultimately show ?thesis by metis
  qed
  then show ?thesis unfolding tail_of_def ld32_def by blast
qed

lemma copy_words_split:
  assumes "separate d s N" "N < 2 ^ 32" "k + 4 * (e + f) \<le> N"
  shows "copy_words (copy_words (copied m d s k) (d + of_nat k) (s + of_nat k) e)
     (d + of_nat k + 4 * of_nat e) (s + of_nat k + 4 * of_nat e) f = copied m d s (k + 4 * (e + f))"
proof -
  have le: "k + 4 * e \<le> N" "k + 4 * e + 4 * f \<le> N" using assms(3) by simp_all
  have a: "x + of_nat k + 4 * of_nat e = x + of_nat (k + 4 * e)" for x :: u32 by simp
  have b: "k + 4 * e + 4 * f = k + 4 * (e + f)" by simp
  show ?thesis
    unfolding copy_words_copied [OF assms(1,2) le(1)] a copy_words_copied [OF assms(1,2) le(2)] b ..
qed

lemma copy_shifted_aligned:
  assumes "separate d s N" "N < 2 ^ 32" "k + 4 * n \<le> N" "unat ((s + of_nat k) AND 3) \<noteq> 0"
  shows "copy_shifted (copied m d s k) (d + of_nat k) (((s + of_nat k) AND NOT 3) + 4)
     (8 * unat ((s + of_nat k) AND 3)) (ld32 (copied m d s k) ((s + of_nat k) AND NOT 3)) n
     = copied m d s (k + 4 * n)"
proof -
  define r where "r = unat ((s + of_nat k) AND 3)"
  have "unat ((s + of_nat k) AND 3) \<le> unat (3 :: u32)"
    by (rule word_and_le1 [THEN word_le_nat_alt [THEN iffD1]])
  then have r4: "0 < r" "r < 4" using assms(4) by (simp_all add: r_def)
  have base: "(s + of_nat k) AND NOT 3 = s + of_nat k - of_nat r"
    using word_align_split [of "s + of_nat k"] by (simp add: algebra_simps r_def)
  have e: "s + of_nat k - of_nat r + 4 = s + of_nat (k + (4 - r))"
    using r4 by (simp add: of_nat_diff)
  have k: "k \<le> N" using assms(3) by simp
  show ?thesis
    unfolding base e r_def [symmetric]
    by (rule copy_shifted_copied [OF assms(1,2) r4 assms(3) tail_of_start [OF assms(1) k r4]])
qed

lemma kmem_copy_eq:
  assumes "separate dst src (unat len)"
  shows "kmem_copy m dst src len =
     (\<lambda>x. if unat (x - dst) < unat len then m (src + (x - dst)) else m x)"
proof -
  let ?N = "unat len" and ?k = "align_count dst"
  have N: "?N < 2 ^ 32" using unsigned_less [of len, where 'a = nat] by simp
  have "kmem_copy m dst src len = copied m dst src ?N"
  proof (cases "dst = src \<or> \<not> 16 \<le> len")
    case True
    moreover have "?N = 0" if "dst = src" using assms that by (simp add: separate_def)
    ultimately show ?thesis
      using copy_bytes_copied [OF assms N, of 0 ?N m] by (auto simp: kmem_copy_def)
  next
    case False
    then have "16 \<le> ?N" by (simp add: word_le_nat_alt)
    define n where "n = (?N - ?k) div 4"
    have k: "?k + 4 * n \<le> ?N" using align_count_le [of dst] \<open>16 \<le> ?N\<close> by (simp add: n_def)
    let ?at = "of_nat ?k :: u32" and ?r = "unat ((src + of_nat ?k) AND 3)"
    have M: "copy_bytes m dst src ?k = copied m dst src ?k"
      using copy_bytes_copied [OF assms N, of 0 ?k m] k by simp
    have s: "n div 8 * 8 + n mod 8 = n" by (rule div_mult_mod_eq)
    then have k': "?k + 4 * (n div 8 * 8 + n mod 8) \<le> ?N" using k by simp
    note w = copy_words_split [OF assms N k', of m, unfolded s] copy_shifted_aligned [OF assms N k, of m]
    have sh: "8 * ?r = 0 \<longleftrightarrow> ?r = 0" by simp
    have "kmem_copy m dst src len =
        copy_bytes (copied m dst src (?k + 4 * n)) (dst + of_nat (?k + 4 * n)) (src + of_nat (?k + 4 * n))
          (?N - (?k + 4 * n))"
      using False w unfolding kmem_copy_def Let_def n_def [symmetric] M sh by (cases "?r = 0") simp_all
    then show ?thesis
      using copy_bytes_copied [OF assms N, of "?k + 4 * n" "?N - (?k + 4 * n)" m] k by simp
  qed
  then show ?thesis by (simp add: copied_def)
qed

text \<open>C14: For separate ranges \<open>kmem_copy\<close> writes exactly the source bytes to the destination and
  nothing else, whatever the alignment of the two addresses: the byte, word and composing loops
  together have the effect of one byte-wise copy.\<close>

theorem kmem_copy_copies:
  assumes "separate dst src (unat len)"
  shows "kmem_copy m dst src len =
     (\<lambda>x. if unat (x - dst) < unat len then m (src + (x - dst)) else m x)"
  by (rule kmem_copy_eq [OF assms])

theorem kmem_copy_copies_witness:
  "separate (0x5000 :: u32) 0x3001 20 \<and>
   kmem_copy (\<lambda>x. ucast x) 0x5000 0x3001 20 (0x5002 :: u32) = 3"
  using kmem_copy_copies [of "0x5000" "0x3001" 20 "\<lambda>x. ucast x"] by (simp add: separate_def)

definition zeroed :: "ram \<Rightarrow> u32 \<Rightarrow> nat \<Rightarrow> ram" where
  "zeroed m d n = (\<lambda>x. if unat (x - d) < n then 0 else m x)"

lemma zeroed_store:
  assumes "n + 4 \<le> N" "N \<le> 2 ^ 32"
  shows "st32 (zeroed m d n) (d + of_nat n) 0 = zeroed m d (n + 4)"
proof -
  have one: "(zeroed m d j)(d + of_nat j := 0) = zeroed m d (Suc j)" if "j < 2 ^ 32" for j
  proof
    fix x
    have j: "unat (of_nat j :: u32) = j" using that by (simp add: unat_of_nat)
    show "((zeroed m d j)(d + of_nat j := 0)) x = zeroed m d (Suc j) x"
    proof (cases "x = d + of_nat j")
      case False
      have "unat (x - d) \<noteq> j"
        using False by (metis add.commute diff_add_cancel j unsigned_word_eqI)
      with False show ?thesis by (simp add: zeroed_def less_Suc_eq)
    qed (simp add: zeroed_def j)
  qed
  have l: "n < 2 ^ 32" "n + 1 < 2 ^ 32" "n + 2 < 2 ^ 32" "n + 3 < 2 ^ 32" using assms by linarith+
  have e: "Suc n = n + 1" "Suc (n + 1) = n + 2" "Suc (n + 2) = n + 3" "Suc (n + 3) = n + 4" by simp_all
  have b: "byte_at k 0 = 0" for k by (simp add: byte_at_def)
  have "zeroed m d (n + 4) = (zeroed m d n)(d + of_nat n := 0, d + of_nat (n + 1) := 0,
      d + of_nat (n + 2) := 0, d + of_nat (n + 3) := 0)"
    unfolding one [OF l(1), unfolded e] one [OF l(2), unfolded e] one [OF l(3), unfolded e]
      one [OF l(4), unfolded e] ..
  then show ?thesis
    unfolding st32_def b by (simp only: of_nat_add of_nat_1 of_nat_numeral add.assoc)
qed

lemma zero_words_zeroed:
  "n + 4 * j \<le> 2 ^ 32 \<Longrightarrow> zero_words (zeroed m d n) (d + of_nat n) j = zeroed m d (n + 4 * j)"
proof (induction j arbitrary: n)
  case (Suc j)
  have le: "n + 4 \<le> (2::nat) ^ 32" "n + 4 + 4 * j \<le> 2 ^ 32" using Suc.prems by simp_all
  have a: "d + of_nat n + 4 = d + of_nat (n + 4)" "n + 4 + 4 * j = n + 4 * Suc j" by simp_all
  show ?case unfolding zero_words.simps zeroed_store [OF le(1) order.refl] a(1) Suc.IH [OF le(2)] a(2) ..
qed simp

lemma kmem_zero_eq:
  "kmem_zero m start end_a =
     (\<lambda>x. if unat (x - start) < 4 * (unat (end_a - start) div 4) then 0 else m x)"
proof -
  have "unat ((end_a - start) div 4) = unat (end_a - start) div 4" by (simp add: unat_div_distrib)
  moreover have "4 * (unat (end_a - start) div 4) \<le> 2 ^ 32"
    using unsigned_less [of "end_a - start", where 'a = nat] by simp
  moreover have "zeroed m start 0 = m" by (simp add: zeroed_def)
  ultimately show ?thesis
    using zero_words_zeroed [of 0 "unat (end_a - start) div 4" m start]
    by (simp add: kmem_zero_def) (simp add: zeroed_def)
qed

text \<open>\<open>kmem_zero\<close> clears exactly the whole words of the range and leaves every other byte: a
  range whose length is no multiple of four keeps its last one to three bytes.\<close>

theorem kmem_zero_zeroes:
  "kmem_zero m start end_a =
     (\<lambda>x. if unat (x - start) < 4 * (unat (end_a - start) div 4) then 0 else m x)"
  by (rule kmem_zero_eq)

end
