(* ===== verification/Mm_State.thy ===== *)
theory Mm_State
  imports Phys_Mem
begin

text \<open>
  The state of the memory manager (\<open>foundation/kernel/mm.c\<close>, \<open>mm.h\<close>): physical memory, the page
  pool, the CPU's protection state and the range-check cache, and the part of \<open>struct fnd_proc\<close>
  that the memory manager owns, kept per process index in \<open>mprocs\<close>. The counters of
  the pool are at most \<open>MAX_FRAMES\<close> and are \<open>nat\<close>; addresses, permissions and the epoch are words.
\<close>

section \<open>Constants\<close>

abbreviation MM_PAGE :: u32 where "MM_PAGE \<equiv> 4096"
abbreviation MM_PAGE_MASK :: u32 where "MM_PAGE_MASK \<equiv> 4095"
abbreviation POOL_BASE :: u32 where "POOL_BASE \<equiv> 0x00400000"
abbreviation MAX_FRAMES :: nat where "MAX_FRAMES \<equiv> 65536"
abbreviation RAM_BYTES_FALLBACK :: u32 where "RAM_BYTES_FALLBACK \<equiv> 0x01000000"
abbreviation MM_BOUNCE_BYTES :: u32 where "MM_BOUNCE_BYTES \<equiv> 0x10000"
abbreviation RANGE_CACHE :: nat where "RANGE_CACHE \<equiv> 8"

abbreviation PERM_R :: u32 where "PERM_R \<equiv> 1"
abbreviation PERM_W :: u32 where "PERM_W \<equiv> 2"
abbreviation PERM_X :: u32 where "PERM_X \<equiv> 4"

section \<open>Records\<close>

record region =
  rstart :: u32
  rend :: u32
  rflags :: u32
  owned :: bool
  mmio :: bool

record mproc =
  arena_lo :: u32
  arena_hi :: u32
  region_count :: nat
  regions :: "nat \<Rightarrow> region"
  pt_root :: u32
  vm_pages :: u32

record cache_entry =
  ce_proc :: "nat option"
  ce_page :: u32
  ce_perm :: u32
  ce_epoch :: u32

record mm_state =
  ram :: ram
  mm_vm :: bool
  mm_decided :: bool
  vm_epoch :: u32
  frame_refs :: "nat \<Rightarrow> u8"
  pool_frames :: nat
  free_frames :: nat
  next_hint :: nat
  active :: "nat option"
  active_regions :: nat
  rgn :: "nat \<Rightarrow> u32 \<times> u32 \<times> u32"
  ptbr :: u32
  vctl_en :: bool
  tlb_flushes :: nat
  range_cache :: "nat \<Rightarrow> cache_entry"
  mprocs :: "nat \<Rightarrow> mproc"

end
