(* ===== verification/Page_Pool.thy ===== *)
theory Page_Pool
  imports Mm_State
begin

text \<open>
  The page pool of both memory backends and the nommu backend's arena allocator
  (\<open>foundation/kernel/mm.c\<close>). A page is taken when its count in \<open>frame_refs\<close> is nonzero.
\<close>

section \<open>The pool\<close>

text \<open>\<open>bmc_bytes\<close> is what the BMC register reports (0 without the register).\<close>

definition mm_ram_bytes :: "u32 \<Rightarrow> u32" where
  "mm_ram_bytes bmc_bytes = (if bmc_bytes \<noteq> 0 then bmc_bytes else RAM_BYTES_FALLBACK)"

definition pool_init :: "u32 \<Rightarrow> nat \<Rightarrow> mm_state \<Rightarrow> mm_state" where
  "pool_init bmc_bytes reserved s =
     (let bytes = mm_ram_bytes bmc_bytes;
          n = (if POOL_BASE < bytes then unat ((bytes - POOL_BASE) div MM_PAGE) else 0);
          n = (if MAX_FRAMES < n then MAX_FRAMES else n)
      in s\<lparr>pool_frames := n,
           frame_refs := (\<lambda>f. if f < reserved \<and> f < n then 1 else 0),
           free_frames := n - min reserved n,
           next_hint := reserved\<rparr>)"

definition frame_taken :: "mm_state \<Rightarrow> nat \<Rightarrow> bool" where
  "frame_taken s f \<longleftrightarrow> frame_refs s f \<noteq> 0"

definition first_page :: "u32 \<Rightarrow> nat" where
  "first_page addr = unat ((addr - POOL_BASE) div MM_PAGE)"

definition range_free :: "mm_state \<Rightarrow> u32 \<Rightarrow> u32 \<Rightarrow> bool" where
  "range_free s lo hi =
     (if lo < POOL_BASE \<or> hi \<le> lo \<or> pool_frames s < unat ((hi - POOL_BASE) div MM_PAGE) \<or>
         (lo OR hi) AND MM_PAGE_MASK \<noteq> 0 then False
      else list_all (\<lambda>f. \<not> frame_taken s f) [first_page lo..<first_page hi])"

definition range_take :: "u32 \<Rightarrow> u32 \<Rightarrow> mm_state \<Rightarrow> mm_state" where
  "range_take lo hi s =
     s\<lparr>frame_refs := (\<lambda>f. if first_page lo \<le> f \<and> f < first_page hi then 1 else frame_refs s f),
       free_frames := free_frames s - unat ((hi - lo) div MM_PAGE)\<rparr>"

section \<open>The arena allocator\<close>

definition mm_arena_claim :: "u32 \<Rightarrow> u32 \<Rightarrow> mm_state \<Rightarrow> int \<times> mm_state" where
  "mm_arena_claim lo hi s =
     (let lo = lo AND NOT MM_PAGE_MASK; hi = (hi + MM_PAGE_MASK) AND NOT MM_PAGE_MASK in
      if lo < POOL_BASE \<or> hi \<le> lo \<or> pool_frames s < unat ((hi - POOL_BASE) div MM_PAGE)
      then (FND_E_NO_MEMORY, s)
      else if \<not> range_free s lo hi then (FND_E_ADDRESS_CONFLICT, s)
      else (FND_OK, range_take lo hi s))"

text \<open>The first-fit scan: the index of the last page of the first long enough free run.\<close>

function arena_scan :: "mm_state \<Rightarrow> nat \<Rightarrow> nat \<Rightarrow> nat \<Rightarrow> nat option" where
  "arena_scan s pages f run =
     (if f < pool_frames s then
        let run = (if frame_taken s f then 0 else run + 1) in
        if run = pages then Some f else arena_scan s pages (f + 1) run
      else None)"
  by pat_completeness auto
termination by (relation "measure (\<lambda>(s, _, f, _). pool_frames s - f)") auto

declare arena_scan.simps [simp del]

definition mm_arena_alloc :: "u32 \<Rightarrow> mm_state \<Rightarrow> u32 \<times> mm_state" where
  "mm_arena_alloc bytes s =
     (let pages = unat ((bytes + MM_PAGE_MASK) div MM_PAGE) in
      if pages = 0 \<or> free_frames s < pages then (0, s)
      else case arena_scan s pages 0 0 of None \<Rightarrow> (0, s)
        | Some f \<Rightarrow>
            let lo = POOL_BASE + of_nat (f + 1 - pages) * MM_PAGE in
            (lo, range_take lo (lo + of_nat pages * MM_PAGE) s))"

definition free_page :: "nat \<Rightarrow> mm_state \<Rightarrow> mm_state" where
  "free_page f s =
     (if frame_taken s f
      then s\<lparr>frame_refs := (frame_refs s)(f := 0), free_frames := free_frames s + 1\<rparr> else s)"

definition mm_arena_free :: "u32 \<Rightarrow> u32 \<Rightarrow> mm_state \<Rightarrow> mm_state" where
  "mm_arena_free lo hi s =
     (if lo < POOL_BASE \<or> hi \<le> lo then s
      else fold free_page [first_page lo..<first_page ((hi + MM_PAGE_MASK) AND NOT MM_PAGE_MASK)] s)"

definition mm_arena_extend :: "u32 \<Rightarrow> u32 \<Rightarrow> mm_state \<Rightarrow> bool \<times> mm_state" where
  "mm_arena_extend hi new_hi s =
     (if new_hi \<le> hi \<or> (hi OR new_hi) AND MM_PAGE_MASK \<noteq> 0 \<or> \<not> range_free s hi new_hi
      then (False, s) else (True, range_take hi new_hi s))"

definition mm_arena_free_bytes :: "mm_state \<Rightarrow> u32" where
  "mm_arena_free_bytes s = of_nat (free_frames s) * MM_PAGE"

section \<open>Frames of the vm backend\<close>

definition mm_bounce :: u32 where
  "mm_bounce = POOL_BASE"

definition frame_addr :: "nat \<Rightarrow> u32" where
  "frame_addr f = POOL_BASE + of_nat f * MM_PAGE"

function frame_scan :: "mm_state \<Rightarrow> nat \<Rightarrow> nat option" where
  "frame_scan s n =
     (if n < pool_frames s then
        let f = next_hint s + n; f = (if pool_frames s \<le> f then f - pool_frames s else f) in
        if frame_refs s f = 0 then Some f else frame_scan s (n + 1)
      else None)"
  by pat_completeness auto
termination by (relation "measure (\<lambda>(s, n). pool_frames s - n)") auto

declare frame_scan.simps [simp del]

definition frame_alloc :: "mm_state \<Rightarrow> u32 \<times> mm_state" where
  "frame_alloc s =
     (if free_frames s = 0 then (0, s)
      else case frame_scan s 0 of None \<Rightarrow> (0, s)
        | Some f \<Rightarrow>
            let pa = frame_addr f in
            (pa, s\<lparr>frame_refs := (frame_refs s)(f := 1), free_frames := free_frames s - 1,
                   next_hint := f + 1, ram := kmem_zero (ram s) pa (pa + MM_PAGE)\<rparr>))"

definition frame_free :: "u32 \<Rightarrow> mm_state \<Rightarrow> mm_state" where
  "frame_free pa s =
     (let f = unat ((pa - POOL_BASE) div MM_PAGE) in
      if pa < POOL_BASE \<or> pool_frames s \<le> f \<or> frame_refs s f = 0 then s
      else let r = frame_refs s f - 1;
               s = s\<lparr>frame_refs := (frame_refs s)(f := r)\<rparr>
           in if r = 0 then s\<lparr>free_frames := free_frames s + 1\<rparr> else s)"

definition mm_vm_free_bytes :: "mm_state \<Rightarrow> u32" where
  "mm_vm_free_bytes s = of_nat (free_frames s) * MM_PAGE"

definition mm_vm_proc_bytes :: "mm_state \<Rightarrow> nat \<Rightarrow> u32" where
  "mm_vm_proc_bytes s p = vm_pages (mprocs s p) * MM_PAGE"

section \<open>The pool's invariant\<close>

text \<open>What a client sees of the pool: the set of its free pages. The counter, the hint and the
  counts beyond the installed memory are tied to it by \<open>pool_ok\<close>.\<close>

definition free_set :: "mm_state \<Rightarrow> nat set" where
  "free_set s = {f. f < pool_frames s \<and> frame_refs s f = 0}"

definition pool_ok :: "mm_state \<Rightarrow> bool" where
  "pool_ok s \<longleftrightarrow> pool_frames s \<le> MAX_FRAMES \<and> next_hint s \<le> pool_frames s \<and>
     free_frames s = card (free_set s) \<and> (\<forall>f. pool_frames s \<le> f \<longrightarrow> frame_refs s f = 0)"

lemma finite_free_set [simp]: "finite (free_set s)"
  by (simp add: free_set_def)

text \<open>A pool of four pages whose second one is taken, the input of the examples below.\<close>

definition sample_pool :: mm_state where
  "sample_pool = undefined\<lparr>frame_refs := (\<lambda>f. if f = 1 then 1 else 0), pool_frames := 4,
     free_frames := 3, next_hint := 0\<rparr>"

lemma sample_pool_free: "free_set sample_pool = {0, 2, 3}"
  by (auto simp: free_set_def sample_pool_def)

lemma sample_pool_ok: "pool_ok sample_pool"
  by (simp add: pool_ok_def sample_pool_free) (simp add: sample_pool_def)

lemma first_page_addr:
  assumes "k \<le> MAX_FRAMES"
  shows "first_page (POOL_BASE + of_nat k * MM_PAGE) = k"
proof -
  have "k * 4096 < 2 ^ 32" using assms by simp
  then have "unat (of_nat k * MM_PAGE) = k * 4096"
    using assms by (simp add: unat_word_ariths unat_of_nat)
  then show ?thesis by (simp add: first_page_def unat_div_distrib)
qed

lemma first_page_le:
  assumes "POOL_BASE \<le> lo" "lo \<le> hi"
  shows "first_page lo \<le> first_page hi"
proof -
  have "lo - POOL_BASE \<le> hi - POOL_BASE" using assms by (simp add: word_le_minus_mono_left)
  then show ?thesis by (simp add: first_page_def unat_div_distrib word_le_nat_alt div_le_mono)
qed

text \<open>The arithmetic of page-aligned addresses at or above the pool.\<close>

lemma page_aligned_iff: "(a::u32) AND MM_PAGE_MASK = 0 \<longleftrightarrow> 4096 dvd unat a"
proof -
  have "a AND MM_PAGE_MASK = take_bit 12 a" by (simp add: take_bit_eq_mask mask_eq_exp_minus_1)
  then have "unat (a AND MM_PAGE_MASK) = unat a mod 4096" by (simp add: take_bit_eq_mod unat_mod_distrib)
  then show ?thesis by (metis dvd_eq_mod_eq_0 unat_eq_zero)
qed

lemma page_split: "unat ((a::u32) AND NOT MM_PAGE_MASK) = unat a div 4096 * 4096"
proof -
  have s: "(a AND NOT MM_PAGE_MASK) + (a AND MM_PAGE_MASK) = a"
  proof -
    have "(a AND NOT MM_PAGE_MASK) + (a AND MM_PAGE_MASK) = (a AND NOT MM_PAGE_MASK) OR (a AND MM_PAGE_MASK)"
      by (rule disjunctive_add) (simp add: bit_simps)
    then show ?thesis by (simp add: bit.conj_disj_distrib [symmetric])
  qed
  have m: "unat (a AND MM_PAGE_MASK) = unat a mod 4096"
  proof -
    have "a AND MM_PAGE_MASK = take_bit 12 a" by (simp add: take_bit_eq_mask mask_eq_exp_minus_1)
    then show ?thesis by (simp add: take_bit_eq_mod unat_mod_distrib)
  qed
  have e: "a AND NOT MM_PAGE_MASK = a - (a AND MM_PAGE_MASK)" using s by (simp add: algebra_simps)
  have "a AND MM_PAGE_MASK \<le> a" using m by (simp add: word_le_nat_alt)
  then have "unat (a - (a AND MM_PAGE_MASK)) = unat a - unat (a AND MM_PAGE_MASK)" by (rule unat_sub)
  then show ?thesis unfolding e m by (simp add: minus_mod_eq_div_mult)
qed

lemma or_page_mask:
  "((a::u32) OR b) AND MM_PAGE_MASK = 0 \<longleftrightarrow> a AND MM_PAGE_MASK = 0 \<and> b AND MM_PAGE_MASK = 0"
  by (auto simp: bit_eq_iff bit_simps)

lemma frame_addr_unat:
  assumes "f \<le> MAX_FRAMES"
  shows "unat (frame_addr f) = 0x400000 + 4096 * f"
  using assms by (simp add: frame_addr_def unat_word_ariths unat_of_nat)

lemma first_page_frame_addr [simp]: "f \<le> MAX_FRAMES \<Longrightarrow> first_page (frame_addr f) = f"
  by (simp add: frame_addr_def first_page_addr)

lemma aligned_frame_addr:
  assumes "POOL_BASE \<le> a" "a AND MM_PAGE_MASK = 0"
  shows "frame_addr (first_page a) = a"
proof -
  obtain k where k: "unat a = 4096 * k" using assms(2) by (auto simp: page_aligned_iff)
  have b: "0x400000 \<le> unat a" using assms(1) by (simp add: word_le_nat_alt)
  have "unat (a - POOL_BASE) = unat a - 0x400000" using unat_sub [OF assms(1)] by simp
  then have u: "unat ((a - POOL_BASE) div MM_PAGE) = k - 1024" using k b by (simp add: unat_div_distrib)
  have "frame_addr (first_page a) = POOL_BASE + of_nat (k - 1024) * MM_PAGE"
    by (simp only: frame_addr_def first_page_def u)
  then have "unat (frame_addr (first_page a)) = unat a"
    using k b unsigned_less [of a, where 'a = nat] by (simp add: unat_word_ariths unat_of_nat)
  then show ?thesis by (rule unsigned_word_eqI)
qed

lemma frame_addr_diff:
  assumes "i \<le> j" "j \<le> MAX_FRAMES"
  shows "unat ((frame_addr j - frame_addr i) div MM_PAGE) = j - i"
proof -
  have "frame_addr i \<le> frame_addr j" using assms by (simp add: word_le_nat_alt frame_addr_unat)
  then have "unat (frame_addr j - frame_addr i) = unat (frame_addr j) - unat (frame_addr i)" by (rule unat_sub)
  also have "\<dots> = 4096 * (j - i)" using assms by (simp add: frame_addr_unat algebra_simps)
  finally show ?thesis by (simp add: unat_div_distrib)
qed

lemma frame_addr_aligned: "f \<le> MAX_FRAMES \<Longrightarrow> frame_addr f AND MM_PAGE_MASK = 0"
  by (simp add: page_aligned_iff frame_addr_unat)

lemma frame_addr_ge: "f \<le> MAX_FRAMES \<Longrightarrow> POOL_BASE \<le> frame_addr f"
  by (simp add: word_le_nat_alt frame_addr_unat)

lemma frame_addr_less_iff: "i \<le> MAX_FRAMES \<Longrightarrow> j \<le> MAX_FRAMES \<Longrightarrow> frame_addr i < frame_addr j \<longleftrightarrow> i < j"
  by (simp add: word_less_nat_alt frame_addr_unat)

lemma range_free_iff:
  assumes "pool_frames s \<le> MAX_FRAMES"
  shows "range_free s lo hi \<longleftrightarrow>
     (\<exists>i j. lo = frame_addr i \<and> hi = frame_addr j \<and> i < j \<and> j \<le> pool_frames s \<and> {i..<j} \<subseteq> free_set s)"
    (is "_ \<longleftrightarrow> ?R")
proof
  assume r: "range_free s lo hi"
  then have a: "POOL_BASE \<le> lo" "lo < hi" "lo AND MM_PAGE_MASK = 0" "hi AND MM_PAGE_MASK = 0"
    "first_page hi \<le> pool_frames s"
    "\<forall>f\<in>set [first_page lo..<first_page hi]. \<not> frame_taken s f"
    by (auto simp: range_free_def or_page_mask first_page_def list_all_iff split: if_splits)
  then have hi: "POOL_BASE \<le> hi" by (meson le_less_trans less_imp_le)
  have e: "lo = frame_addr (first_page lo)" "hi = frame_addr (first_page hi)"
    using aligned_frame_addr [OF a(1,3)] aligned_frame_addr [OF hi a(4)] by simp_all
  have "first_page lo \<noteq> first_page hi" using e a(2) by auto
  moreover have "first_page lo \<le> first_page hi" using first_page_le [OF a(1)] a(2) by simp
  ultimately have lt: "first_page lo < first_page hi" by simp
  have "{first_page lo..<first_page hi} \<subseteq> free_set s"
    using a(5,6) by (auto simp: free_set_def frame_taken_def)
  then show ?R using e lt a(5) by blast
next
  assume ?R
  then obtain i j where e: "lo = frame_addr i" "hi = frame_addr j" "i < j" "j \<le> pool_frames s"
    "{i..<j} \<subseteq> free_set s" by blast
  have m: "i \<le> MAX_FRAMES" "j \<le> MAX_FRAMES" using e(3,4) assms by simp_all
  have "lo < hi" using e m by (simp add: frame_addr_less_iff)
  moreover have "unat ((hi - POOL_BASE) div MM_PAGE) = j"
    using first_page_frame_addr [OF m(2)] e(2) by (simp add: first_page_def)
  moreover have "first_page lo = i" "first_page hi = j" using e m by simp_all
  ultimately show "range_free s lo hi"
    using e m by (auto simp: range_free_def or_page_mask frame_addr_aligned frame_addr_ge not_less
        not_le list_all_iff frame_taken_def free_set_def)
qed

lemma range_take_free_set:
  assumes "i \<le> MAX_FRAMES" "j \<le> MAX_FRAMES"
  shows "free_set (range_take (frame_addr i) (frame_addr j) s) = free_set s - {i..<j}"
  using assms by (auto simp: free_set_def range_take_def)

lemma range_take_pool_ok:
  assumes ok: "pool_ok s" and ij: "i \<le> j" "j \<le> pool_frames s" and free: "{i..<j} \<subseteq> free_set s"
  shows "pool_ok (range_take (frame_addr i) (frame_addr j) s)"
proof -
  have m: "i \<le> MAX_FRAMES" "j \<le> MAX_FRAMES" using ok ij by (simp_all add: pool_ok_def)
  have "card (free_set s - {i..<j}) = card (free_set s) - (j - i)"
    using free by (simp add: card_Diff_subset)
  moreover have "free_frames (range_take (frame_addr i) (frame_addr j) s) = free_frames s - (j - i)"
    using frame_addr_diff [OF ij(1) m(2)] by (simp add: range_take_def)
  moreover have "frame_refs (range_take (frame_addr i) (frame_addr j) s) f = 0" if "pool_frames s \<le> f" for f
    using ok ij that m by (auto simp: range_take_def pool_ok_def)
  moreover have "pool_frames (range_take lo hi s) = pool_frames s" "next_hint (range_take lo hi s) = next_hint s"
    for lo hi by (simp_all add: range_take_def)
  ultimately show ?thesis
    using ok range_take_free_set [OF m, of s] by (simp add: pool_ok_def)
qed

text \<open>The scan is the search for the first long enough run: \<open>run\<close> is the length of the free run
  that ends before \<open>f\<close>.\<close>

definition free_run :: "mm_state \<Rightarrow> nat \<Rightarrow> nat \<Rightarrow> bool" where
  "free_run s lo pages \<longleftrightarrow> {lo..<lo + pages} \<subseteq> free_set s"

lemma arena_scan_Some:
  assumes "arena_scan s pages f run = Some g" "0 < pages" "run \<le> f" "f \<le> pool_frames s"
    "{f - run..<f} \<subseteq> free_set s" "run < pages"
  shows "g < pool_frames s \<and> pages \<le> g + 1 \<and> f \<le> g \<and> free_run s (g + 1 - pages) pages"
  using assms
proof (induction s pages f run rule: arena_scan.induct)
  case (1 s pages f run)
  show ?case
  proof (cases "f < pool_frames s")
    case False
    then show ?thesis using "1.prems"(1) by (simp add: arena_scan.simps)
  next
    case True
    define run' where "run' = (if frame_taken s f then 0 else run + 1)"
    have r: "run' \<le> f + 1" "{f + 1 - run'..<f + 1} \<subseteq> free_set s" "run' \<le> pages"
      using "1.prems"(3,5,6) True
      by (auto simp: run'_def frame_taken_def free_set_def less_Suc_eq)
    show ?thesis
    proof (cases "run' = pages")
      case True
      then have "g = f" using "1.prems"(1) \<open>f < pool_frames s\<close>
        by (simp add: arena_scan.simps [of s pages f] run'_def Let_def)
      then show ?thesis
        using r True \<open>f < pool_frames s\<close> by (simp add: free_run_def)
    next
      case False
      have "arena_scan s pages (f + 1) run' = Some g"
        using "1.prems"(1) False True by (simp add: arena_scan.simps [of s pages f] run'_def Let_def)
      then show ?thesis
        using "1.IH" [OF True run'_def] False "1.prems"(2) r True by simp
    qed
  qed
qed

lemma arena_scan_finds:
  assumes "free_run s lo pages" "0 < pages" "f \<le> lo + run" "run < pages"
  shows "\<exists>g. arena_scan s pages f run = Some g \<and> g + 1 \<le> lo + pages"
  using assms
proof (induction s pages f run rule: arena_scan.induct)
  case (1 s pages f run)
  have "lo + pages - 1 \<in> free_set s" using "1.prems"(1,2) by (auto simp: free_run_def)
  then have f: "f < pool_frames s" using "1.prems" by (auto simp: free_set_def)
  define run' where "run' = (if frame_taken s f then 0 else run + 1)"
  have le: "f + 1 \<le> lo + run'"
  proof (cases "frame_taken s f")
    case True
    then have "f \<notin> {lo..<lo + pages}"
      using "1.prems"(1) by (auto simp: free_run_def frame_taken_def free_set_def)
    then have "f < lo" using "1.prems"(3,4) by auto
    then show ?thesis by (simp add: run'_def True)
  qed (use "1.prems"(3) in \<open>simp add: run'_def\<close>)
  show ?case
  proof (cases "run' = pages")
    case True
    then show ?thesis using f le by (simp add: arena_scan.simps [of s pages f] run'_def Let_def)
  next
    case False
    then have "run' < pages" using "1.prems"(2,4) by (simp add: run'_def split: if_splits)
    then show ?thesis
      using "1.IH" [OF f run'_def False "1.prems"(1,2) le] f False
      by (simp add: arena_scan.simps [of s pages f] run'_def Let_def)
  qed
qed

lemma free_run_card:
  assumes "pool_ok s" "free_run s lo pages"
  shows "pages \<le> free_frames s"
  using card_mono [OF finite_free_set assms(2) [unfolded free_run_def]] assms(1) by (simp add: pool_ok_def)

lemma free_run_bound:
  assumes "free_run s lo pages" "0 < pages"
  shows "lo + pages \<le> pool_frames s"
proof -
  have "lo + pages - 1 \<in> free_set s" using assms by (auto simp: free_run_def)
  then show ?thesis by (auto simp: free_set_def)
qed

text \<open>C15: \<open>mm_arena_alloc\<close> is first fit and complete: it hands out the lowest run of free pages that is
  long enough, takes exactly its pages, and returns 0 (changing nothing) only for a
  size of no page or when no run of that length is free.\<close>

theorem arena_alloc_first_fit:
  assumes "pool_ok s"
  defines "pages \<equiv> \<lambda>bytes. unat ((bytes + MM_PAGE_MASK) div MM_PAGE)"
  shows "case mm_arena_alloc bytes s of (lo, s') \<Rightarrow>
     if lo = 0 then s' = s \<and> (pages bytes = 0 \<or> (\<forall>q. \<not> free_run s q (pages bytes)))
     else \<exists>q. lo = frame_addr q \<and> free_run s q (pages bytes) \<and> (\<forall>r<q. \<not> free_run s r (pages bytes)) \<and>
            free_set s' = free_set s - {q..<q + pages bytes} \<and> pool_ok s'"
proof -
  define n where "n = pages bytes"
  have n: "unat ((bytes + MM_PAGE_MASK) div MM_PAGE) = n" by (simp add: n_def pages_def)
  consider "n = 0 \<or> free_frames s < n" | "0 < n" "n \<le> free_frames s" "arena_scan s n 0 0 = None"
    | g where "0 < n" "n \<le> free_frames s" "arena_scan s n 0 0 = Some g" by fastforce
  then show ?thesis
  proof cases
    case 1
    then have "n = 0 \<or> (\<forall>q. \<not> free_run s q n)" using free_run_card [OF assms(1)] by fastforce
    then show ?thesis using 1 by (simp add: mm_arena_alloc_def n n_def [symmetric])
  next
    case 2
    have "\<not> free_run s q n" for q using arena_scan_finds [of s q n 0 0] 2 by auto
    then show ?thesis using 2 by (simp add: mm_arena_alloc_def n n_def [symmetric])
  next
    case 3
    have g: "n \<le> g + 1" "free_run s (g + 1 - n) n" using arena_scan_Some [OF 3(3)] 3 by simp_all
    let ?q = "g + 1 - n"
    have b: "?q + n \<le> pool_frames s" using free_run_bound [OF g(2) 3(1)] .
    then have m: "?q \<le> MAX_FRAMES" "?q + n \<le> MAX_FRAMES" using assms(1) by (simp_all add: pool_ok_def)
    have a: "frame_addr ?q + of_nat n * MM_PAGE = frame_addr (?q + n)"
      by (simp add: frame_addr_def algebra_simps)
    have ne: "frame_addr ?q \<noteq> 0" using frame_addr_unat [OF m(1)] by fastforce
    have low: "\<not> free_run s r n" if "r < ?q" for r
      using arena_scan_finds [of s r n 0 0] 3 that by fastforce
    have "mm_arena_alloc bytes s = (frame_addr ?q, range_take (frame_addr ?q) (frame_addr (?q + n)) s)"
      using 3 unfolding a [symmetric] by (simp add: mm_arena_alloc_def n Let_def frame_addr_def)
    moreover have "pool_ok (range_take (frame_addr ?q) (frame_addr (?q + n)) s)"
      using range_take_pool_ok [OF assms(1) _ b] g(2) by (simp add: free_run_def)
    ultimately show ?thesis
      using ne g(2) low range_take_free_set [OF m, of s] by (auto simp: n_def [symmetric])
  qed
qed

theorem arena_alloc_first_fit_witness:
  "\<exists>s. pool_ok s \<and> free_frames s = 3 \<and> fst (mm_arena_alloc 0x1800 s) = 0x402000 \<and>
     (case mm_arena_alloc 0x1800 s of (lo, s') \<Rightarrow>
        if lo = 0 then s' = s \<and> (unat ((0x1800 + MM_PAGE_MASK) div MM_PAGE) = 0 \<or>
            (\<forall>q. \<not> free_run s q (unat ((0x1800 + MM_PAGE_MASK) div MM_PAGE))))
        else \<exists>q. lo = frame_addr q \<and> free_run s q (unat ((0x1800 + MM_PAGE_MASK) div MM_PAGE)) \<and>
            (\<forall>r<q. \<not> free_run s r (unat ((0x1800 + MM_PAGE_MASK) div MM_PAGE))) \<and>
            free_set s' = free_set s - {q..<q + unat ((0x1800 + MM_PAGE_MASK) div MM_PAGE)} \<and> pool_ok s')"
proof -
  define s where s: "s = sample_pool"
  have s_def: "frame_refs s = (\<lambda>f. if f = 1 then 1 else 0)" "pool_frames s = 4" "free_frames s = 3"
    "next_hint s = 0" by (simp_all add: s sample_pool_def)
  have ok: "pool_ok s" by (simp only: sample_pool_ok s)
  have "fst (mm_arena_alloc 0x1800 s) = 0x402000"
    by (simp add: mm_arena_alloc_def s_def frame_taken_def arena_scan.simps Let_def)
  moreover have "free_frames s = 3" by (simp add: s_def)
  ultimately show ?thesis
    by (intro exI [of _ s] conjI ok) (assumption | rule arena_alloc_first_fit [OF ok])+
qed

section \<open>Freeing, claiming and extending\<close>

lemma free_page_pool:
  assumes "pool_ok s"
  shows "pool_ok (free_page f s) \<and> frame_refs (free_page f s) = (frame_refs s)(f := 0) \<and>
     pool_frames (free_page f s) = pool_frames s"
proof (cases "frame_taken s f")
  case True
  then have f: "f < pool_frames s" "f \<notin> free_set s"
    using assms by (auto simp: pool_ok_def frame_taken_def free_set_def intro: ccontr)
  have "free_set (free_page f s) = insert f (free_set s)"
    using True f by (auto simp: free_page_def free_set_def)
  then have "card (free_set (free_page f s)) = free_frames s + 1" using f assms by (simp add: pool_ok_def)
  then show ?thesis using True assms by (simp add: pool_ok_def free_page_def)
next
  case False
  then show ?thesis using assms by (auto simp: free_page_def frame_taken_def)
qed

lemma fold_free_page:
  assumes "pool_ok s"
  shows "pool_ok (fold free_page xs s) \<and>
     frame_refs (fold free_page xs s) = (\<lambda>f. if f \<in> set xs then 0 else frame_refs s f) \<and>
     pool_frames (fold free_page xs s) = pool_frames s"
  using assms
proof (induction xs arbitrary: s)
  case (Cons f xs)
  then show ?case using free_page_pool [OF Cons.prems, of f] by (auto simp: fun_eq_iff)
qed simp

lemma fold_free_page_frame:
  "\<exists>r n. fold free_page xs s = s\<lparr>frame_refs := r, free_frames := n\<rparr>"
proof (induction xs arbitrary: s)
  case Nil
  then show ?case by (metis fold_simps(1) mm_state.surjective mm_state.update_convs(5,7))
next
  case (Cons f xs)
  obtain r n where 1: "fold free_page xs (free_page f s) = (free_page f s)\<lparr>frame_refs := r, free_frames := n\<rparr>"
    using Cons.IH by blast
  have "(free_page f s)\<lparr>frame_refs := r, free_frames := n\<rparr> = s\<lparr>frame_refs := r, free_frames := n\<rparr>"
    by (simp add: free_page_def)
  then show ?case using 1 by auto
qed

lemma pool_eqI:
  assumes "pool_ok s" "pool_ok t" "t = s\<lparr>frame_refs := r, free_frames := n\<rparr>" "r = frame_refs s"
  shows "t = s"
proof -
  have "free_set t = free_set s" using assms(3,4) by (simp add: free_set_def)
  then have "n = free_frames s" using assms(1-3) by (simp add: pool_ok_def)
  then show ?thesis using assms(3,4) by simp
qed

definition round_up :: "u32 \<Rightarrow> u32" where
  "round_up a = (a + MM_PAGE_MASK) AND NOT MM_PAGE_MASK"

text \<open>C17: \<open>mm_arena_free\<close> frees exactly the pages that \<open>[lo, hi)\<close> touches, the last one too when
  \<open>hi\<close> ends inside it, and keeps the count of free pages right even where pages of the range were
  already free.\<close>

theorem arena_free_spec:
  assumes "pool_ok s" "POOL_BASE \<le> lo" "lo < hi"
  shows "pool_ok (mm_arena_free lo hi s) \<and>
     free_set (mm_arena_free lo hi s) =
       free_set s \<union> {f. f < pool_frames s \<and> first_page lo \<le> f \<and> f < first_page (round_up hi)}"
  using fold_free_page [OF assms(1), of "[first_page lo..<first_page (round_up hi)]"] assms(2,3)
  by (auto simp: mm_arena_free_def free_set_def round_up_def)

text \<open>Freeing the pages of a free range that was taken gives the pool back.\<close>

lemma take_free:
  assumes "pool_ok s" "i \<le> j" "j \<le> pool_frames s" "{i..<j} \<subseteq> free_set s"
  shows "fold free_page [i..<j] (range_take (frame_addr i) (frame_addr j) s) = s"
proof -
  let ?t = "range_take (frame_addr i) (frame_addr j) s"
  have m: "i \<le> MAX_FRAMES" "j \<le> MAX_FRAMES" using assms by (simp_all add: pool_ok_def)
  note f = fold_free_page [OF range_take_pool_ok [OF assms], of "[i..<j]"]
  have "frame_refs (fold free_page [i..<j] ?t) = frame_refs s"
    using f assms(4) m by (auto simp: fun_eq_iff range_take_def free_set_def)
  moreover obtain k l where "fold free_page [i..<j] ?t = ?t\<lparr>frame_refs := k, free_frames := l\<rparr>"
    using fold_free_page_frame by blast
  ultimately have "fold free_page [i..<j] ?t = s\<lparr>frame_refs := frame_refs s, free_frames := l\<rparr>"
    by (simp add: range_take_def)
  then show ?thesis using pool_eqI [OF assms(1)] f by blast
qed

lemma arena_free_pages:
  assumes "i < j" "j \<le> MAX_FRAMES" "round_up hi = frame_addr j" "frame_addr i < hi"
  shows "mm_arena_free (frame_addr i) hi s = fold free_page [i..<j] s"
proof -
  have m: "i \<le> MAX_FRAMES" using assms by simp
  then have "\<not> (frame_addr i < POOL_BASE \<or> hi \<le> frame_addr i)"
    using frame_addr_ge [OF m] assms(4) by (simp add: not_le not_less)
  then show ?thesis
    unfolding mm_arena_free_def assms(3) [unfolded round_up_def] first_page_frame_addr [OF m]
      first_page_frame_addr [OF assms(2)] by simp
qed

text \<open>An arena that was handed out: a free run, taken.\<close>

lemma arena_alloc_taken:
  assumes "pool_ok s" "mm_arena_alloc bytes s = (lo, s')" "lo \<noteq> 0"
  obtains i n where "n = unat ((bytes + MM_PAGE_MASK) div MM_PAGE)" "0 < n" "lo = frame_addr i" "i + n \<le> pool_frames s"
    "{i..<i + n} \<subseteq> free_set s" "s' = range_take (frame_addr i) (frame_addr (i + n)) s"
proof -
  define n where "n = unat ((bytes + MM_PAGE_MASK) div MM_PAGE)"
  obtain g where g: "0 < n" "arena_scan s n 0 0 = Some g"
    and lo: "lo = POOL_BASE + of_nat (g + 1 - n) * MM_PAGE" and s': "s' = range_take lo (lo + of_nat n * MM_PAGE) s"
    using assms(2,3) by (auto simp: mm_arena_alloc_def n_def [symmetric] Let_def split: if_splits option.splits)
  have run: "free_run s (g + 1 - n) n" using arena_scan_Some [OF g(2,1)] g(1) by simp
  show ?thesis
    by (rule that [OF n_def g(1) _ free_run_bound [OF run g(1)] run [unfolded free_run_def]])
       (simp_all add: s' lo frame_addr_def algebra_simps)
qed

lemma round_up_frame:
  assumes "q + n \<le> MAX_FRAMES" "n = unat ((bytes + MM_PAGE_MASK) div MM_PAGE)" "0 < n"
  shows "round_up (frame_addr q + bytes) = frame_addr (q + n)" "frame_addr q < frame_addr q + bytes"
proof -
  let ?b = "unat bytes"
  have nw: "?b + 4095 < 2 ^ 32"
  proof (rule ccontr)
    assume "\<not> ?thesis"
    then have "unat (bytes + MM_PAGE_MASK) = ?b + 4095 - 2 ^ 32"
      using unsigned_less [of bytes, where 'a = nat] by (simp add: unat_word_ariths mod_if)
    then show False using assms(2,3) unsigned_less [of bytes, where 'a = nat] by (simp add: unat_div_distrib)
  qed
  then have "unat (bytes + MM_PAGE_MASK) = ?b + 4095" by (simp add: unat_word_ariths)
  then have n: "n = (?b + 4095) div 4096" using assms(2) by (simp add: unat_div_distrib)
  then have b: "?b \<le> 4096 * n" "0 < ?b" using assms(3) by (auto intro: ccontr)
  have q: "unat (frame_addr q) = 0x400000 + 4096 * q" using assms(1) by (simp add: frame_addr_unat)
  have s: "unat (frame_addr q + bytes) = 0x400000 + 4096 * q + ?b"
    using q b assms(1) by (simp add: unat_word_ariths)
  then show "frame_addr q < frame_addr q + bytes" using q b by (simp add: word_less_nat_alt)
  have "unat (frame_addr q + bytes + MM_PAGE_MASK) = 0x400000 + 4096 * q + ?b + 4095"
    using s b assms(1) by (simp add: unat_word_ariths)
  then have "unat (round_up (frame_addr q + bytes)) = (0x400000 + 4096 * q + ?b + 4095) div 4096 * 4096"
    unfolding round_up_def page_split by simp
  also have "0x400000 + 4096 * q + ?b + 4095 = 4096 * (1024 + q) + (?b + 4095)" by simp
  also have "(4096 * (1024 + q) + (?b + 4095)) div 4096 * 4096 = 0x400000 + 4096 * (q + n)"
    unfolding n by (subst div_mult_self4) (simp_all add: algebra_simps)
  also have "\<dots> = unat (frame_addr (q + n))" using assms(1) by (simp add: frame_addr_unat)
  finally show "round_up (frame_addr q + bytes) = frame_addr (q + n)" by (rule unsigned_word_eqI)
qed

lemma alloc_free:
  assumes "pool_ok s" "mm_arena_alloc bytes s = (lo, s')" "lo \<noteq> 0"
  shows "mm_arena_free lo (lo + bytes) s' = s"
proof -
  obtain i n where n: "n = unat ((bytes + MM_PAGE_MASK) div MM_PAGE)" "0 < n" and lo: "lo = frame_addr i"
    and b: "i + n \<le> pool_frames s" "{i..<i + n} \<subseteq> free_set s" and s': "s' = range_take (frame_addr i) (frame_addr (i + n)) s"
    by (rule arena_alloc_taken [OF assms])
  have m: "i + n \<le> MAX_FRAMES" using b assms(1) by (simp add: pool_ok_def)
  note r = round_up_frame [OF m n]
  show ?thesis
    unfolding lo s' arena_free_pages [OF less_add_same_cancel1 [THEN iffD2, OF n(2)] m r]
    by (rule take_free [OF assms(1) le_add1 b])
qed

lemma arena_alloc_none:
  assumes "pool_ok s" "mm_arena_alloc bytes s = (0, s')"
  shows "s' = s"
proof (rule ccontr)
  assume "s' \<noteq> s"
  then obtain n g where g: "0 < n" "arena_scan s n 0 0 = Some g" "POOL_BASE + of_nat (g + 1 - n) * MM_PAGE = 0"
    using assms(2) by (auto simp: mm_arena_alloc_def Let_def split: if_splits option.splits)
  have "free_run s (g + 1 - n) n" using arena_scan_Some [OF g(2,1)] g(1) by simp
  then have "g + 1 - n \<le> MAX_FRAMES" using free_run_bound [OF _ g(1)] assms(1) by (fastforce simp: pool_ok_def)
  then show False using frame_addr_unat [of "g + 1 - n"] g(3) by (simp add: frame_addr_def)
qed

text \<open>C16: What \<open>mm_arena_alloc\<close> hands out, \<open>mm_arena_free\<close> gives back: freeing the range of the request
  (not rounded to pages) restores the pool exactly.\<close>

theorem arena_alloc_free_roundtrip:
  assumes "pool_ok s" "mm_arena_alloc bytes s = (lo, s')" "lo \<noteq> 0"
  shows "mm_arena_free lo (lo + bytes) s' = s"
  by (rule alloc_free [OF assms])

theorem arena_alloc_free_roundtrip_witness:
  "\<exists>s lo s'. pool_ok s \<and> mm_arena_alloc 0x1801 s = (lo, s') \<and> lo \<noteq> 0 \<and> mm_arena_free lo (lo + 0x1801) s' = s"
proof -
  define s where s: "s = sample_pool"
  have s_def: "frame_refs s = (\<lambda>f. if f = 1 then 1 else 0)" "pool_frames s = 4" "free_frames s = 3"
    "next_hint s = 0" by (simp_all add: s sample_pool_def)
  have ok: "pool_ok s" by (simp only: sample_pool_ok s)
  obtain lo s' where a: "mm_arena_alloc 0x1801 s = (lo, s')" by fastforce
  have "fst (mm_arena_alloc 0x1801 s) = 0x402000"
    by (simp add: mm_arena_alloc_def s_def frame_taken_def arena_scan.simps Let_def)
  then have "lo \<noteq> 0" using a by auto
  then show ?thesis using ok a arena_alloc_free_roundtrip [OF ok a] by blast
qed

lemma aligned_round:
  assumes "a AND MM_PAGE_MASK = 0"
  shows "a AND NOT MM_PAGE_MASK = a" "round_up a = a"
proof -
  obtain k where k: "unat a = 4096 * k" using assms by (auto simp: page_aligned_iff)
  have "unat (a AND NOT MM_PAGE_MASK) = unat a" unfolding page_split k by simp
  then show "a AND NOT MM_PAGE_MASK = a" by (rule unsigned_word_eqI)
  have "4096 * k + 4095 < 2 ^ 32" using unsigned_less [of a, where 'a = nat] by (simp add: k)
  then have "unat (a + MM_PAGE_MASK) = 4096 * k + 4095" by (simp add: unat_word_ariths k)
  then have "unat (round_up a) = unat a" unfolding round_up_def page_split by (simp add: k)
  then show "round_up a = a" by (rule unsigned_word_eqI)
qed

lemma claim_free:
  assumes "pool_ok s" "mm_arena_claim lo hi s = (FND_OK, s')" "lo AND MM_PAGE_MASK = 0" "hi AND MM_PAGE_MASK = 0"
  shows "mm_arena_free lo hi s' = s"
proof -
  note r = aligned_round(1) [OF assms(3)] aligned_round(2) [OF assms(4)]
  have "range_free s lo hi" and s': "s' = range_take lo hi s"
    using assms(2) unfolding mm_arena_claim_def Let_def r(1) r(2) [unfolded round_up_def] by (auto split: if_splits)
  then obtain i j where e: "lo = frame_addr i" "hi = frame_addr j" "i < j" "j \<le> pool_frames s" "{i..<j} \<subseteq> free_set s"
    using range_free_iff assms(1) by (metis pool_ok_def)
  have m: "j \<le> MAX_FRAMES" "i \<le> MAX_FRAMES" using e assms(1) by (simp_all add: pool_ok_def)
  have "mm_arena_free lo hi s' = fold free_page [i..<j] s'"
    unfolding e(1) by (rule arena_free_pages [OF e(3) m(1)]) (use r(2) e m in \<open>simp_all add: frame_addr_less_iff\<close>)
  then show ?thesis unfolding s' e(1,2) using take_free [OF assms(1) _ e(4,5)] e(3) by simp
qed

theorem arena_free_spec_witness:
  "\<exists>s. pool_ok s \<and> free_set s = {3} \<and> pool_ok (mm_arena_free 0x400000 0x401001 s) \<and>
     free_set (mm_arena_free 0x400000 0x401001 s) =
       free_set s \<union> {f. f < pool_frames s \<and> first_page 0x400000 \<le> f \<and> f < first_page (round_up 0x401001)} \<and>
     0 \<in> free_set (mm_arena_free 0x400000 0x401001 s)"
proof -
  define s :: mm_state where "s = undefined\<lparr>frame_refs := (\<lambda>f. if f < 3 then 1 else 0), pool_frames := 4,
    free_frames := 1, next_hint := 0\<rparr>"
  have fs: "free_set s = {3}" by (auto simp: free_set_def s_def)
  have ok: "pool_ok s" by (simp add: pool_ok_def fs) (simp add: s_def)
  have r: "first_page 0x400000 = 0" "first_page (round_up 0x401001) = 2" "pool_frames s = 4"
    by (simp_all add: first_page_def round_up_def s_def)
  have l: "(POOL_BASE::u32) \<le> 0x400000" "(0x400000::u32) < 0x401001" by simp_all
  have "0 \<in> free_set (mm_arena_free 0x400000 0x401001 s)"
    using arena_free_spec [OF ok l] by (simp only: r) simp
  then show ?thesis
    by (intro exI [of _ s] conjI ok fs) (rule arena_free_spec [OF ok l, THEN conjunct1],
        rule arena_free_spec [OF ok l, THEN conjunct2], assumption)
qed

lemma not_range_free:
  assumes "POOL_BASE \<le> lo" "lo < hi" "lo AND MM_PAGE_MASK = 0" "hi AND MM_PAGE_MASK = 0"
    "first_page hi \<le> pool_frames s" "\<not> range_free s lo hi"
  shows "\<exists>f\<in>set [first_page lo..<first_page hi]. frame_taken s f"
  using assms
  by (auto simp: range_free_def or_page_mask first_page_def list_all_iff not_less not_le split: if_splits)

text \<open>\<open>mm_arena_claim\<close> (an image linked at a fixed address) takes the pages the range touches when
  they all exist and are free, and otherwise changes nothing: no memory outside the pool
  (\<open>FND_E_NO_MEMORY\<close>), never a page of another owner (\<open>FND_E_ADDRESS_CONFLICT\<close>).\<close>

theorem arena_claim_spec:
  assumes "pool_ok s"
  defines "lo' \<equiv> \<lambda>lo. lo AND NOT MM_PAGE_MASK"
  shows "case mm_arena_claim lo hi s of (status, s') \<Rightarrow> pool_ok s' \<and>
     (status = FND_OK \<and> (\<exists>i j. lo' lo = frame_addr i \<and> round_up hi = frame_addr j \<and> i < j \<and> j \<le> pool_frames s \<and>
          {i..<j} \<subseteq> free_set s \<and> free_set s' = free_set s - {i..<j})
      \<or> status = FND_E_ADDRESS_CONFLICT \<and> s' = s \<and>
          (\<exists>f. first_page (lo' lo) \<le> f \<and> f < first_page (round_up hi) \<and> f < pool_frames s \<and> f \<notin> free_set s)
      \<or> status = FND_E_NO_MEMORY \<and> s' = s \<and>
          (lo' lo < POOL_BASE \<or> round_up hi \<le> lo' lo \<or> pool_frames s < first_page (round_up hi)))"
proof -
  let ?lo = "lo AND NOT MM_PAGE_MASK" and ?hi = "(hi + MM_PAGE_MASK) AND NOT MM_PAGE_MASK"
  have pf: "pool_frames s \<le> MAX_FRAMES" using assms(1) by (simp add: pool_ok_def)
  have al: "?lo AND MM_PAGE_MASK = 0" "?hi AND MM_PAGE_MASK = 0"
    by (simp_all only: page_aligned_iff page_split dvd_triv_right)
  consider "?lo < POOL_BASE \<or> ?hi \<le> ?lo \<or> pool_frames s < first_page ?hi"
    | "POOL_BASE \<le> ?lo" "?lo < ?hi" "first_page ?hi \<le> pool_frames s" "\<not> range_free s ?lo ?hi"
    | "POOL_BASE \<le> ?lo" "?lo < ?hi" "first_page ?hi \<le> pool_frames s" "range_free s ?lo ?hi"
    by (meson not_le)
  then show ?thesis
  proof cases
    case 1
    then have "mm_arena_claim lo hi s = (FND_E_NO_MEMORY, s)"
      by (auto simp: mm_arena_claim_def Let_def first_page_def)
    then show ?thesis using 1 assms(1) by (simp add: lo'_def round_up_def)
  next
    case 2
    then have c: "mm_arena_claim lo hi s = (FND_E_ADDRESS_CONFLICT, s)"
      by (simp add: mm_arena_claim_def Let_def first_page_def not_less not_le)
    have "\<exists>f\<in>set [first_page ?lo..<first_page ?hi]. frame_taken s f"
      by (rule not_range_free [OF 2(1,2) al 2(3,4)])
    then show ?thesis using c assms(1) 2(3)
      by (auto simp: lo'_def round_up_def frame_taken_def free_set_def)
  next
    case 3
    then have c: "mm_arena_claim lo hi s = (FND_OK, range_take ?lo ?hi s)"
      by (simp add: mm_arena_claim_def Let_def first_page_def not_less not_le)
    obtain i j where e: "?lo = frame_addr i" "?hi = frame_addr j" "i < j" "j \<le> pool_frames s"
      "{i..<j} \<subseteq> free_set s" using 3(4) range_free_iff [OF pf] by blast
    have m: "i \<le> MAX_FRAMES" "j \<le> MAX_FRAMES" using e pf by simp_all
    have "pool_ok (range_take ?lo ?hi s)" "free_set (range_take ?lo ?hi s) = free_set s - {i..<j}"
      unfolding e(1,2) using range_take_pool_ok [OF assms(1) _ e(4,5)] e(3) range_take_free_set [OF m] by auto
    then show ?thesis using c e by (auto simp: lo'_def round_up_def)
  qed
qed

theorem arena_claim_spec_witness:
  "\<exists>s. pool_ok s \<and> fst (mm_arena_claim 0x402010 0x403fff s) = FND_OK \<and>
     (case mm_arena_claim 0x402010 0x403fff s of (status, s') \<Rightarrow> pool_ok s' \<and>
     (status = FND_OK \<and> (\<exists>i j. (0x402010 AND NOT MM_PAGE_MASK) = frame_addr i \<and> round_up 0x403fff = frame_addr j \<and>
          i < j \<and> j \<le> pool_frames s \<and> {i..<j} \<subseteq> free_set s \<and> free_set s' = free_set s - {i..<j})
      \<or> status = FND_E_ADDRESS_CONFLICT \<and> s' = s \<and>
          (\<exists>f. first_page (0x402010 AND NOT MM_PAGE_MASK) \<le> f \<and> f < first_page (round_up 0x403fff) \<and>
             f < pool_frames s \<and> f \<notin> free_set s)
      \<or> status = FND_E_NO_MEMORY \<and> s' = s \<and>
          ((0x402010 AND NOT MM_PAGE_MASK) < POOL_BASE \<or> round_up 0x403fff \<le> (0x402010 AND NOT MM_PAGE_MASK) \<or>
             pool_frames s < first_page (round_up 0x403fff))))"
proof -
  define s where s: "s = sample_pool"
  have s_def: "frame_refs s = (\<lambda>f. if f = 1 then 1 else 0)" "pool_frames s = 4" "free_frames s = 3"
    "next_hint s = 0" by (simp_all add: s sample_pool_def)
  have ok: "pool_ok s" by (simp only: sample_pool_ok s)
  have "[2..<4] = [2, 3::nat]" by (simp add: upt_rec)
  then have "fst (mm_arena_claim 0x402010 0x403fff s) = FND_OK"
    by (simp add: mm_arena_claim_def s_def range_free_def first_page_def frame_taken_def Let_def)
  then show ?thesis by (intro exI [of _ s] conjI ok) (assumption | rule arena_claim_spec [OF ok])+
qed

text \<open>A process image grows in place (\<open>mm_arena_extend\<close>) exactly when both ends are page
  aligned, the new end is higher and every page between them exists and is free; the pages
  become taken. Otherwise nothing changes.\<close>

theorem arena_extend_spec:
  assumes "pool_ok s"
  shows "case mm_arena_extend hi new_hi s of (done, s') \<Rightarrow>
     (if done then \<exists>i j. hi = frame_addr i \<and> new_hi = frame_addr j \<and> i < j \<and> j \<le> pool_frames s \<and>
          {i..<j} \<subseteq> free_set s \<and> free_set s' = free_set s - {i..<j} \<and> pool_ok s'
      else s' = s \<and>
          \<not> (\<exists>i j. hi = frame_addr i \<and> new_hi = frame_addr j \<and> i < j \<and> j \<le> pool_frames s \<and> {i..<j} \<subseteq> free_set s))"
proof -
  have pf: "pool_frames s \<le> MAX_FRAMES" using assms by (simp add: pool_ok_def)
  show ?thesis
  proof (cases "range_free s hi new_hi")
    case True
    then obtain i j where e: "hi = frame_addr i" "new_hi = frame_addr j" "i < j" "j \<le> pool_frames s"
      "{i..<j} \<subseteq> free_set s" using range_free_iff [OF pf] by blast
    have m: "i \<le> MAX_FRAMES" "j \<le> MAX_FRAMES" using e pf by simp_all
    have "mm_arena_extend hi new_hi s = (True, range_take hi new_hi s)"
      using True by (auto simp: mm_arena_extend_def range_free_def split: if_splits)
    moreover have "pool_ok (range_take hi new_hi s)"
      unfolding e(1,2) using range_take_pool_ok [OF assms _ e(4,5)] e(3) by simp
    moreover have "free_set (range_take hi new_hi s) = free_set s - {i..<j}"
      unfolding e(1,2) using range_take_free_set [OF m] .
    ultimately show ?thesis using e by auto
  next
    case False
    then have "mm_arena_extend hi new_hi s = (False, s)" by (simp add: mm_arena_extend_def)
    then show ?thesis using False range_free_iff [OF pf, of hi new_hi] by simp
  qed
qed

section \<open>Frames\<close>

lemma frame_scan_step:
  assumes "n < pool_frames s" "next_hint s \<le> pool_frames s"
  shows "frame_scan s n = (let f = (next_hint s + n) mod pool_frames s in
     if frame_refs s f = 0 then Some f else frame_scan s (n + 1))"
proof -
  have m: "(if pool_frames s \<le> next_hint s + n then next_hint s + n - pool_frames s else next_hint s + n)
      = (next_hint s + n) mod pool_frames s" using assms by (auto simp: mod_if)
  have "frame_scan s n = (let f = (if pool_frames s \<le> next_hint s + n then next_hint s + n - pool_frames s
      else next_hint s + n) in if frame_refs s f = 0 then Some f else frame_scan s (n + 1))"
    using assms(1) by (subst frame_scan.simps) (simp add: Let_def)
  then show ?thesis unfolding m .
qed

lemma frame_scan_Some:
  assumes "frame_scan s n = Some f" "next_hint s \<le> pool_frames s"
  shows "f \<in> free_set s"
  using assms(1)
proof (induction "pool_frames s - n" arbitrary: n)
  case 0
  then show ?case by (subst (asm) frame_scan.simps) simp
next
  case (Suc k)
  then have n: "n < pool_frames s" by simp
  show ?case
  proof (cases "frame_refs s ((next_hint s + n) mod pool_frames s) = 0")
    case True
    then show ?thesis
      using Suc.prems n frame_scan_step [OF n assms(2)] by (auto simp: free_set_def Let_def)
  next
    case False
    then have "frame_scan s (n + 1) = Some f"
      using Suc.prems frame_scan_step [OF n assms(2)] by (simp add: Let_def)
    then show ?thesis using Suc.hyps(1) [of "n + 1"] Suc.hyps(2) by simp
  qed
qed

lemma frame_scan_None:
  assumes "frame_scan s n = None" "next_hint s \<le> pool_frames s" "n \<le> k" "k < pool_frames s"
  shows "(next_hint s + k) mod pool_frames s \<notin> free_set s"
  using assms(1,3)
proof (induction "pool_frames s - n" arbitrary: n)
  case 0
  then show ?case using assms(4) by simp
next
  case (Suc j)
  then have n: "n < pool_frames s" by simp
  have r: "frame_refs s ((next_hint s + n) mod pool_frames s) \<noteq> 0" "frame_scan s (n + 1) = None"
    using Suc.prems(1) frame_scan_step [OF n assms(2)] by (auto simp: Let_def split: if_splits)
  show ?case
  proof (cases "k = n")
    case True
    then show ?thesis using r by (simp add: free_set_def)
  next
    case False
    then show ?thesis using Suc.hyps(1) [of "n + 1"] Suc.hyps(2) Suc.prems(2) r(2) by simp
  qed
qed

lemma frame_scan_complete:
  assumes "frame_scan s 0 = None" "next_hint s \<le> pool_frames s"
  shows "free_set s = {}"
proof (rule ccontr)
  assume "free_set s \<noteq> {}"
  then obtain f where f: "f \<in> free_set s" by blast
  then have fl: "f < pool_frames s" by (simp add: free_set_def)
  let ?k = "if next_hint s \<le> f then f - next_hint s else f + pool_frames s - next_hint s"
  have "?k < pool_frames s" "(next_hint s + ?k) mod pool_frames s = f"
    using fl assms(2) by auto
  then show False using frame_scan_None [OF assms, of ?k] f by simp
qed

text \<open>C18: \<open>frame_alloc\<close> fails only when no frame is free; otherwise the frame it returns was free, is
  now taken with one owner, is all zero, and neither the other frames nor the rest of memory change.\<close>

theorem frame_alloc_spec:
  assumes "pool_ok s"
  shows "case frame_alloc s of (pa, s') \<Rightarrow> pool_ok s' \<and>
     (if free_set s = {} then pa = 0 \<and> s' = s
      else \<exists>f\<in>free_set s. pa = frame_addr f \<and> frame_refs s' = (frame_refs s)(f := 1) \<and>
        free_set s' = free_set s - {f} \<and>
        ram s' = (\<lambda>x. if unat (x - frame_addr f) < 4096 then 0 else ram s x))"
proof (cases "frame_scan s 0")
  case None
  then have e: "free_set s = {}" using frame_scan_complete assms by (simp add: pool_ok_def)
  then have "free_frames s = 0" using assms by (simp add: pool_ok_def)
  then show ?thesis using e assms by (simp add: frame_alloc_def)
next
  case (Some f)
  then have f: "f \<in> free_set s" using frame_scan_Some assms by (simp add: pool_ok_def)
  then have ne: "free_set s \<noteq> {}" by blast
  then have "free_frames s \<noteq> 0" using assms by (simp add: pool_ok_def)
  then have a: "frame_alloc s = (frame_addr f, s\<lparr>frame_refs := (frame_refs s)(f := 1),
      free_frames := free_frames s - 1, next_hint := f + 1,
      ram := kmem_zero (ram s) (frame_addr f) (frame_addr f + MM_PAGE)\<rparr>)" (is "_ = (_, ?t)")
    using Some by (simp add: frame_alloc_def Let_def)
  have fs: "free_set ?t = free_set s - {f}" by (auto simp: free_set_def)
  have fl: "f < pool_frames s" using f by (simp add: free_set_def)
  have "card (free_set s - {f}) = card (free_set s) - 1" using f by simp
  then have "free_frames ?t = card (free_set ?t)" using assms unfolding fs by (simp add: pool_ok_def)
  then have "pool_ok ?t" using assms fl by (auto simp: pool_ok_def)
  moreover have "ram ?t = (\<lambda>x. if unat (x - frame_addr f) < 4096 then 0 else ram s x)"
    by (simp add: kmem_zero_eq)
  ultimately show ?thesis unfolding a using f ne fs by auto
qed

theorem arena_extend_spec_witness:
  "\<exists>s. pool_ok s \<and> fst (mm_arena_extend 0x402000 0x404000 s) \<and>
     (case mm_arena_extend 0x402000 0x404000 s of (done, s') \<Rightarrow>
     (if done then \<exists>i j. 0x402000 = frame_addr i \<and> 0x404000 = frame_addr j \<and> i < j \<and> j \<le> pool_frames s \<and>
          {i..<j} \<subseteq> free_set s \<and> free_set s' = free_set s - {i..<j} \<and> pool_ok s'
      else s' = s \<and>
          \<not> (\<exists>i j. 0x402000 = frame_addr i \<and> 0x404000 = frame_addr j \<and> i < j \<and> j \<le> pool_frames s \<and>
               {i..<j} \<subseteq> free_set s)))"
proof -
  have "[2..<4] = [2, 3::nat]" by (simp add: upt_rec)
  then have "fst (mm_arena_extend 0x402000 0x404000 sample_pool)"
    by (simp add: mm_arena_extend_def sample_pool_def range_free_def first_page_def frame_taken_def)
  then show ?thesis
    by (intro exI [of _ sample_pool] conjI sample_pool_ok)
       (assumption | rule arena_extend_spec [OF sample_pool_ok])+
qed

theorem frame_alloc_spec_witness:
  "\<exists>s. pool_ok s \<and> fst (frame_alloc s) = 0x400000 \<and>
     (case frame_alloc s of (pa, s') \<Rightarrow> pool_ok s' \<and>
       (if free_set s = {} then pa = 0 \<and> s' = s
        else \<exists>f\<in>free_set s. pa = frame_addr f \<and> frame_refs s' = (frame_refs s)(f := 1) \<and>
          free_set s' = free_set s - {f} \<and>
          ram s' = (\<lambda>x. if unat (x - frame_addr f) < 4096 then 0 else ram s x)))"
proof -
  have "fst (frame_alloc sample_pool) = 0x400000"
    by (simp add: frame_alloc_def sample_pool_def frame_scan.simps frame_addr_def Let_def)
  then show ?thesis
    by (intro exI [of _ sample_pool] conjI sample_pool_ok)
       (assumption | rule frame_alloc_spec [OF sample_pool_ok])+
qed

text \<open>C19: \<open>frame_free\<close> drops one owner of a frame: the frame becomes free exactly when the last owner
  leaves, no other frame changes, and an address outside the pool or a free frame is ignored.\<close>

theorem frame_free_spec:
  assumes "pool_ok s"
  shows "pool_ok (frame_free pa s) \<and>
     (let f = first_page pa in
      if POOL_BASE \<le> pa \<and> f < pool_frames s \<and> frame_refs s f \<noteq> 0
      then frame_refs (frame_free pa s) = (frame_refs s)(f := frame_refs s f - 1) \<and>
        free_set (frame_free pa s) = (if frame_refs s f = 1 then insert f (free_set s) else free_set s)
      else frame_free pa s = s)"
proof -
  let ?f = "first_page pa"
  have ff: "frame_free pa s = (if pa < POOL_BASE \<or> pool_frames s \<le> ?f \<or> frame_refs s ?f = 0 then s
      else let r = frame_refs s ?f - 1; s = s\<lparr>frame_refs := (frame_refs s)(?f := r)\<rparr>
           in if r = 0 then s\<lparr>free_frames := free_frames s + 1\<rparr> else s)"
    by (simp add: frame_free_def Let_def first_page_def)
  show ?thesis
  proof (cases "POOL_BASE \<le> pa \<and> ?f < pool_frames s \<and> frame_refs s ?f \<noteq> 0")
    case False
    then have "frame_free pa s = s" unfolding ff by auto
    then show ?thesis using assms False by (simp only: Let_def if_False)
  next
    case True
    then have n: "?f \<notin> free_set s" "\<not> pa < POOL_BASE" "\<not> pool_frames s \<le> ?f" "frame_refs s ?f \<noteq> 0"
      by (auto simp: free_set_def not_less not_le)
    have c: "(POOL_BASE \<le> pa \<and> ?f < pool_frames s \<and> frame_refs s ?f \<noteq> 0) = True" using True by simp
    have one: "frame_refs s ?f - 1 = 0 \<longleftrightarrow> frame_refs s ?f = 1" by (simp add: right_minus_eq)
    show ?thesis
    proof (cases "frame_refs s ?f = 1")
      case True
      let ?t = "s\<lparr>frame_refs := (frame_refs s)(?f := 0), free_frames := free_frames s + 1\<rparr>"
      have e: "frame_free pa s = ?t"
        unfolding ff using True n by (simp add: Let_def)
      have fs: "free_set ?t = insert ?f (free_set s)"
        using n by (auto simp: free_set_def)
      have "free_frames ?t = card (free_set ?t)" using assms n unfolding fs by (simp add: pool_ok_def)
      then have "pool_ok ?t" using assms by (simp add: pool_ok_def)
      then show ?thesis unfolding e Let_def c using True fs by simp
    next
      case False
      let ?t = "s\<lparr>frame_refs := (frame_refs s)(?f := frame_refs s ?f - 1)\<rparr>"
      have e: "frame_free pa s = ?t"
        unfolding ff using one False n by (simp add: Let_def)
      have fs: "free_set ?t = free_set s"
        using one False n by (auto simp: free_set_def)
      have "free_frames ?t = card (free_set ?t)" using assms unfolding fs by (simp add: pool_ok_def)
      then have "pool_ok ?t" using assms True by (auto simp: pool_ok_def)
      then show ?thesis unfolding e Let_def c using False fs by simp
    qed
  qed
qed

theorem frame_free_spec_witness:
  "\<exists>s. pool_ok s \<and> 1 \<notin> free_set s \<and> 1 \<in> free_set (frame_free 0x401000 s) \<and> pool_ok (frame_free 0x401000 s)"
proof -
  have f: "first_page 0x401000 = 1" by (simp add: first_page_def)
  have "1 \<in> free_set (frame_free 0x401000 sample_pool)"
    using frame_free_spec [OF sample_pool_ok, of "0x401000"] unfolding f Let_def
    by (simp add: sample_pool_def)
  moreover have "pool_ok (frame_free 0x401000 sample_pool)"
    using frame_free_spec [OF sample_pool_ok, of "0x401000"] by simp
  moreover have "1 \<notin> free_set sample_pool" by (simp add: sample_pool_free)
  ultimately show ?thesis using sample_pool_ok by blast
qed

end
