(* ===== verification/Vm.thy ===== *)
theory Vm
  imports Page_Pool
begin

text \<open>
  The two memory backends of \<open>foundation/kernel/mm.c\<close>: protection regions without paging (nommu) and
  two-level page tables (vm), with copy on write, the checked user ranges and their
  cache. Page tables live in \<open>ram\<close>: an entry is the big-endian word at its
  address, so a table that overlapped other memory would be seen as the machine sees it. Addresses
  of table entries are \<open>u32\<close> with 0 for the null pointer, as in the source.
\<close>

section \<open>Protection regions (nommu)\<close>

lemma unat_diff_less:
  assumes "(c::u32) \<noteq> 0" "c \<le> len"
  shows "unat (len - c) < unat len"
proof -
  have "unat c \<le> unat len" using assms(2) by (simp add: word_le_nat_alt)
  then show ?thesis using assms(1) unat_sub [OF assms(2)] unat_gt_0 [of c] by simp
qed

definition slot_activate :: "nat \<Rightarrow> mm_state \<Rightarrow> mm_state" where
  "slot_activate p s =
     (let n = region_count (mprocs s p) in
      s\<lparr>rgn := (\<lambda>i. if i < n then (let r = regions (mprocs s p) i in (rstart r, rend r, rflags r))
                    else if i < active_regions s then (fst (rgn s i), fst (snd (rgn s i)), 0)
                    else rgn s i),
        active_regions := n\<rparr>)"

definition slot_release :: "mm_state \<Rightarrow> mm_state" where
  "slot_release s =
     s\<lparr>rgn := (\<lambda>i. if i < active_regions s then (fst (rgn s i), fst (snd (rgn s i)), 0) else rgn s i),
       active_regions := 0\<rparr>"

text \<open>The end of the first region that allows \<open>perm\<close> at \<open>addr\<close>, less \<open>addr\<close>; 0 when none does.\<close>

definition slot_covers :: "region \<Rightarrow> u32 \<Rightarrow> u32 \<Rightarrow> bool" where
  "slot_covers r addr perm \<longleftrightarrow> \<not> mmio r \<and> rflags r AND perm = perm \<and> rstart r \<le> addr \<and> addr < rend r"

definition slot_covered :: "mproc \<Rightarrow> u32 \<Rightarrow> u32 \<Rightarrow> u32" where
  "slot_covered q addr perm =
     (case find (\<lambda>i. slot_covers (regions q i) addr perm) [0..<region_count q] of
        None \<Rightarrow> 0 | Some i \<Rightarrow> rend (regions q i) - addr)"

function slot_range_ok :: "mproc \<Rightarrow> u32 \<Rightarrow> u32 \<Rightarrow> u32 \<Rightarrow> bool" where
  "slot_range_ok q addr len perm =
     (if len = 0 then True
      else let covered = slot_covered q addr perm in
        if covered = 0 then False
        else if len \<le> covered then True
        else slot_range_ok q (addr + covered) (len - covered) perm)"
  by pat_completeness auto
termination
proof (relation "measure (\<lambda>(_, _, len, _). unat len)", simp, clarsimp)
  fix q addr len perm
  assume "slot_covered q addr perm \<noteq> 0" "\<not> len \<le> slot_covered q addr perm"
  then show "unat (len - slot_covered q addr perm) < unat len"
    by (intro unat_diff_less) (simp_all add: not_le less_imp_le)
qed

declare slot_range_ok.simps [simp del]

section \<open>Page tables (vm)\<close>

abbreviation PTE_V :: u32 where "PTE_V \<equiv> 0x01"
abbreviation PTE_R :: u32 where "PTE_R \<equiv> 0x02"
abbreviation PTE_W :: u32 where "PTE_W \<equiv> 0x04"
abbreviation PTE_X :: u32 where "PTE_X \<equiv> 0x08"
abbreviation PTE_U :: u32 where "PTE_U \<equiv> 0x10"
abbreviation PTE_DEV :: u32 where "PTE_DEV \<equiv> 0x20"
abbreviation PTE_OWNED :: u32 where "PTE_OWNED \<equiv> 0x100"
abbreviation PTE_COW :: u32 where "PTE_COW \<equiv> 0x200"
abbreviation PTE_FRAME :: u32 where "PTE_FRAME \<equiv> 0xFFFFF000"

definition bump :: "mm_state \<Rightarrow> mm_state" where
  "bump s = s\<lparr>vm_epoch := vm_epoch s + 1\<rparr>"

definition upd_mproc :: "nat \<Rightarrow> (mproc \<Rightarrow> mproc) \<Rightarrow> mm_state \<Rightarrow> mm_state" where
  "upd_mproc p f s = s\<lparr>mprocs := (mprocs s)(p := f (mprocs s p))\<rparr>"

definition poke :: "u32 \<Rightarrow> u32 \<Rightarrow> mm_state \<Rightarrow> mm_state" where
  "poke a v s = s\<lparr>ram := st32 (ram s) a v\<rparr>"

definition peek :: "mm_state \<Rightarrow> u32 \<Rightarrow> u32" where
  "peek s a = ld32 (ram s) a"

definition perm_flags :: "u32 \<Rightarrow> u32" where
  "perm_flags perm = (if perm AND PERM_R \<noteq> 0 then PTE_R else 0) OR (if perm AND PERM_W \<noteq> 0 then PTE_W else 0)
     OR (if perm AND PERM_X \<noteq> 0 then PTE_X else 0)"

definition vm_init :: "u32 \<Rightarrow> mm_state \<Rightarrow> mm_state" where
  "vm_init bmc_bytes s = pool_init bmc_bytes (unat (MM_BOUNCE_BYTES div MM_PAGE)) s"

definition mm_vm_create :: "nat \<Rightarrow> mm_state \<Rightarrow> int \<times> mm_state" where
  "mm_vm_create p s =
     (let s = upd_mproc p (\<lambda>q. q\<lparr>vm_pages := 0\<rparr>) (bump s);
          (pa, s) = frame_alloc s;
          s = upd_mproc p (\<lambda>q. q\<lparr>pt_root := pa\<rparr>) s
      in (if pa \<noteq> 0 then FND_OK else FND_E_NO_MEMORY, s))"

definition root_entry :: "u32 \<Rightarrow> u32 \<Rightarrow> u32" where
  "root_entry root va = root + 4 * drop_bit 22 va"

definition table_entry :: "u32 \<Rightarrow> u32 \<Rightarrow> u32" where
  "table_entry l1 va = (l1 AND PTE_FRAME) + 4 * (drop_bit 12 va AND 0x3FF)"

definition l2_entry :: "nat \<Rightarrow> u32 \<Rightarrow> bool \<Rightarrow> mm_state \<Rightarrow> u32 \<times> mm_state" where
  "l2_entry p va create s =
     (let re = root_entry (pt_root (mprocs s p)) va; l1 = peek s re in
      if l1 AND PTE_V = 0 then
        if \<not> create then (0, s)
        else let (table, s) = frame_alloc s in
          if table = 0 then (0, s)
          else let l1 = table OR PTE_V in (table_entry l1 va, poke re l1 s)
      else (table_entry l1 va, s))"

text \<open>The lookup without creation, which leaves the state alone (\<open>l2_entry_find\<close>); the callers
  guard it with \<open>pt_root\<close>.\<close>

definition l2_find :: "nat \<Rightarrow> u32 \<Rightarrow> mm_state \<Rightarrow> u32" where
  "l2_find p va s = (if pt_root (mprocs s p) \<noteq> 0 then fst (l2_entry p va False s) else 0)"

definition proc_activate :: "nat \<Rightarrow> mm_state \<Rightarrow> mm_state" where
  "proc_activate p s =
     (if active s = Some p then s
      else let s = (if mm_vm s then s\<lparr>ptbr := pt_root (mprocs s p), tlb_flushes := tlb_flushes s + 1\<rparr>
                    else slot_activate p s)
           in s\<lparr>active := Some p\<rparr>)"

definition mm_reload :: "nat \<Rightarrow> mm_state \<Rightarrow> mm_state" where
  "mm_reload p s =
     (if active s \<noteq> Some p then s
      else if mm_vm s then s\<lparr>tlb_flushes := tlb_flushes s + 1\<rparr>
      else proc_activate p (s\<lparr>active := None\<rparr>))"

definition frame_of :: "u32 \<Rightarrow> nat" where
  "frame_of pte = first_page (pte AND PTE_FRAME)"

definition mm_vm_cow :: "nat \<Rightarrow> u32 \<Rightarrow> mm_state \<Rightarrow> int \<times> mm_state" where
  "mm_vm_cow p va s =
     (let s = bump s; entry = l2_find p va s in
      if entry = 0 \<or> peek s entry AND (PTE_V OR PTE_U OR PTE_OWNED OR PTE_COW OR PTE_DEV) \<noteq>
           (PTE_V OR PTE_U OR PTE_OWNED OR PTE_COW) then (FND_E_ACCESS, s)
      else
        let pa = peek s entry AND PTE_FRAME;
            finish = (\<lambda>pa s.
              (FND_OK, mm_reload p (poke entry (pa OR ((peek s entry AND NOT PTE_FRAME AND NOT PTE_COW) OR PTE_W)) s)))
        in if 1 < frame_refs s (first_page pa) then
             let (copy, s) = frame_alloc s in
             if copy = 0 then (FND_E_NO_MEMORY, s)
             else finish copy (frame_free pa (s\<lparr>ram := kmem_copy (ram s) copy pa MM_PAGE\<rparr>))
           else finish pa s)"

lemma page_step:
  assumes "page < (end_a::u32)" "\<not> page + MM_PAGE < page"
  shows "unat end_a - unat (page + MM_PAGE) < unat end_a - unat page"
proof -
  have "page < page + MM_PAGE" using assms(2) by (simp add: not_less le_less)
  then show ?thesis using assms(1) unfolding word_less_nat_alt by linarith
qed

function vm_map_loop :: "nat \<Rightarrow> u32 \<Rightarrow> u32 \<Rightarrow> u32 \<Rightarrow> mm_state \<Rightarrow> int \<times> mm_state" where
  "vm_map_loop p page end_a flags s =
     (if page < end_a then
        let (entry, s) = l2_entry p page True s in
        if entry = 0 then (FND_E_NO_MEMORY, s)
        else
          let pte = peek s entry;
              (status, s) =
                (if pte AND PTE_V \<noteq> 0 then
                   let (status, s) =
                     (if pte AND PTE_COW \<noteq> 0 \<and> flags AND PTE_W \<noteq> 0 then mm_vm_cow p page s else (FND_OK, s))
                   in if status \<noteq> FND_OK then (status, s)
                      else (FND_OK, poke entry (peek s entry OR flags) s)
                 else
                   let (frame, s) = frame_alloc s in
                   if frame = 0 then (FND_E_NO_MEMORY, s)
                   else (FND_OK, upd_mproc p (\<lambda>q. q\<lparr>vm_pages := vm_pages q + 1\<rparr>)
                                   (poke entry (frame OR flags OR PTE_OWNED) s)))
          in if status \<noteq> FND_OK then (status, s)
             else if page + MM_PAGE < page then (FND_OK, s)
             else vm_map_loop p (page + MM_PAGE) end_a flags s
      else (FND_OK, s))"
  by pat_completeness auto
termination
  by (relation "measure (\<lambda>(_, page, end_a, _, _). unat end_a - unat page)")
     (rule wf_measure, unfold in_measure split_conv, rule page_step)

declare vm_map_loop.simps [simp del]

definition mm_vm_map :: "nat \<Rightarrow> u32 \<Rightarrow> u32 \<Rightarrow> u32 \<Rightarrow> mm_state \<Rightarrow> int \<times> mm_state" where
  "mm_vm_map p start end_a perm s =
     vm_map_loop p (start AND NOT MM_PAGE_MASK) end_a (PTE_V OR PTE_U OR perm_flags perm) (bump s)"

text \<open>The loop of \<open>mm_vm_map_phys\<close> has no test for the last page of the address space and may run
  forever there, so that it is a partial function.\<close>

partial_function (option) vm_map_phys_loop ::
  "nat \<Rightarrow> u32 \<Rightarrow> u32 \<Rightarrow> u32 \<Rightarrow> u32 \<Rightarrow> bool \<Rightarrow> mm_state \<Rightarrow> (int \<times> mm_state) option" where
  "vm_map_phys_loop p page vend frame flags dev s =
     (if page < vend then
        (case l2_entry p page True s of (entry, s) \<Rightarrow>
          if entry = 0 then Some (FND_E_NO_MEMORY, s)
          else
            let pte = peek s entry in
            if pte AND PTE_V \<noteq> 0 then
              if pte AND (PTE_FRAME OR PTE_DEV OR PTE_OWNED) \<noteq> frame OR (if dev then PTE_DEV else 0)
              then Some (FND_E_ADDRESS_CONFLICT, s)
              else vm_map_phys_loop p (page + MM_PAGE) vend (frame + MM_PAGE) flags dev
                     (poke entry (pte OR flags) s)
            else vm_map_phys_loop p (page + MM_PAGE) vend (frame + MM_PAGE) flags dev
                   (poke entry (frame OR flags) s))
      else Some (FND_OK, s))"

definition mm_vm_map_phys ::
  "nat \<Rightarrow> u32 \<Rightarrow> u32 \<Rightarrow> u32 \<Rightarrow> u32 \<Rightarrow> bool \<Rightarrow> mm_state \<Rightarrow> (int \<times> mm_state) option" where
  "mm_vm_map_phys p vstart vend pstart perm dev s =
     vm_map_phys_loop p (vstart AND NOT MM_PAGE_MASK) vend (pstart AND PTE_FRAME)
       (PTE_V OR PTE_U OR perm_flags perm OR (if dev then PTE_DEV else 0)) dev (bump s)"

section \<open>Destruction and cloning of an address space\<close>

definition destroy_entry :: "u32 \<Rightarrow> nat \<Rightarrow> mm_state \<Rightarrow> mm_state" where
  "destroy_entry table k s =
     (let pte = peek s (table + 4 * of_nat k) in
      if pte AND (PTE_V OR PTE_OWNED) = PTE_V OR PTE_OWNED then frame_free (pte AND PTE_FRAME) s else s)"

definition destroy_table :: "u32 \<Rightarrow> nat \<Rightarrow> mm_state \<Rightarrow> mm_state" where
  "destroy_table root i s =
     (let l1 = peek s (root + 4 * of_nat i) in
      if l1 AND PTE_V = 0 then s
      else frame_free (l1 AND PTE_FRAME) (fold (destroy_entry (l1 AND PTE_FRAME)) [0..<1024] s))"

definition vm_destroy :: "nat \<Rightarrow> mm_state \<Rightarrow> mm_state" where
  "vm_destroy p s =
     (let s = bump s; root = pt_root (mprocs s p) in
      if root = 0 then s
      else upd_mproc p (\<lambda>q. q\<lparr>pt_root := 0, vm_pages := 0\<rparr>)
             (frame_free root (fold (destroy_table root) [0..<1024] s)))"

text \<open>One level-2 table of a clone: \<open>src\<close> and \<open>dst\<close> are the parent's and the child's tables.\<close>

fun clone_entries :: "nat \<Rightarrow> u32 \<Rightarrow> u32 \<Rightarrow> nat list \<Rightarrow> mm_state \<Rightarrow> int \<times> mm_state" where
  "clone_entries child src dst [] s = (FND_OK, s)"
| "clone_entries child src dst (k # ks) s =
     (let pte = peek s (src + 4 * of_nat k) in
      if pte AND PTE_V = 0 then clone_entries child src dst ks s
      else if pte AND PTE_DEV \<noteq> 0 \<or> (pte AND PTE_W \<noteq> 0 \<and> pte AND PTE_OWNED = 0) then (FND_E_ACCESS, s)
      else
        let (pte', s) =
          (if pte AND PTE_OWNED \<noteq> 0 then
             (if pte AND PTE_W \<noteq> 0 then (pte AND NOT PTE_W) OR PTE_COW else pte,
              upd_mproc child (\<lambda>q. q\<lparr>vm_pages := vm_pages q + 1\<rparr>)
                (s\<lparr>frame_refs := (frame_refs s)(frame_of pte := frame_refs s (frame_of pte) + 1)\<rparr>))
           else (pte, s))
        in clone_entries child src dst ks (poke (dst + 4 * of_nat k) pte' s))"

fun clone_tables :: "nat \<Rightarrow> u32 \<Rightarrow> nat list \<Rightarrow> mm_state \<Rightarrow> int \<times> mm_state" where
  "clone_tables child root [] s = (FND_OK, s)"
| "clone_tables child root (i # is) s =
     (let l1 = peek s (root + 4 * of_nat i) in
      if l1 AND PTE_V = 0 then clone_tables child root is s
      else let (dst, s) = l2_entry child (push_bit 22 (of_nat i)) True s in
        if dst = 0 then (FND_E_NO_MEMORY, s)
        else let (status, s) = clone_entries child (l1 AND PTE_FRAME) dst [0..<1024] s in
          if status \<noteq> FND_OK then (status, s) else clone_tables child root is s)"

definition protect_entry :: "u32 \<Rightarrow> nat \<Rightarrow> mm_state \<Rightarrow> mm_state" where
  "protect_entry src k s =
     (let a = src + 4 * of_nat k; pte = peek s a in
      if pte AND (PTE_V OR PTE_OWNED OR PTE_W) = PTE_V OR PTE_OWNED OR PTE_W
      then poke a ((pte AND NOT PTE_W) OR PTE_COW) s else s)"

definition protect_table :: "u32 \<Rightarrow> nat \<Rightarrow> mm_state \<Rightarrow> mm_state" where
  "protect_table root i s =
     (let l1 = peek s (root + 4 * of_nat i) in
      if l1 AND PTE_V = 0 then s else fold (protect_entry (l1 AND PTE_FRAME)) [0..<1024] s)"

definition mm_vm_clone :: "nat \<Rightarrow> nat \<Rightarrow> mm_state \<Rightarrow> int \<times> mm_state" where
  "mm_vm_clone child parent s =
     (let (status, s) = mm_vm_create child (bump s) in
      if status \<noteq> FND_OK then (status, s)
      else
        let root = pt_root (mprocs s parent);
            (status, s) = clone_tables child root [0..<1024] s
        in if status \<noteq> FND_OK then (status, vm_destroy child s)
           else (FND_OK, mm_reload parent (fold (protect_table root) [0..<1024] s)))"

section \<open>Checked user memory\<close>

definition page_run :: "u32 \<Rightarrow> u32" where
  "page_run addr = MM_PAGE - (addr AND MM_PAGE_MASK)"

lemma page_mask_le: "(addr::u32) AND MM_PAGE_MASK \<le> MM_PAGE_MASK"
  by (rule word_and_le1)

lemma page_run_pos: "0 < page_run addr"
proof -
  have "addr AND MM_PAGE_MASK < MM_PAGE"
    using page_mask_le [of addr] by (rule le_less_trans) simp
  then show ?thesis by (simp add: page_run_def word_gt_0)
qed

lemma page_run_decreases:
  "\<not> len \<le> page_run addr \<Longrightarrow> unat (len - page_run addr) < unat len"
  using page_run_pos [of addr] by (simp add: not_le unat_sub less_imp_le word_less_nat_alt)

function vm_prepare_write :: "nat \<Rightarrow> u32 \<Rightarrow> u32 \<Rightarrow> mm_state \<Rightarrow> bool \<times> mm_state" where
  "vm_prepare_write p addr len s =
     (if len = 0 then (True, s)
      else
        let entry = l2_find p addr s;
            (ok, s) = (if entry \<noteq> 0 \<and> peek s entry AND PTE_COW \<noteq> 0
                       then let (status, s) = mm_vm_cow p addr s in (status = FND_OK, s) else (True, s))
        in if \<not> ok then (False, s)
           else if len \<le> page_run addr then (True, s)
           else vm_prepare_write p (addr + page_run addr) (len - page_run addr) s)"
  by pat_completeness auto
termination
  by (relation "measure (\<lambda>(_, _, len, _). unat len)") (simp_all add: page_run_decreases)

declare vm_prepare_write.simps [simp del]

text \<open>\<open>mm_vm_ptr\<close> returns the physical address (0 for the null pointer) and the bytes left in the page.\<close>

definition mm_vm_ptr :: "nat \<Rightarrow> u32 \<Rightarrow> mm_state \<Rightarrow> u32 \<times> u32" where
  "mm_vm_ptr p va s =
     (let entry = l2_find p va s in
      if entry = 0 \<or> peek s entry AND PTE_V = 0 then (0, 0)
      else ((peek s entry AND PTE_FRAME) OR (va AND MM_PAGE_MASK), page_run va))"

text \<open>The walk of \<open>vm_range_ok\<close>: \<open>None\<close> when a page fails, else whether a COW page was seen.\<close>

definition page_ok :: "nat \<Rightarrow> u32 \<Rightarrow> u32 \<Rightarrow> mm_state \<Rightarrow> bool" where
  "page_ok p addr need s =
     (let entry = l2_find p addr s;
          pte = (if entry \<noteq> 0 then peek s entry else 0);
          flags = (if pte AND PTE_COW \<noteq> 0 then pte OR PTE_W else pte)
      in \<not> (entry = 0 \<or> pte AND (PTE_V OR PTE_U OR PTE_DEV) \<noteq> PTE_V OR PTE_U \<or> flags AND need \<noteq> need))"

definition page_cow :: "nat \<Rightarrow> u32 \<Rightarrow> mm_state \<Rightarrow> bool" where
  "page_cow p addr s = (let entry = l2_find p addr s in entry \<noteq> 0 \<and> peek s entry AND PTE_COW \<noteq> 0)"

function vm_range_walk :: "nat \<Rightarrow> u32 \<Rightarrow> u32 \<Rightarrow> u32 \<Rightarrow> bool \<Rightarrow> mm_state \<Rightarrow> bool option" where
  "vm_range_walk p addr len need cow s =
     (if len = 0 then Some cow
      else if \<not> page_ok p addr need s then None
      else
        let cow = (cow \<or> page_cow p addr s) in
        if len \<le> page_run addr then Some cow
        else vm_range_walk p (addr + page_run addr) (len - page_run addr) need cow s)"
  by pat_completeness auto
termination
  by (relation "measure (\<lambda>(_, _, len, _). unat len)") (simp_all add: page_run_decreases)

declare vm_range_walk.simps [simp del]

definition vm_range_ok :: "nat \<Rightarrow> u32 \<Rightarrow> u32 \<Rightarrow> u32 \<Rightarrow> mm_state \<Rightarrow> bool \<times> mm_state" where
  "vm_range_ok p addr len perm s =
     (case vm_range_walk p addr len (perm_flags perm) False s of None \<Rightarrow> (False, s)
      | Some cow \<Rightarrow> if perm AND PERM_W = 0 \<or> \<not> cow then (True, s) else vm_prepare_write p addr len s)"

function mm_vm_copy_from :: "u32 \<Rightarrow> nat \<Rightarrow> u32 \<Rightarrow> u32 \<Rightarrow> mm_state \<Rightarrow> mm_state" where
  "mm_vm_copy_from dst p src len s =
     (if len = 0 then s
      else let (from, run) = mm_vm_ptr p src s in
        if from = 0 then s
        else if len \<le> page_run src then s\<lparr>ram := kmem_copy (ram s) dst from len\<rparr>
        else mm_vm_copy_from (dst + page_run src) p (src + page_run src) (len - page_run src)
               (s\<lparr>ram := kmem_copy (ram s) dst from (page_run src)\<rparr>))"
  by pat_completeness auto
termination
  by (relation "measure (\<lambda>(_, _, _, len, _). unat len)") (simp_all add: page_run_decreases)

declare mm_vm_copy_from.simps [simp del]

function vm_copy_to_loop :: "nat \<Rightarrow> u32 \<Rightarrow> u32 \<Rightarrow> u32 \<Rightarrow> mm_state \<Rightarrow> mm_state" where
  "vm_copy_to_loop p dst src len s =
     (if len = 0 then s
      else let (to, run) = mm_vm_ptr p dst s in
        if to = 0 then s
        else if len \<le> page_run dst then s\<lparr>ram := kmem_copy (ram s) to src len\<rparr>
        else vm_copy_to_loop p (dst + page_run dst) (src + page_run dst) (len - page_run dst)
               (s\<lparr>ram := kmem_copy (ram s) to src (page_run dst)\<rparr>))"
  by pat_completeness auto
termination
  by (relation "measure (\<lambda>(_, _, _, len, _). unat len)") (simp_all add: page_run_decreases)

declare vm_copy_to_loop.simps [simp del]

definition mm_vm_copy_to :: "nat \<Rightarrow> u32 \<Rightarrow> u32 \<Rightarrow> u32 \<Rightarrow> mm_state \<Rightarrow> mm_state" where
  "mm_vm_copy_to p dst src len s =
     (let entry = l2_find p dst s in
      if len \<noteq> 0 \<and> len \<le> page_run dst \<and> pt_root (mprocs s p) \<noteq> 0 \<and> entry \<noteq> 0 \<and>
         peek s entry AND PTE_V \<noteq> 0 \<and> peek s entry AND PTE_COW = 0
      then s\<lparr>ram := kmem_copy (ram s) ((peek s entry AND PTE_FRAME) OR (dst AND MM_PAGE_MASK)) src len\<rparr>
      else let (ok, s) = vm_prepare_write p dst len s in
        if \<not> ok then s else vm_copy_to_loop p dst src len s)"

function vm_copy_loop :: "nat \<Rightarrow> u32 \<Rightarrow> nat \<Rightarrow> u32 \<Rightarrow> u32 \<Rightarrow> mm_state \<Rightarrow> mm_state" where
  "vm_copy_loop p dst q src len s =
     (if len = 0 then s
      else
        let (d, _) = mm_vm_ptr p dst s; (f, _) = mm_vm_ptr q src s in
        if d = 0 \<or> f = 0 then s
        else
          let run = (if page_run dst < page_run src then page_run dst else page_run src) in
          if len \<le> run then s\<lparr>ram := kmem_copy (ram s) d f len\<rparr>
          else vm_copy_loop p (dst + run) q (src + run) (len - run) (s\<lparr>ram := kmem_copy (ram s) d f run\<rparr>))"
  by pat_completeness auto
termination
  by (relation "measure (\<lambda>(_, _, _, _, len, _). unat len)") (simp, auto dest!: page_run_decreases split: if_splits)

declare vm_copy_loop.simps [simp del]

definition mm_vm_copy :: "nat \<Rightarrow> u32 \<Rightarrow> nat \<Rightarrow> u32 \<Rightarrow> u32 \<Rightarrow> mm_state \<Rightarrow> mm_state" where
  "mm_vm_copy p dst q src len s =
     (let (ok, s) = vm_prepare_write p dst len s in if \<not> ok then s else vm_copy_loop p dst q src len s)"

section \<open>The interface of both backends\<close>

text \<open>\<open>feature_v\<close> is the CPU's feature bit.\<close>

definition mm_init :: "bool \<Rightarrow> u32 \<Rightarrow> mm_state \<Rightarrow> mm_state" where
  "mm_init feature_v bmc_bytes s =
     (if mm_decided s then s
      else let s = s\<lparr>mm_decided := True\<rparr> in
        if feature_v then (vm_init bmc_bytes s)\<lparr>mm_vm := True, vctl_en := True\<rparr>
        else pool_init bmc_bytes 0 s)"

definition mm_release :: "nat \<Rightarrow> mm_state \<Rightarrow> mm_state" where
  "mm_release p s =
     (let s = (if active s = Some p then (if mm_vm s then s else slot_release s)\<lparr>active := None\<rparr> else s)
      in if mm_vm s then vm_destroy p s else s)"

text \<open>\<open>paddr\<close> gives the address of a process's \<open>struct fnd_proc\<close>, which takes part in the index.\<close>

definition cache_slot :: "(nat \<Rightarrow> u32) \<Rightarrow> nat \<Rightarrow> u32 \<Rightarrow> nat" where
  "cache_slot paddr p page = unat ((drop_bit 12 page + drop_bit 6 (paddr p)) AND 7)"

definition cache_entry_ok :: "cache_entry \<Rightarrow> nat \<Rightarrow> u32 \<Rightarrow> u32 \<Rightarrow> bool" where
  "cache_entry_ok e p page epoch \<longleftrightarrow> ce_proc e = Some p \<and> ce_page e = page \<and> ce_epoch e = epoch"

definition proc_user_range_ok :: "(nat \<Rightarrow> u32) \<Rightarrow> nat \<Rightarrow> u32 \<Rightarrow> u32 \<Rightarrow> u32 \<Rightarrow> mm_state \<Rightarrow> bool \<times> mm_state" where
  "proc_user_range_ok paddr p addr len perm s =
     (if len = 0 then (True, s)
      else if addr + len < addr \<or> 0xFFFF0000 < addr + len then (False, s)
      else if \<not> mm_vm s then (slot_range_ok (mprocs s p) addr len perm, s)
      else
        let page = addr AND NOT MM_PAGE_MASK in
        if page \<noteq> (addr + len - 1) AND NOT MM_PAGE_MASK then vm_range_ok p addr len perm s
        else
          let slot = cache_slot paddr p page; e = range_cache s slot in
          if cache_entry_ok e p page (vm_epoch s) \<and> perm AND NOT (ce_perm e) = 0 then (True, s)
          else
            let (ok, s) = vm_range_ok p addr len perm s in
            if \<not> ok then (False, s)
            else
              let e = range_cache s slot;
                  e = (if cache_entry_ok e p page (vm_epoch s) then e\<lparr>ce_perm := ce_perm e OR perm\<rparr>
                       else \<lparr>ce_proc = Some p, ce_page = page, ce_perm = perm, ce_epoch = vm_epoch s\<rparr>)
              in (True, s\<lparr>range_cache := (range_cache s)(slot := e)\<rparr>))"

end
