(* ===== verification/User_Mem.thy ===== *)
theory User_Mem
  imports Vm
begin

text \<open>
  The kernel's copies between its own variables and user memory (\<open>mm_copy_from_user\<close>,
  \<open>mm_copy_to_user\<close>, \<open>mm_copy_user\<close>, \<open>mm_read32\<close>, \<open>mm_write32\<close>, \<open>mm_read8\<close> of
  \<open>foundation/kernel/mm.h\<close>). A kernel variable is the list of its bytes: the loops are those of
  \<open>mm_vm_copy_from\<close> and \<open>mm_vm_copy_to\<close>, page by page, with the list in place of the kernel address.
  A copy from an unmapped page stops, as the source's does, and the list ends there; the
  words read beyond it are 0 (in the source they are whatever the variable held).
\<close>

function vm_read_loop :: "nat \<Rightarrow> u32 \<Rightarrow> u32 \<Rightarrow> mm_state \<Rightarrow> u8 list" where
  "vm_read_loop p src len s =
     (if len = 0 then []
      else let (from, run) = mm_vm_ptr p src s in
        if from = 0 then []
        else if len \<le> page_run src then load_bytes (ram s) from (unat len)
        else load_bytes (ram s) from (unat (page_run src)) @
               vm_read_loop p (src + page_run src) (len - page_run src) s)"
  by pat_completeness auto
termination
  by (relation "measure (\<lambda>(_, _, len, _). unat len)") (simp_all add: page_run_decreases)

declare vm_read_loop.simps [simp del]

definition mm_copy_from_user :: "nat \<Rightarrow> u32 \<Rightarrow> u32 \<Rightarrow> mm_state \<Rightarrow> u8 list" where
  "mm_copy_from_user p src len s =
     (if mm_vm s then vm_read_loop p src len s else load_bytes (ram s) src (unat len))"

function vm_write_loop :: "nat \<Rightarrow> u32 \<Rightarrow> u8 list \<Rightarrow> mm_state \<Rightarrow> mm_state" where
  "vm_write_loop p dst bs s =
     (if bs = [] then s
      else let (to, run) = mm_vm_ptr p dst s; n = unat (page_run dst) in
        if to = 0 then s
        else vm_write_loop p (dst + page_run dst) (drop n bs)
               (s\<lparr>ram := store_bytes (ram s) to (take n bs)\<rparr>))"
  by pat_completeness auto
termination
  by (relation "measure (\<lambda>(_, _, bs, _). length bs)") (use page_run_pos in \<open>auto simp: unat_gt_0 word_gt_0\<close>)

declare vm_write_loop.simps [simp del]

definition mm_copy_to_user :: "nat \<Rightarrow> u32 \<Rightarrow> u8 list \<Rightarrow> mm_state \<Rightarrow> mm_state" where
  "mm_copy_to_user p dst bs s =
     (if \<not> mm_vm s then s\<lparr>ram := store_bytes (ram s) dst bs\<rparr>
      else
        let entry = l2_find p dst s in
        if bs \<noteq> [] \<and> length bs \<le> unat (page_run dst) \<and> pt_root (mprocs s p) \<noteq> 0 \<and> entry \<noteq> 0 \<and>
           peek s entry AND PTE_V \<noteq> 0 \<and> peek s entry AND PTE_COW = 0
        then s\<lparr>ram := store_bytes (ram s) ((peek s entry AND PTE_FRAME) OR (dst AND MM_PAGE_MASK)) bs\<rparr>
        else let (ok, s) = vm_prepare_write p dst (of_nat (length bs)) s in
          if \<not> ok then s else vm_write_loop p dst bs s)"

definition mm_copy_user :: "nat \<Rightarrow> u32 \<Rightarrow> nat \<Rightarrow> u32 \<Rightarrow> u32 \<Rightarrow> mm_state \<Rightarrow> mm_state" where
  "mm_copy_user p dst q src len s =
     (if mm_vm s then mm_vm_copy p dst q src len s else s\<lparr>ram := kmem_copy (ram s) dst src len\<rparr>)"

text \<open>Words in kernel variables.\<close>

definition byte_or_0 :: "u8 list \<Rightarrow> nat \<Rightarrow> u8" where
  "byte_or_0 bs i = (if i < length bs then bs ! i else 0)"

definition word_of :: "u8 list \<Rightarrow> nat \<Rightarrow> u32" where
  "word_of bs i = be32 (byte_or_0 bs (4 * i)) (byte_or_0 bs (4 * i + 1)) (byte_or_0 bs (4 * i + 2))
     (byte_or_0 bs (4 * i + 3))"

definition bytes_of_words :: "u32 list \<Rightarrow> u8 list" where
  "bytes_of_words ws = concat (map bytes_of ws)"

definition mm_read32 :: "nat \<Rightarrow> u32 \<Rightarrow> mm_state \<Rightarrow> u32" where
  "mm_read32 p a s = word_of (mm_copy_from_user p a 4 s) 0"

definition mm_write32 :: "nat \<Rightarrow> u32 \<Rightarrow> u32 \<Rightarrow> mm_state \<Rightarrow> mm_state" where
  "mm_write32 p a v s = mm_copy_to_user p a (bytes_of v) s"

definition mm_read8 :: "nat \<Rightarrow> u32 \<Rightarrow> mm_state \<Rightarrow> u8" where
  "mm_read8 p a s = byte_or_0 (mm_copy_from_user p a 1 s) 0"

lemma length_bytes_of [simp]: "length (bytes_of w) = 4"
  by (simp add: bytes_of_def)

lemma length_bytes_of_words [simp]: "length (bytes_of_words ws) = 4 * length ws"
  by (induction ws) (simp_all add: bytes_of_words_def)

lemma word_of_bytes_of [simp]: "word_of (bytes_of w @ bs) 0 = w"
  by (simp add: word_of_def byte_or_0_def bytes_of_def be32_byte_at)

lemma word_of_bytes_of_words:
  "i < length ws \<Longrightarrow> word_of (bytes_of_words ws) i = ws ! i"
proof (induction ws arbitrary: i)
  case (Cons w ws)
  show ?case
  proof (cases i)
    case 0
    then show ?thesis by (simp add: bytes_of_words_def)
  next
    case (Suc j)
    have b: "byte_or_0 (bytes_of w @ bs) (4 * Suc j + k) = byte_or_0 bs (4 * j + k)" for bs k
      by (auto simp: byte_or_0_def nth_append)
    have "word_of (bytes_of w @ bs) (Suc j) = word_of bs j" for bs
      unfolding word_of_def b using b [of bs 0] by simp
    then show ?thesis using Cons Suc by (simp add: bytes_of_words_def)
  qed
qed simp

end
