(* ===== verification/Pipe.thy ===== *)
theory Pipe
  imports User_Mem
begin

text \<open>
  The pipe service (\<open>foundation/services/pipe/main.c\<close>): its tables, the ring buffer of a pipe, the waiting
  requests, and the loop over received messages. What the two system calls return that can fail,
  \<open>fnd_sys_chan_create\<close> and \<open>fnd_sys_ipc_reply\<close>, comes with the event; the replies are kept in a list, each
  with the request it answers.
\<close>

abbreviation PIPES :: nat where "PIPES \<equiv> 16"
abbreviation PIPE_SIZE :: nat where "PIPE_SIZE \<equiv> 4096"
abbreviation PENDING :: nat where "PENDING \<equiv> 16"
abbreviation LOOKUP_BADGE :: u32 where "LOOKUP_BADGE \<equiv> 0x80000000"
abbreviation PIPE_OPEN :: u32 where "PIPE_OPEN \<equiv> 0x400"
abbreviation ST_READ :: u32 where "ST_READ \<equiv> 1"
abbreviation ST_WRITE :: u32 where "ST_WRITE \<equiv> 2"
abbreviation ST_STAT :: u32 where "ST_STAT \<equiv> 4"
abbreviation ST_SYNC :: u32 where "ST_SYNC \<equiv> 6"
abbreviation IPC_MAX_DATA :: u32 where "IPC_MAX_DATA \<equiv> 4096"
abbreviation TYPE_PIPE :: u32 where "TYPE_PIPE \<equiv> 5"

section \<open>State\<close>

record pipe =
  p_id :: u32
  p_read :: u32
  p_write :: u32
  p_head :: nat
  p_count :: nat
  p_buf :: "u8 list"

record pending =
  q_token :: u32
  q_badge :: u32
  q_op :: u32
  q_max :: nat
  q_wbuf :: "u8 list"

record answer =
  ans_result :: int
  ans_a0 :: u32
  ans_data :: "u8 list"
  ans_handle :: "u32 option"

record pipe_svc =
  pipes :: "pipe list"
  pend :: "pending list"
  next_id :: u32
  next_badge :: u32
  replies :: "(pending \<times> answer) list"

text \<open>A received request (\<open>fnd_recv\<close>); its data has the length \<open>m->len\<close>.\<close>

record request =
  r_op :: u32
  r_a0 :: u32
  r_a1 :: u32
  r_data :: "u8 list"
  r_token :: u32
  r_badge :: u32
  r_reply_cap :: u32

definition blank_pipe :: pipe where
  "blank_pipe = \<lparr>p_id = 0, p_read = 0, p_write = 0, p_head = 0, p_count = 0, p_buf = replicate PIPE_SIZE 0\<rparr>"

definition blank_pending :: pending where
  "blank_pending = \<lparr>q_token = 0, q_badge = 0, q_op = 0, q_max = 0, q_wbuf = replicate PIPE_SIZE 0\<rparr>"

definition pipe_start :: pipe_svc where
  "pipe_start = \<lparr>pipes = replicate PIPES blank_pipe, pend = replicate PENDING blank_pending,
     next_id = 0, next_badge = 0, replies = []\<rparr>"

definition upd_pipe :: "nat \<Rightarrow> (pipe \<Rightarrow> pipe) \<Rightarrow> pipe_svc \<Rightarrow> pipe_svc" where
  "upd_pipe j f s = s\<lparr>pipes := (pipes s)[j := f (pipes s ! j)]\<rparr>"

definition upd_pend :: "nat \<Rightarrow> (pending \<Rightarrow> pending) \<Rightarrow> pipe_svc \<Rightarrow> pipe_svc" where
  "upd_pend i f s = s\<lparr>pend := (pend s)[i := f (pend s ! i)]\<rparr>"

definition reply :: "pending \<Rightarrow> answer \<Rightarrow> pipe_svc \<Rightarrow> pipe_svc" where
  "reply q a s = s\<lparr>replies := replies s @ [(q, a)]\<rparr>"

definition plain :: "int \<Rightarrow> u32 \<Rightarrow> u8 list \<Rightarrow> answer" where
  "plain result a0 bytes = \<lparr>ans_result = result, ans_a0 = a0, ans_data = bytes, ans_handle = None\<rparr>"

text \<open>The pipe of an end and whether the end is the one for writing.\<close>

definition by_badge :: "u32 \<Rightarrow> pipe_svc \<Rightarrow> (nat \<times> bool) option" where
  "by_badge b s =
     (if b = 0 then None
      else case find (\<lambda>j. p_id (pipes s ! j) \<noteq> 0 \<and> (p_read (pipes s ! j) = b \<or> p_write (pipes s ! j) = b)) [0..<PIPES] of
          None \<Rightarrow> None
        | Some j \<Rightarrow> Some (j, p_read (pipes s ! j) \<noteq> b))"

definition bump :: "u32 \<Rightarrow> u32" where
  "bump n = (if 0x7FFFFFFF \<le> n then 1 else n + 1)"

section \<open>Answering the requests that wait\<close>

definition ring_get :: "pipe \<Rightarrow> nat \<Rightarrow> u8 list" where
  "ring_get p n = map (\<lambda>k. p_buf p ! ((p_head p + k) mod PIPE_SIZE)) [0..<n]"

definition ring_put :: "pipe \<Rightarrow> nat \<Rightarrow> u8 list \<Rightarrow> u8 list" where
  "ring_put p n bs = fold (\<lambda>k buf. buf[(p_head p + p_count p + k) mod PIPE_SIZE := bs ! k]) [0..<n] (p_buf p)"

text \<open>The body of the loop: the pipe afterwards and the reply, when the state of the pipe settles the request.\<close>

definition answer_for :: "pipe \<Rightarrow> pending \<Rightarrow> (pipe \<times> answer) option" where
  "answer_for p q =
     (if q_op q = ST_READ \<and> q_badge q = p_read p then
        if p_count p \<noteq> 0 then
          let n = (if p_count p < q_max q then p_count p else q_max q) in
          Some (p\<lparr>p_head := (p_head p + n) mod PIPE_SIZE, p_count := p_count p - n\<rparr>, plain FND_OK 0 (ring_get p n))
        else if p_write p = 0 then Some (p, plain FND_OK 0 [])
        else None
      else if q_op q = ST_WRITE \<and> q_badge q = p_write p then
        if p_read p = 0 then Some (p, plain FND_E_PEER_GONE 0 [])
        else if p_count p + q_max q \<le> PIPE_SIZE then
          Some (p\<lparr>p_buf := ring_put p (q_max q) (q_wbuf q), p_count := p_count p + q_max q\<rparr>,
                plain FND_OK (word_of_nat (q_max q)) [])
        else None
      else None)"

definition settle_one :: "nat \<Rightarrow> nat \<Rightarrow> pipe_svc \<Rightarrow> pipe_svc" where
  "settle_one j i s =
     (let q = pend s ! i in
      if q_badge q = 0 then s
      else case answer_for (pipes s ! j) q of
          None \<Rightarrow> s
        | Some (p, a) \<Rightarrow> upd_pend i (\<lambda>q. q\<lparr>q_badge := 0\<rparr>) (reply q a (upd_pipe j (\<lambda>_. p) s)))"

definition settle :: "nat \<Rightarrow> pipe_svc \<Rightarrow> pipe_svc" where
  "settle j s = fold (settle_one j) [0..<PENDING] s"

definition settle_round :: "pipe_svc \<Rightarrow> pipe_svc" where
  "settle_round s = fold (\<lambda>j s. if p_id (pipes s ! j) \<noteq> 0 then settle j s else s) [0..<PIPES] s"

definition settle_all :: "pipe_svc \<Rightarrow> pipe_svc" where
  "settle_all s = settle_round (settle_round s)"

text \<open>The slot a request waits in, if one is free.\<close>

definition queue :: "request \<Rightarrow> u32 \<Rightarrow> nat \<Rightarrow> pipe_svc \<Rightarrow> (nat \<times> pipe_svc) option" where
  "queue r op most s =
     (case find (\<lambda>i. q_badge (pend s ! i) = 0) [0..<PENDING] of
        None \<Rightarrow> None
      | Some i \<Rightarrow> Some (i, upd_pend i (\<lambda>q. q\<lparr>q_token := r_token r, q_badge := r_badge r, q_op := op, q_max := most\<rparr>) s))"

section \<open>Requests\<close>

definition as_request :: "request \<Rightarrow> pending" where
  "as_request r = \<lparr>q_token = r_token r, q_badge = r_badge r, q_op = r_op r, q_max = 0, q_wbuf = []\<rparr>"

definition handed :: "u32 \<Rightarrow> int \<Rightarrow> answer" where
  "handed n ch = \<lparr>ans_result = FND_OK, ans_a0 = n, ans_data = [], ans_handle = Some (word_of_int ch)\<rparr>"

definition open_new :: "request \<Rightarrow> int \<Rightarrow> bool \<Rightarrow> pipe_svc \<Rightarrow> int \<times> pipe_svc" where
  "open_new r ch sent s =
     (case find (\<lambda>j. p_id (pipes s ! j) = 0) [0..<PIPES] of
        None \<Rightarrow> (FND_E_LIMIT, s)
      | Some j \<Rightarrow>
          let n = bump (next_id s); b = bump (next_badge s);
              s = upd_pipe j (\<lambda>_. blank_pipe\<lparr>p_id := n, p_read := b\<rparr>) (s\<lparr>next_id := n, next_badge := b\<rparr>)
          in if ch < 0 then (ch, upd_pipe j (\<lambda>p. p\<lparr>p_id := 0\<rparr>) s)
             else if sent then (FND_OK, reply (as_request r) (handed n ch) s)
             else (FND_OK, upd_pipe j (\<lambda>p. p\<lparr>p_id := 0\<rparr>) s))"

definition open_write :: "request \<Rightarrow> int \<Rightarrow> bool \<Rightarrow> pipe_svc \<Rightarrow> int \<times> pipe_svc" where
  "open_write r ch sent s =
     (case find (\<lambda>j. p_id (pipes s ! j) = r_a1 r \<and> r_a1 r \<noteq> 0) [0..<PIPES] of
        None \<Rightarrow> (FND_E_NOT_FOUND, s)
      | Some j \<Rightarrow>
          if p_write (pipes s ! j) \<noteq> 0 then (FND_E_NOT_FOUND, s)
          else let b = bump (next_badge s); s = s\<lparr>next_badge := b\<rparr>
            in if ch < 0 then (ch, s)
               else if \<not> sent then (FND_OK, s)
               else (FND_OK, upd_pipe j (\<lambda>p. p\<lparr>p_write := b\<rparr>) (reply (as_request r) (handed (p_id (pipes s ! j)) ch) s)))"

definition pipe_open :: "request \<Rightarrow> int \<Rightarrow> bool \<Rightarrow> pipe_svc \<Rightarrow> int \<times> pipe_svc" where
  "pipe_open r ch sent s =
     (if r_a0 r = 0 then open_new r ch sent s
      else if r_a0 r \<noteq> 1 then (FND_E_BAD_ARG, s)
      else open_write r ch sent s)"

definition pipe_stat :: "bool \<Rightarrow> u8 list" where
  "pipe_stat is_write = bytes_of_words ([TYPE_PIPE, if is_write then 0x12 else 0x24] @ replicate 14 0)"

text \<open>Whether the request was answered or will be, the result when not, and the state.\<close>

definition handle_read :: "request \<Rightarrow> bool \<Rightarrow> pipe_svc \<Rightarrow> bool \<times> int \<times> pipe_svc" where
  "handle_read r is_write s =
     (if is_write then (False, FND_E_ACCESS, s)
      else if r_a0 r = 0 \<or> IPC_MAX_DATA < r_a0 r then (False, FND_E_BAD_ARG, s)
      else (case queue r ST_READ (unat (if r_a0 r < r_reply_cap r then r_a0 r else r_reply_cap r)) s of
          None \<Rightarrow> (False, FND_E_LIMIT, s)
        | Some (i, s) \<Rightarrow> (True, FND_OK, settle_all s)))"

definition handle_write :: "request \<Rightarrow> bool \<Rightarrow> pipe_svc \<Rightarrow> bool \<times> int \<times> pipe_svc" where
  "handle_write r is_write s =
     (let len = length (r_data r) in
      if \<not> is_write then (False, FND_E_ACCESS, s)
      else if PIPE_SIZE < len then (False, FND_E_BAD_ARG, s)
      else if len = 0 then (True, FND_OK, reply (as_request r) (plain FND_OK 0 []) s)
      else (case queue r ST_WRITE len s of
          None \<Rightarrow> (False, FND_E_LIMIT, s)
        | Some (i, s) \<Rightarrow> (True, FND_OK,
            settle_all (upd_pend i (\<lambda>q. q\<lparr>q_wbuf := r_data r @ drop len (q_wbuf q)\<rparr>) s))))"

definition handle :: "request \<Rightarrow> int \<Rightarrow> bool \<Rightarrow> pipe_svc \<Rightarrow> bool \<times> int \<times> pipe_svc" where
  "handle r ch sent s =
     (if r_badge r AND LOOKUP_BADGE \<noteq> 0 then
        if r_op r \<noteq> PIPE_OPEN then (False, FND_E_UNSUPPORTED, s)
        else (case pipe_open r ch sent s of (result, s) \<Rightarrow> (result = FND_OK, result, s))
      else (case by_badge (r_badge r) s of
          None \<Rightarrow> (False, FND_E_BAD_HANDLE, s)
        | Some (j, is_write) \<Rightarrow>
            if r_op r = ST_READ then handle_read r is_write s
            else if r_op r = ST_WRITE then handle_write r is_write s
            else if r_op r = ST_STAT then (True, FND_OK, reply (as_request r) (plain FND_OK 0 (pipe_stat is_write)) s)
            else if r_op r = ST_SYNC then (False, FND_OK, s)
            else (False, FND_E_UNSUPPORTED, s)))"

section \<open>Closed ends and the loop of the service\<close>

definition client_gone :: "u32 \<Rightarrow> pipe_svc \<Rightarrow> pipe_svc" where
  "client_gone b s =
     (case by_badge b s of
        None \<Rightarrow> s
      | Some (j, is_write) \<Rightarrow>
          let s = upd_pipe j (\<lambda>p. if is_write then p\<lparr>p_write := 0\<rparr> else p\<lparr>p_read := 0\<rparr>) s;
              s = s\<lparr>pend := map (\<lambda>q. if q_badge q = b then q\<lparr>q_badge := 0\<rparr> else q) (pend s)\<rparr>;
              s = settle j s
          in if p_read (pipes s ! j) = 0 \<and> p_write (pipes s ! j) = 0 then upd_pipe j (\<lambda>p. p\<lparr>p_id := 0\<rparr>) s else s)"

datatype pipe_msg =
    Client_gone u32
  | Request request int bool

fun pipe_event :: "pipe_msg \<Rightarrow> pipe_svc \<Rightarrow> pipe_svc" where
  "pipe_event (Client_gone b) s = client_gone b s"
| "pipe_event (Request r ch sent) s =
     (case handle r ch sent s of (answered, result, s) \<Rightarrow>
        if answered then s else reply (as_request r) (plain result 0 []) s)"

definition pipe_run :: "pipe_msg list \<Rightarrow> pipe_svc \<Rightarrow> pipe_svc" where
  "pipe_run es s = fold pipe_event es s"

end
