(* ===== verification/Pipe_Facts.thy ===== *)
theory Pipe_Facts
  imports Pipe
begin

text \<open>
  What the pipe service promises: bytes come out of a pipe in the order they went in, whole writes only,
  and no request is left waiting that could be answered.
\<close>

section \<open>The ring buffer\<close>

definition contents :: "pipe \<Rightarrow> u8 list" where
  "contents p = ring_get p (p_count p)"

definition pipe_ok :: "pipe \<Rightarrow> bool" where
  "pipe_ok p \<longleftrightarrow> length (p_buf p) = PIPE_SIZE \<and> p_head p < PIPE_SIZE \<and> p_count p \<le> PIPE_SIZE"

lemma length_ring [simp]: "length (ring_get p n) = n" "length (contents p) = p_count p"
  by (simp_all add: ring_get_def contents_def)

lemma ring_get_read:
  assumes "n \<le> p_count p"
  shows "ring_get p n @ contents (p\<lparr>p_head := (p_head p + n) mod PIPE_SIZE, p_count := p_count p - n\<rparr>) = contents p"
proof -
  let ?p = "p\<lparr>p_head := (p_head p + n) mod PIPE_SIZE, p_count := p_count p - n\<rparr>"
  have "contents ?p = map (\<lambda>k. p_buf p ! ((p_head p + (n + k)) mod PIPE_SIZE)) [0..<p_count p - n]"
    by (simp add: contents_def ring_get_def mod_add_left_eq add.assoc)
  also have "\<dots> = map (\<lambda>k. p_buf p ! ((p_head p + k) mod PIPE_SIZE)) [n..<p_count p]"
    using assms by (intro nth_equalityI) simp_all
  finally have "ring_get p n @ contents ?p = map (\<lambda>k. p_buf p ! ((p_head p + k) mod PIPE_SIZE)) ([0..<n] @ [n..<p_count p])"
    by (simp add: ring_get_def)
  also have "[0..<n] @ [n..<p_count p] = [0..<p_count p]" using assms by (metis le0 le_add_diff_inverse upt_add_eq_append)
  finally show ?thesis by (simp add: contents_def ring_get_def)
qed

lemma mod_inj: "a < m \<Longrightarrow> b < m \<Longrightarrow> (h + a) mod m = (h + b) mod m \<longleftrightarrow> a = (b :: nat)"
proof (induction a b rule: linorder_wlog)
  case (le a b)
  have "(h + b) mod m = (h + a) mod m \<longleftrightarrow> m dvd b - a" using le(1) by (subst mod_eq_dvd_iff_nat) simp_all
  moreover have "m dvd b - a \<longleftrightarrow> a = b" using le by (auto dest: dvd_imp_le)
  ultimately show ?case by (simp add: eq_commute)
qed (simp add: eq_commute)

lemma ring_put_length: "length (ring_put p n bs) = length (p_buf p)"
proof -
  have "length (fold (\<lambda>k buf. buf[f k := bs ! k]) ks buf) = length buf" for ks f and buf :: "u8 list"
    by (induction ks arbitrary: buf) simp_all
  then show ?thesis by (simp add: ring_put_def)
qed

lemma ring_put_nth:
  assumes "p_count p + n \<le> PIPE_SIZE" "length (p_buf p) = PIPE_SIZE" "m < PIPE_SIZE"
  shows "ring_put p n bs ! ((p_head p + m) mod PIPE_SIZE) =
    (if p_count p \<le> m \<and> m < p_count p + n then bs ! (m - p_count p) else p_buf p ! ((p_head p + m) mod PIPE_SIZE))"
  using assms(1)
proof (induction n)
  case (Suc n)
  have e: "ring_put p (Suc n) bs = (ring_put p n bs)[(p_head p + p_count p + n) mod PIPE_SIZE := bs ! n]"
    by (simp add: ring_put_def)
  have "(p_head p + (p_count p + n)) mod PIPE_SIZE = (p_head p + m) mod PIPE_SIZE \<longleftrightarrow> p_count p + n = m"
    using Suc.prems assms(3) by (intro mod_inj) simp_all
  then show ?case using Suc assms by (auto simp: e nth_list_update ring_put_length add.assoc)
qed (auto simp: ring_put_def)

lemma ring_put_contents:
  assumes "p_count p + n \<le> PIPE_SIZE" "length (p_buf p) = PIPE_SIZE" "n \<le> length bs"
  shows "contents (p\<lparr>p_buf := ring_put p n bs, p_count := p_count p + n\<rparr>) = contents p @ take n bs"
proof (rule nth_equalityI)
  fix k assume "k < length (contents (p\<lparr>p_buf := ring_put p n bs, p_count := p_count p + n\<rparr>))"
  then have k: "k < p_count p + n" by simp
  then have "k < PIPE_SIZE" using assms(1) by simp
  from ring_put_nth [OF assms(1,2) this, of bs] k
  show "contents (p\<lparr>p_buf := ring_put p n bs, p_count := p_count p + n\<rparr>) ! k = (contents p @ take n bs) ! k"
    using assms(3) by (auto simp: nth_append contents_def ring_get_def)
qed (use assms in simp)

lemma answer_ok: "answer_for p q = Some (p', a) \<Longrightarrow> pipe_ok p \<Longrightarrow> pipe_ok p'"
  by (auto simp: answer_for_def pipe_ok_def ring_put_length Let_def split: if_splits)

lemma answer_ends: "answer_for p q = Some (p', a) \<Longrightarrow> p_id p' = p_id p \<and> p_read p' = p_read p \<and> p_write p' = p_write p"
  by (auto simp: answer_for_def Let_def split: if_splits)

text \<open>The replies that move bytes: those of a read that succeeded, and of a write that did.\<close>

definition taken :: "u32 \<Rightarrow> (pending \<times> answer) list \<Rightarrow> u8 list" where
  "taken b l = concat (map (\<lambda>(q, a). ans_data a) (filter (\<lambda>(q, a). q_op q = ST_READ \<and> q_badge q = b \<and> ans_result a = FND_OK) l))"

definition given :: "u32 \<Rightarrow> (pending \<times> answer) list \<Rightarrow> u8 list" where
  "given b l = concat (map (\<lambda>(q, a). take (q_max q) (q_wbuf q))
     (filter (\<lambda>(q, a). q_op q = ST_WRITE \<and> q_badge q = b \<and> ans_result a = FND_OK) l))"

lemma moves_append [simp]:
  "taken b (l @ m) = taken b l @ taken b m" "given b (l @ m) = given b l @ given b m" "taken b [] = []" "given b [] = []"
  by (simp_all add: taken_def given_def)

lemma answer_moves:
  assumes "answer_for p q = Some (p', a)" "pipe_ok p" "q_max q \<le> length (q_wbuf q)" "p_read p \<noteq> p_write p"
  shows "taken (p_read p) [(q, a)] @ contents p' = contents p @ given (p_write p) [(q, a)] \<or> p_read p = 0"
    "taken b [(q, a)] \<noteq> [] \<Longrightarrow> b = p_read p" "given b [(q, a)] \<noteq> [] \<Longrightarrow> b = p_write p"
  using assms ring_get_read [of "p_count p" p] ring_get_read [of "q_max q" p] ring_put_contents [of p "q_max q" "q_wbuf q"]
  by (auto simp: answer_for_def taken_def given_def plain_def pipe_ok_def Let_def split: if_splits)

section \<open>The invariant\<close>

text \<open>\<open>is_end s (j, w) b\<close>: \<open>b\<close> is the badge of an open end of pipe \<open>j\<close>, for writing if \<open>w\<close>.\<close>

definition is_end :: "pipe_svc \<Rightarrow> nat \<times> bool \<Rightarrow> u32 \<Rightarrow> bool" where
  "is_end s x b \<longleftrightarrow> (case x of (j, w) \<Rightarrow> j < PIPES \<and> p_id (pipes s ! j) \<noteq> 0 \<and> b \<noteq> 0 \<and>
     (if w then p_write (pipes s ! j) else p_read (pipes s ! j)) = b)"

definition shape_ok :: "pipe_svc \<Rightarrow> bool" where
  "shape_ok s \<longleftrightarrow> length (pipes s) = PIPES \<and> length (pend s) = PENDING \<and> (\<forall>j<PIPES. pipe_ok (pipes s ! j)) \<and>
     (\<forall>i<PENDING. q_max (pend s ! i) \<le> PIPE_SIZE \<and> length (q_wbuf (pend s ! i)) = PIPE_SIZE)"

definition ends_ok :: "pipe_svc \<Rightarrow> bool" where
  "ends_ok s \<longleftrightarrow> (\<forall>x b. is_end s x b \<longrightarrow> unat b \<le> unat (next_badge s)) \<and>
     (\<forall>x y b. is_end s x b \<longrightarrow> is_end s y b \<longrightarrow> x = y)"

text \<open>\<open>W j\<close> are the badges that the write end of pipe \<open>j\<close> has had, in order.\<close>

definition writers_ok :: "pipe_svc \<Rightarrow> nat \<Rightarrow> u32 list \<Rightarrow> bool" where
  "writers_ok s j ws \<longleftrightarrow> distinct ws \<and>
     (\<forall>w\<in>set ws. w \<noteq> 0 \<and> unat w \<le> unat (next_badge s) \<and> (\<forall>x. is_end s x w \<longrightarrow> x = (j, True))) \<and>
     (p_write (pipes s ! j) \<noteq> 0 \<longrightarrow> ws \<noteq> [] \<and> last ws = p_write (pipes s ! j))"

definition in_order :: "pipe_svc \<Rightarrow> nat \<Rightarrow> u32 list \<Rightarrow> bool" where
  "in_order s j ws \<longleftrightarrow> (p_read (pipes s ! j) \<noteq> 0 \<longrightarrow>
     concat (map (\<lambda>w. given w (replies s)) ws) = taken (p_read (pipes s ! j)) (replies s) @ contents (pipes s ! j))"

definition log_ok :: "pipe_svc \<Rightarrow> bool" where
  "log_ok s \<longleftrightarrow> (\<forall>b. unat (next_badge s) < unat b \<longrightarrow> taken b (replies s) = [] \<and> given b (replies s) = [])"

definition svc_ok :: "pipe_svc \<Rightarrow> (nat \<Rightarrow> u32 list) \<Rightarrow> bool" where
  "svc_ok s W \<longleftrightarrow> shape_ok s \<and> ends_ok s \<and> log_ok s \<and>
     (\<forall>j<PIPES. p_id (pipes s ! j) \<noteq> 0 \<longrightarrow> writers_ok s j (W j) \<and> in_order s j (W j))"

lemma svc_okI:
  assumes "shape_ok s" "ends_ok s" "log_ok s"
    "\<And>j. j < PIPES \<Longrightarrow> p_id (pipes s ! j) \<noteq> 0 \<Longrightarrow> writers_ok s j (W j) \<and> in_order s j (W j)"
  shows "svc_ok s W"
  using assms by (simp add: svc_ok_def)

lemma concat_last:
  assumes "distinct ws" "ws \<noteq> []" "last ws = w" "\<And>v. v \<in> set ws \<Longrightarrow> v \<noteq> w \<Longrightarrow> f v = g v" "f w = g w @ d"
  shows "concat (map f ws) = concat (map g ws) @ d"
proof -
  have ws: "ws = butlast ws @ [w]" using assms(2,3) append_butlast_last_id [of ws] by simp
  then have "distinct (butlast ws @ [w])" using assms(1) by simp
  then have "w \<notin> set (butlast ws)" by simp
  then have m: "map f (butlast ws) = map g (butlast ws)" using assms(4) by (auto dest: in_set_butlastD)
  then have "concat (map f (butlast ws @ [w])) = concat (map g (butlast ws @ [w])) @ d"
    by (simp only: map_append concat_append list.map concat.simps m assms(5) append_Nil2 append_assoc)
  then show ?thesis using ws by simp
qed

lemma settle_one_fields:
  "next_badge (settle_one j i s) = next_badge s" "next_id (settle_one j i s) = next_id s"
  by (simp_all add: settle_one_def upd_pipe_def upd_pend_def reply_def Let_def split: option.split prod.split)

lemma settle_one_cases:
  obtains "settle_one j i s = s" "q_badge (pend s ! i) = 0 \<or> answer_for (pipes s ! j) (pend s ! i) = None"
  | p a where "answer_for (pipes s ! j) (pend s ! i) = Some (p, a)" "q_badge (pend s ! i) \<noteq> 0"
      "pipes (settle_one j i s) = (pipes s)[j := p]" "pend (settle_one j i s) = (pend s)[i := (pend s ! i)\<lparr>q_badge := 0\<rparr>]"
      "replies (settle_one j i s) = replies s @ [(pend s ! i, a)]"
proof (cases "q_badge (pend s ! i) = 0 \<or> answer_for (pipes s ! j) (pend s ! i) = None")
  case True
  then show thesis using that(1) by (auto simp: settle_one_def Let_def)
next
  case False
  then obtain p a where "answer_for (pipes s ! j) (pend s ! i) = Some (p, a)" by auto
  then show thesis using False by (intro that(2)) (simp_all add: settle_one_def upd_pipe_def upd_pend_def reply_def Let_def)
qed

lemma settle_one_ends:
  assumes "j < PIPES" "length (pipes s) = PIPES"
  shows "p_id (pipes (settle_one j i s) ! k) = p_id (pipes s ! k)" "p_read (pipes (settle_one j i s) ! k) = p_read (pipes s ! k)"
    "p_write (pipes (settle_one j i s) ! k) = p_write (pipes s ! k)" "length (pipes (settle_one j i s)) = length (pipes s)"
proof -
  have "p_id (pipes (settle_one j i s) ! k) = p_id (pipes s ! k) \<and> p_read (pipes (settle_one j i s) ! k) = p_read (pipes s ! k) \<and>
    p_write (pipes (settle_one j i s) ! k) = p_write (pipes s ! k) \<and> length (pipes (settle_one j i s)) = length (pipes s)"
    by (rule settle_one_cases [of j i s]) (use answer_ends assms in \<open>auto simp: nth_list_update\<close>)
  then show "p_id (pipes (settle_one j i s) ! k) = p_id (pipes s ! k)" "p_read (pipes (settle_one j i s) ! k) = p_read (pipes s ! k)"
    "p_write (pipes (settle_one j i s) ! k) = p_write (pipes s ! k)" "length (pipes (settle_one j i s)) = length (pipes s)"
    by simp_all
qed

lemma settle_one_shape:
  assumes "shape_ok s" "j < PIPES" "i < PENDING"
  shows "shape_ok (settle_one j i s)"
proof (rule settle_one_cases [of j i s])
  fix p a
  assume h: "answer_for (pipes s ! j) (pend s ! i) = Some (p, a)" "pipes (settle_one j i s) = (pipes s)[j := p]"
    "pend (settle_one j i s) = (pend s)[i := (pend s ! i)\<lparr>q_badge := 0\<rparr>]"
  have "pipe_ok p" using answer_ok [OF h(1)] assms by (simp add: shape_ok_def)
  then show ?thesis using assms unfolding shape_ok_def h(2,3) by (simp add: nth_list_update)
qed (use assms in simp)

lemma settle_one_ok:
  assumes ok: "svc_ok s W" and j: "j < PIPES" "p_id (pipes s ! j) \<noteq> 0" and i: "i < PENDING"
  shows "svc_ok (settle_one j i s) W"
proof (cases "q_badge (pend s ! i) = 0 \<or> answer_for (pipes s ! j) (pend s ! i) = None")
  case True
  then have "settle_one j i s = s" by (auto simp: settle_one_def Let_def)
  then show ?thesis using ok by simp
next
  case False
  define p q where "p = pipes s ! j" and "q = pend s ! i"
  obtain p' a where a: "answer_for p q = Some (p', a)" and q: "q_badge q \<noteq> 0" using False by (auto simp: p_def q_def)
  let ?s = "settle_one j i s"
  have shape: "shape_ok s" and ends: "ends_ok s" and log: "log_ok s" using ok by (simp_all add: svc_ok_def)
  have len: "length (pipes s) = PIPES" using shape by (simp add: shape_ok_def)
  note same = settle_one_ends [OF j(1) len] settle_one_fields
  have is_end: "is_end ?s x b = is_end s x b" for x b by (simp add: is_end_def same split: prod.split)
  have reps: "replies ?s = replies s @ [(q, a)]" and pj: "pipes ?s = (pipes s)[j := p']"
    using a q by (simp_all add: settle_one_def upd_pipe_def upd_pend_def reply_def Let_def p_def q_def)
  have pok: "pipe_ok p" "q_max q \<le> length (q_wbuf q)" using shape j i by (simp_all add: shape_ok_def p_def q_def)
  have tk: "taken b [(q, a)] \<noteq> [] \<Longrightarrow> b = p_read p \<and> b \<noteq> 0" and gv: "given b [(q, a)] \<noteq> [] \<Longrightarrow> b = p_write p \<and> b \<noteq> 0" for b
    using a q by (auto simp: answer_for_def taken_def given_def plain_def Let_def split: if_splits)
  have uniq: "\<And>x y b. is_end s x b \<Longrightarrow> is_end s y b \<Longrightarrow> x = y" and low: "\<And>x b. is_end s x b \<Longrightarrow> unat b \<le> unat (next_badge s)"
    using ends unfolding ends_ok_def by blast+
  have rd: "p_read p \<noteq> 0 \<Longrightarrow> is_end s (j, False) (p_read p)" and wr: "p_write p \<noteq> 0 \<Longrightarrow> is_end s (j, True) (p_write p)"
    using j by (simp_all add: is_end_def p_def)
  have rw: "p_read p \<noteq> p_write p \<or> p_read p = 0" using uniq [of "(j, False)" "p_read p" "(j, True)"] rd wr by (metis Pair_inject)
  show ?thesis
  proof (rule svc_okI)
    show "shape_ok ?s" by (rule settle_one_shape [OF shape j(1) i])
    show "ends_ok ?s" using ends by (simp add: ends_ok_def is_end same)
    show "log_ok ?s" unfolding log_ok_def reps same moves_append
    proof (intro allI impI)
      fix b :: u32 assume b: "unat (next_badge s) < unat b"
      then have "\<not> is_end s x b" for x using low [of x b] by auto
      then have "taken b [(q, a)] = []" "given b [(q, a)] = []" using tk [of b] gv [of b] rd wr by auto
      then show "taken b (replies s) @ taken b [(q, a)] = [] \<and> given b (replies s) @ given b [(q, a)] = []"
        using log b by (simp add: log_ok_def)
    qed
    fix k assume k: "k < PIPES" "p_id (pipes ?s ! k) \<noteq> 0"
    have wk: "writers_ok s k (W k)" and ik: "in_order s k (W k)" using ok k by (simp_all add: svc_ok_def same)
    have "in_order ?s k (W k)"
    proof (cases "k = j")
      case kj: False
      have "given w [(q, a)] = []" if "w \<in> set (W k)" for w
      proof (rule ccontr)
        assume "given w [(q, a)] \<noteq> []"
        then have "is_end s (j, True) w" using gv wr by auto
        then show False using wk that kj by (auto simp: writers_ok_def)
      qed
      moreover have "taken (p_read (pipes s ! k)) [(q, a)] = []" if "p_read (pipes s ! k) \<noteq> 0"
      proof (rule ccontr)
        assume "taken (p_read (pipes s ! k)) [(q, a)] \<noteq> []"
        then have "is_end s (j, False) (p_read (pipes s ! k))" "is_end s (k, False) (p_read (pipes s ! k))"
          using tk rd k that by (auto simp: is_end_def same)
        then show False using uniq kj by blast
      qed
      ultimately show ?thesis using ik kj unfolding in_order_def same reps by (simp add: pj cong: map_cong)
    next
      case kj: True
      show ?thesis
      proof (cases "p_read p = 0")
        case True
        then show ?thesis using kj by (simp add: in_order_def same p_def)
      next
        case False
        then have mv: "taken (p_read p) [(q, a)] @ contents p' = contents p @ given (p_write p) [(q, a)]"
          using answer_moves(1) [OF a pok] rw by blast
        have g: "concat (map (\<lambda>w. given w (replies s @ [(q, a)])) (W j)) = concat (map (\<lambda>w. given w (replies s)) (W j)) @ given (p_write p) [(q, a)]"
        proof (cases "p_write p = 0")
          case True
          then have "given w [(q, a)] = []" for w using gv by blast
          then show ?thesis using True by simp
        next
          case w: False
          show ?thesis
          proof (rule concat_last [where w = "p_write p"])
            show "distinct (W j)" "W j \<noteq> []" "last (W j) = p_write p" using wk w kj by (simp_all add: writers_ok_def p_def)
            show "given v (replies s @ [(q, a)]) = given v (replies s)" if "v \<noteq> p_write p" for v using gv that by auto
          qed simp
        qed
        have "concat (map (\<lambda>w. given w (replies s @ [(q, a)])) (W j)) = taken (p_read p) (replies s) @ contents p @ given (p_write p) [(q, a)]"
          using ik kj False by (simp add: g in_order_def p_def [symmetric] del: moves_append)
        also have "\<dots> = taken (p_read p') (replies s @ [(q, a)]) @ contents p'"
          using answer_ends [OF a] by (simp add: mv [symmetric])
        finally show ?thesis using kj j len answer_ends [OF a] by (simp add: in_order_def reps pj del: moves_append)
      qed
    qed
    moreover have "writers_ok ?s k (W k)" using wk unfolding writers_ok_def is_end same .
    ultimately show "writers_ok ?s k (W k) \<and> in_order ?s k (W k)" by blast
  qed
qed

lemma svc_ok_frame:
  assumes "svc_ok s W" "shape_ok t" "pipes t = pipes s" "unat (next_badge s) \<le> unat (next_badge t)"
    "\<And>b. taken b (replies t) = taken b (replies s) \<and> given b (replies t) = given b (replies s)"
  shows "svc_ok t W"
proof -
  have e: "is_end t x b = is_end s x b" for x b by (simp add: is_end_def assms(3))
  have "ends_ok t" using assms(1,4) unfolding svc_ok_def ends_ok_def e by (meson le_trans)
  moreover have "log_ok t" using assms(1,4,5) unfolding svc_ok_def log_ok_def by (metis le_less_trans)
  moreover have "writers_ok t j (W j)" if "writers_ok s j (W j)" for j
    using that assms(4) unfolding writers_ok_def e assms(3) by (meson le_trans)
  moreover have "in_order t j (W j)" if "in_order s j (W j)" for j
    using that unfolding in_order_def assms(3) by (simp add: assms(5))
  ultimately show ?thesis using assms(1,2) unfolding svc_ok_def assms(3) by blast
qed

text \<open>Closing an end or a pipe.\<close>

lemma svc_ok_close:
  assumes ok: "svc_ok s W" and t: "shape_ok t" "pipes t = (pipes s)[j := p]" "next_badge t = next_badge s" "replies t = replies s"
    and j: "j < PIPES" "contents p = contents (pipes s ! j)" "p_id p = p_id (pipes s ! j) \<or> p_id p = 0"
      "p_read p = p_read (pipes s ! j) \<or> p_read p = 0" "p_write p = p_write (pipes s ! j) \<or> p_write p = 0"
  shows "svc_ok t W"
proof -
  have len: "length (pipes s) = PIPES" using ok by (simp add: svc_ok_def shape_ok_def)
  have e: "is_end t x b \<Longrightarrow> is_end s x b" for x b
    using j by (cases x) (auto simp: is_end_def t(2) nth_list_update len split: if_splits)
  have "ends_ok t" using ok e unfolding svc_ok_def ends_ok_def t(3) by blast
  moreover have "log_ok t" using ok unfolding svc_ok_def log_ok_def t(3,4) by blast
  moreover have "writers_ok t k (W k) \<and> in_order t k (W k)" if k: "k < PIPES" "p_id (pipes t ! k) \<noteq> 0" for k
  proof -
    have "p_id (pipes s ! k) \<noteq> 0" using k j by (auto simp: t(2) nth_list_update len split: if_splits)
    then have "writers_ok s k (W k)" "in_order s k (W k)" using ok k by (simp_all add: svc_ok_def)
    moreover have "p_write (pipes t ! k) = p_write (pipes s ! k) \<or> p_write (pipes t ! k) = 0"
      "p_read (pipes t ! k) = p_read (pipes s ! k) \<or> p_read (pipes t ! k) = 0" "contents (pipes t ! k) = contents (pipes s ! k)"
      using j by (auto simp: t(2) nth_list_update len)
    ultimately show ?thesis using e unfolding writers_ok_def in_order_def t(3,4) by metis
  qed
  ultimately show ?thesis using t(1) by (intro svc_okI) blast+
qed

lemma bump_less: "unat n < 2147483647 \<Longrightarrow> unat (bump n) = unat n + 1"
proof -
  assume "unat n < 2147483647"
  then show ?thesis by (simp add: bump_def word_le_nat_alt unat_word_ariths)
qed

lemma contents_blank: "p_count p = 0 \<Longrightarrow> contents p = []"
  by (simp add: contents_def ring_get_def)

text \<open>A pipe is made in a free slot; its read end gets a badge that no end had before.\<close>

lemma svc_ok_new:
  assumes ok: "svc_ok s W" and t: "shape_ok t" "pipes t = (pipes s)[j := p]" "next_badge t = b" "replies t = replies s"
    and j: "j < PIPES" "p_id (pipes s ! j) = 0" "p_read p = b" "p_write p = 0" "p_count p = 0" and b: "unat b = unat (next_badge s) + 1"
  shows "svc_ok t (W(j := []))"
proof -
  have len: "length (pipes s) = PIPES" and ends: "ends_ok s" and log: "log_ok s" using ok by (simp_all add: svc_ok_def shape_ok_def)
  have e: "is_end t x c \<Longrightarrow> is_end s x c \<or> x = (j, False) \<and> c = b" for x c
    using j by (cases x) (auto simp: is_end_def t(2) nth_list_update len split: if_splits)
  have new: "\<not> is_end s x b" for x using ends b unfolding ends_ok_def by (metis Suc_eq_plus1 not_less_eq_eq order_refl)
  have "unat c \<le> unat b" if "is_end s x c" for x c using ends that b unfolding ends_ok_def by (metis Suc_eq_plus1 le_SucI)
  then have "ends_ok t" using ends e new unfolding ends_ok_def t(3) by (metis order_refl)
  moreover have "log_ok t" using log b unfolding log_ok_def t(3,4) by (metis Suc_eq_plus1 Suc_lessD)
  moreover have "writers_ok t k ((W(j := [])) k) \<and> in_order t k ((W(j := [])) k)" if k: "k < PIPES" "p_id (pipes t ! k) \<noteq> 0" for k
  proof (cases "k = j")
    case True
    have "taken b (replies s) = []" using log b by (simp add: log_ok_def)
    then show ?thesis using True j len by (simp add: writers_ok_def in_order_def t contents_blank)
  next
    case False
    have p: "pipes t ! k = pipes s ! k" using False by (simp add: t(2))
    then have ko: "writers_ok s k (W k)" "in_order s k (W k)" using ok k by (simp_all add: svc_ok_def)
    have "w \<noteq> b" if "w \<in> set (W k)" for w using ko(1) that b by (auto simp: writers_ok_def)
    then have "writers_ok t k (W k)" using ko(1) e b unfolding writers_ok_def p t(3) by (metis Suc_eq_plus1 le_SucI)
    moreover have "in_order t k (W k)" using ko(2) unfolding in_order_def p t(4) .
    ultimately show ?thesis using False by simp
  qed
  ultimately show ?thesis using t(1) by (intro svc_okI) blast+
qed

text \<open>A write end is attached, with a badge that no end had before.\<close>

lemma svc_ok_attach:
  assumes ok: "svc_ok s W" and t: "shape_ok t" "pipes t = (pipes s)[j := (pipes s ! j)\<lparr>p_write := b\<rparr>]" "next_badge t = b"
      "\<And>c. taken c (replies t) = taken c (replies s) \<and> given c (replies t) = given c (replies s)"
    and j: "j < PIPES" "p_id (pipes s ! j) \<noteq> 0" "p_write (pipes s ! j) = 0" and b: "unat b = unat (next_badge s) + 1"
  shows "svc_ok t (W(j := W j @ [b]))"
proof -
  have len: "length (pipes s) = PIPES" and ends: "ends_ok s" and log: "log_ok s" using ok by (simp_all add: svc_ok_def shape_ok_def)
  have e: "is_end t x c \<Longrightarrow> is_end s x c \<or> x = (j, True) \<and> c = b" for x c
    using j by (cases x) (auto simp: is_end_def t(2) nth_list_update len split: if_splits)
  have new: "\<not> is_end s x b" for x using ends b unfolding ends_ok_def by (metis Suc_eq_plus1 not_less_eq_eq order_refl)
  have "unat c \<le> unat b" if "is_end s x c" for x c using ends that b unfolding ends_ok_def by (metis Suc_eq_plus1 le_SucI)
  then have "ends_ok t" using ends e new unfolding ends_ok_def t(3) by (metis order_refl)
  moreover have "log_ok t" using log b t(4) unfolding log_ok_def t(3) by (metis Suc_eq_plus1 Suc_lessD)
  moreover have "writers_ok t k ((W(j := W j @ [b])) k) \<and> in_order t k ((W(j := W j @ [b])) k)"
    if k: "k < PIPES" "p_id (pipes t ! k) \<noteq> 0" for k
  proof -
    have id: "p_id (pipes s ! k) \<noteq> 0" using k j by (cases "k = j") (simp_all add: t(2) nth_list_update len)
    then have ko: "writers_ok s k (W k)" "in_order s k (W k)" using ok k by (simp_all add: svc_ok_def)
    have nb: "w \<noteq> b" if "w \<in> set (W k)" for w using ko(1) that b by (auto simp: writers_ok_def)
    have b0: "b \<noteq> 0" using b by auto
    show ?thesis
    proof (cases "k = j")
      case True
      have "given b (replies s) = []" using log b by (simp add: log_ok_def)
      then have "in_order t j (W j @ [b])" using ko(2) True j len by (simp add: in_order_def t contents_def ring_get_def)
      moreover have "writers_ok t j (W j @ [b])"
        unfolding writers_ok_def
      proof (intro conjI ballI impI)
        show "distinct (W j @ [b])" using ko(1) nb True by (auto simp: writers_ok_def)
        fix w assume w: "w \<in> set (W j @ [b])"
        show "w \<noteq> 0" using w ko(1) True b0 by (auto simp: writers_ok_def)
        show "unat w \<le> unat (next_badge t)" using w ko(1) True b unfolding t(3) by (auto simp: writers_ok_def)
        show "\<forall>x. is_end t x w \<longrightarrow> x = (j, True)" using w ko(1) True e new unfolding writers_ok_def by (metis Un_iff empty_iff empty_set insert_iff list.simps(15) set_append)
      qed (use j len in \<open>simp_all add: t(2)\<close>)
      ultimately show ?thesis using True by simp
    next
      case False
      have p: "pipes t ! k = pipes s ! k" using False by (simp add: t(2))
      have "writers_ok t k (W k)" using ko(1) e b nb unfolding writers_ok_def p t(3) by (metis Suc_eq_plus1 le_SucI)
      moreover have "in_order t k (W k)" using ko(2) t(4) unfolding in_order_def p by simp
      ultimately show ?thesis using False by simp
    qed
  qed
  ultimately show ?thesis using t(1) by (intro svc_okI) blast+
qed

section \<open>Every event keeps the invariant\<close>

lemma settle_fold:
  assumes "svc_ok s W" "j < PIPES" "p_id (pipes s ! j) \<noteq> 0" "set is \<subseteq> {..<PENDING}"
  shows "svc_ok (fold (settle_one j) is s) W \<and> next_badge (fold (settle_one j) is s) = next_badge s \<and>
    (\<forall>k. p_id (pipes (fold (settle_one j) is s) ! k) = p_id (pipes s ! k) \<and>
      p_read (pipes (fold (settle_one j) is s) ! k) = p_read (pipes s ! k) \<and>
      p_write (pipes (fold (settle_one j) is s) ! k) = p_write (pipes s ! k))"
  using assms
proof (induction "is" arbitrary: s)
  case (Cons i "is")
  have len: "length (pipes s) = PIPES" using Cons.prems(1) by (simp add: svc_ok_def shape_ok_def)
  note same = settle_one_ends [OF Cons.prems(2) len] settle_one_fields
  have "svc_ok (settle_one j i s) W" by (rule settle_one_ok) (use Cons.prems in auto)
  from Cons.IH [OF this Cons.prems(2)] Cons.prems show ?case by (simp add: same)
qed simp

lemma settle_ok:
  assumes "svc_ok s W" "j < PIPES" "p_id (pipes s ! j) \<noteq> 0"
  shows "svc_ok (settle j s) W" "next_badge (settle j s) = next_badge s" "p_id (pipes (settle j s) ! k) = p_id (pipes s ! k)"
    "p_read (pipes (settle j s) ! k) = p_read (pipes s ! k)" "p_write (pipes (settle j s) ! k) = p_write (pipes s ! k)"
  using settle_fold [OF assms, of "[0..<PENDING]"] by (auto simp: settle_def atLeast0LessThan)

lemma settle_all_ok:
  assumes "svc_ok s W"
  shows "svc_ok (settle_all s) W \<and> next_badge (settle_all s) = next_badge s"
proof -
  have "svc_ok (fold f js s) W \<and> next_badge (fold f js s) = next_badge s"
    if "svc_ok s W" "set js \<subseteq> {..<PIPES}" and f: "f = (\<lambda>j s. if p_id (pipes s ! j) \<noteq> 0 then settle j s else s)" for f js s
    using that(1,2)
  proof (induction js arbitrary: s)
    case (Cons j js)
    have "svc_ok (f j s) W \<and> next_badge (f j s) = next_badge s"
      using settle_ok [OF Cons.prems(1)] Cons.prems by (auto simp: f)
    then show ?case using Cons.IH [of "f j s"] Cons.prems(2) by simp
  qed simp
  then have "svc_ok (settle_round s) W \<and> next_badge (settle_round s) = next_badge s" if "svc_ok s W" for s
    using that by (auto simp: settle_round_def atLeast0LessThan)
  then show ?thesis using assms by (simp add: settle_all_def)
qed

lemma still: "taken b [(as_request r, a)] = [] \<or> ans_data a \<noteq> []" "given b [(as_request r, a)] = []"
  by (simp_all add: taken_def given_def as_request_def)

lemma reply_ok:
  assumes "svc_ok s W" "ans_data a = [] \<or> r_op r = ST_STAT"
  shows "svc_ok (reply (as_request r) a s) W"
proof -
  have "taken b [(as_request r, a)] = []" for b using assms(2) by (auto simp: taken_def as_request_def)
  then show ?thesis using assms(1) still(2)
    by (intro svc_ok_frame [OF assms(1)]) (auto simp: reply_def svc_ok_def shape_ok_def)
qed

lemma queue_ok:
  assumes "svc_ok s W" "queue r op n s = Some (i, t)" "n \<le> PIPE_SIZE"
  shows "svc_ok t W" "i < PENDING" "next_badge t = next_badge s" "pipes t = pipes s"
proof -
  obtain i' where i: "find (\<lambda>i. q_badge (pend s ! i) = 0) [0..<PENDING] = Some i'" using assms(2) by (auto simp: queue_def split: option.splits)
  then have t: "i' = i" "t = upd_pend i (\<lambda>q. q\<lparr>q_token := r_token r, q_badge := r_badge r, q_op := op, q_max := n\<rparr>) s"
    using assms(2) by (auto simp: queue_def)
  show l: "i < PENDING" using i t(1) by (auto simp: find_Some_iff)
  show "next_badge t = next_badge s" "pipes t = pipes s" by (simp_all add: t(2) upd_pend_def)
  have "shape_ok t" using assms l by (simp add: t(2) upd_pend_def svc_ok_def shape_ok_def nth_list_update)
  then show "svc_ok t W" by (intro svc_ok_frame [OF assms(1)]) (simp_all add: t(2) upd_pend_def)
qed

lemma data_ok:
  assumes "svc_ok s W" "length bs \<le> PIPE_SIZE" "i < PENDING"
  shows "svc_ok (upd_pend i (\<lambda>q. q\<lparr>q_wbuf := bs @ drop (length bs) (q_wbuf q)\<rparr>) s) W"
proof -
  have "shape_ok (upd_pend i (\<lambda>q. q\<lparr>q_wbuf := bs @ drop (length bs) (q_wbuf q)\<rparr>) s)"
    using assms by (simp add: upd_pend_def svc_ok_def shape_ok_def nth_list_update)
  then show ?thesis by (intro svc_ok_frame [OF assms(1)]) (simp_all add: upd_pend_def)
qed

lemma handle_read_ok:
  assumes "svc_ok s W" "handle_read r w s = (answered, result, t)"
  shows "svc_ok t W \<and> next_badge t = next_badge s"
proof -
  consider "t = s" | i u where "r_a0 r \<le> IPC_MAX_DATA" "t = settle_all u"
      "queue r ST_READ (unat (if r_a0 r < r_reply_cap r then r_a0 r else r_reply_cap r)) s = Some (i, u)"
    using assms(2) by (auto simp: handle_read_def not_less split: if_splits option.splits prod.splits)
  then show ?thesis
  proof cases
    case (2 i u)
    have "unat (if r_a0 r < r_reply_cap r then r_a0 r else r_reply_cap r) \<le> PIPE_SIZE"
      using 2(1) by (auto simp: word_le_nat_alt word_less_nat_alt not_less)
    from queue_ok [OF assms(1) 2(3) this] settle_all_ok [of u W] show ?thesis by (simp add: 2(2))
  qed (use assms in simp)
qed

lemma handle_write_ok:
  assumes "svc_ok s W" "handle_write r w s = (answered, result, t)"
  shows "svc_ok t W \<and> next_badge t = next_badge s"
proof -
  consider "t = s" | "t = reply (as_request r) (plain FND_OK 0 []) s"
    | i u where "length (r_data r) \<le> PIPE_SIZE" "queue r ST_WRITE (length (r_data r)) s = Some (i, u)"
      "t = settle_all (upd_pend i (\<lambda>q. q\<lparr>q_wbuf := r_data r @ drop (length (r_data r)) (q_wbuf q)\<rparr>) u)"
    using assms(2) by (auto simp: handle_write_def Let_def split: if_splits option.splits prod.splits)
  then show ?thesis
  proof cases
    case 2
    then show ?thesis using reply_ok [OF assms(1)] by (simp add: plain_def reply_def)
  next
    case (3 i u)
    note q = queue_ok [OF assms(1) 3(2,1)]
    have "svc_ok (upd_pend i (\<lambda>q. q\<lparr>q_wbuf := r_data r @ drop (length (r_data r)) (q_wbuf q)\<rparr>) u) W"
      by (rule data_ok [OF q(1) 3(1) q(2)])
    from settle_all_ok [OF this] q(3) show ?thesis by (simp add: 3(3) upd_pend_def)
  qed (use assms in simp)
qed

lemma blank_ok: "pipe_ok (blank_pipe\<lparr>p_id := n, p_read := b\<rparr>)"
  by (simp add: pipe_ok_def blank_pipe_def)

lemma shape_pipe:
  "shape_ok s \<Longrightarrow> pipe_ok p \<Longrightarrow> j < PIPES \<Longrightarrow> pipes t = (pipes s)[j := p] \<Longrightarrow> pend t = pend s \<Longrightarrow> shape_ok t"
  by (auto simp: shape_ok_def nth_list_update)

lemma open_new_cases:
  assumes "open_new r ch sent s = (result, t)" "length (pipes s) = PIPES"
  obtains "t = s"
  | j p m where "j < PIPES" "p_id (pipes s ! j) = 0" "pipe_ok p" "p_read p = bump (next_badge s)" "p_write p = 0" "p_count p = 0"
      "t = s\<lparr>next_id := m, next_badge := bump (next_badge s), pipes := (pipes s)[j := p]\<rparr> \<or>
       t = reply (as_request r) (handed m ch) (s\<lparr>next_id := m, next_badge := bump (next_badge s), pipes := (pipes s)[j := p]\<rparr>)"
proof (cases "find (\<lambda>j. p_id (pipes s ! j) = 0) [0..<PIPES]")
  case None
  then show thesis using assms that(1) by (simp add: open_new_def)
next
  case (Some j)
  then have j: "j < PIPES" "p_id (pipes s ! j) = 0" by (auto simp: find_Some_iff)
  define p where "p = blank_pipe\<lparr>p_id := bump (next_id s), p_read := bump (next_badge s)\<rparr>"
  have p: "pipe_ok p" "p_read p = bump (next_badge s)" "p_write p = 0" "p_count p = 0"
    "pipe_ok (p\<lparr>p_id := 0\<rparr>)" by (simp_all add: p_def blank_pipe_def pipe_ok_def)
  show thesis
  proof (cases "0 \<le> ch \<and> sent")
    case True
    then show thesis using assms Some j p by (intro that(2) [of j p "bump (next_id s)"])
        (auto simp: open_new_def Let_def upd_pipe_def p_def [symmetric])
  next
    case False
    then show thesis using assms Some j p by (intro that(2) [of j "p\<lparr>p_id := 0\<rparr>" "bump (next_id s)"])
        (auto simp: open_new_def Let_def upd_pipe_def p_def [symmetric] split: if_splits)
  qed
qed

lemma open_new_ok:
  assumes ok: "svc_ok s W" and small: "unat (next_badge s) < 2147483647" and t: "open_new r ch sent s = (result, t)"
  shows "\<exists>W. svc_ok t W" "unat (next_badge t) \<le> unat (next_badge s) + 1"
proof -
  have len: "length (pipes s) = PIPES" and shape: "shape_ok s" using ok by (simp_all add: svc_ok_def shape_ok_def)
  have "(\<exists>W. svc_ok t W) \<and> unat (next_badge t) \<le> unat (next_badge s) + 1"
  proof (rule open_new_cases [OF t len])
    fix j p m
    assume j: "j < PIPES" "p_id (pipes s ! j) = 0" and p: "pipe_ok p" "p_read p = bump (next_badge s)" "p_write p = 0" "p_count p = 0"
      and t: "t = s\<lparr>next_id := m, next_badge := bump (next_badge s), pipes := (pipes s)[j := p]\<rparr> \<or>
       t = reply (as_request r) (handed m ch) (s\<lparr>next_id := m, next_badge := bump (next_badge s), pipes := (pipes s)[j := p]\<rparr>)"
    let ?t = "s\<lparr>next_id := m, next_badge := bump (next_badge s), pipes := (pipes s)[j := p]\<rparr>"
    have "shape_ok ?t" by (rule shape_pipe [OF shape p(1) j(1)]) simp_all
    then have new: "svc_ok ?t (W(j := []))"
      by (rule svc_ok_new [OF ok, where j = j and p = p and b = "bump (next_badge s)"]) (use j p bump_less [OF small] in simp_all)
    have "svc_ok (reply (as_request r) (handed m ch) ?t) (W(j := []))" by (rule reply_ok [OF new]) (simp add: handed_def)
    then show ?thesis using t new bump_less [OF small] by (auto simp: reply_def)
  qed (use ok in auto)
  then show "\<exists>W. svc_ok t W" "unat (next_badge t) \<le> unat (next_badge s) + 1" by simp_all
qed

lemma open_write_ok:
  assumes ok: "svc_ok s W" and small: "unat (next_badge s) < 2147483647" and t: "open_write r ch sent s = (result, t)"
  shows "\<exists>W. svc_ok t W" "unat (next_badge t) \<le> unat (next_badge s) + 1"
proof -
  have len: "length (pipes s) = PIPES" and shape: "shape_ok s" using ok by (simp_all add: svc_ok_def shape_ok_def)
  note b = bump_less [OF small]
  let ?b = "bump (next_badge s)"
  consider "t = s" | "t = s\<lparr>next_badge := ?b\<rparr>"
    | j a where "j < PIPES" "p_id (pipes s ! j) \<noteq> 0" "p_write (pipes s ! j) = 0" "ans_data a = []"
      "t = upd_pipe j (\<lambda>p. p\<lparr>p_write := ?b\<rparr>) (reply (as_request r) a (s\<lparr>next_badge := ?b\<rparr>))"
  proof (cases "find (\<lambda>j. p_id (pipes s ! j) = r_a1 r \<and> r_a1 r \<noteq> 0) [0..<PIPES]")
    case None
    then show thesis using t that(1) by (simp add: open_write_def)
  next
    case (Some j)
    then have j: "j < PIPES" "p_id (pipes s ! j) \<noteq> 0" by (auto simp: find_Some_iff)
    show thesis
    proof (cases "p_write (pipes s ! j) = 0 \<and> 0 \<le> ch \<and> sent")
      case True
      then show thesis using t Some j by (intro that(3) [of j "handed (p_id (pipes s ! j)) ch"])
          (auto simp: open_write_def Let_def handed_def split: if_splits)
    next
      case False
      then have "t = s \<or> t = s\<lparr>next_badge := ?b\<rparr>" using t Some by (auto simp: open_write_def Let_def split: if_splits)
      then show thesis using that(1,2) by blast
    qed
  qed
  then have "(\<exists>W. svc_ok t W) \<and> unat (next_badge t) \<le> unat (next_badge s) + 1"
  proof cases
    case 2
    have "svc_ok t W" by (rule svc_ok_frame [OF ok]) (use shape b in \<open>simp_all add: 2 shape_ok_def\<close>)
    then show ?thesis using 2 b by auto
  next
    case (3 j a)
    have m: "taken c (replies t) = taken c (replies s) \<and> given c (replies t) = given c (replies s)" for c
      using 3(4) by (auto simp: 3(5) upd_pipe_def reply_def taken_def given_def as_request_def)
    have p: "pipes t = (pipes s)[j := (pipes s ! j)\<lparr>p_write := ?b\<rparr>]" "next_badge t = ?b" "pend t = pend s"
      by (simp_all add: 3(5) upd_pipe_def reply_def)
    have "pipe_ok ((pipes s ! j)\<lparr>p_write := ?b\<rparr>)" using shape 3(1) by (simp add: shape_ok_def pipe_ok_def)
    then have "shape_ok t" by (rule shape_pipe [OF shape _ 3(1) p(1,3)])
    then have "svc_ok t (W(j := W j @ [?b]))"
      by (rule svc_ok_attach [OF ok _ p(1,2) m 3(1,2,3) b])
    then show ?thesis using p(2) b by auto
  qed (use ok in auto)
  then show "\<exists>W. svc_ok t W" "unat (next_badge t) \<le> unat (next_badge s) + 1" by simp_all
qed

lemma handle_ok:
  assumes "svc_ok s W" "unat (next_badge s) < 2147483647" "handle r ch sent s = (answered, result, t)"
  shows "(\<exists>W. svc_ok t W) \<and> unat (next_badge t) \<le> unat (next_badge s) + 1"
proof -
  consider "t = s" | "open_new r ch sent s = (result, t)" | "open_write r ch sent s = (result, t)"
    | w where "handle_read r w s = (answered, result, t)" | w where "handle_write r w s = (answered, result, t)"
    | w where "r_op r = ST_STAT" "t = reply (as_request r) (plain FND_OK 0 (pipe_stat w)) s"
    using assms(3) by (auto simp: handle_def pipe_open_def split: if_splits option.splits prod.splits)
  then show ?thesis
  proof cases
    case 2
    then show ?thesis using open_new_ok [OF assms(1,2)] by blast
  next
    case 3
    then show ?thesis using open_write_ok [OF assms(1,2)] by blast
  next
    case 4
    then show ?thesis using handle_read_ok [OF assms(1)] by fastforce
  next
    case 5
    then show ?thesis using handle_write_ok [OF assms(1)] by fastforce
  next
    case (6 w)
    have "svc_ok t W" unfolding 6(2) by (rule reply_ok [OF assms(1)]) (simp add: 6(1))
    then show ?thesis by (auto simp: 6(2) reply_def)
  qed (use assms in auto)
qed

lemma by_badge_Some:
  assumes "by_badge b s = Some (j, w)"
  shows "j < PIPES" "p_id (pipes s ! j) \<noteq> 0" "b \<noteq> 0" "(if w then p_write (pipes s ! j) else p_read (pipes s ! j)) = b"
  using assms by (auto simp: by_badge_def find_Some_iff split: if_splits option.splits)

lemma client_gone_ok:
  assumes ok: "svc_ok s W"
  shows "svc_ok (client_gone b s) W \<and> next_badge (client_gone b s) = next_badge s"
proof (cases "by_badge b s")
  case (Some x)
  obtain j w where x: "x = (j, w)" by (cases x) blast
  note j = by_badge_Some [OF Some [unfolded x]]
  define p where "p = (if w then (pipes s ! j)\<lparr>p_write := 0\<rparr> else (pipes s ! j)\<lparr>p_read := 0\<rparr>)"
  define u where "u = s\<lparr>pipes := (pipes s)[j := p], pend := map (\<lambda>q. if q_badge q = b then q\<lparr>q_badge := 0\<rparr> else q) (pend s)\<rparr>"
  have shape: "shape_ok s" and len: "length (pipes s) = PIPES" using ok by (simp_all add: svc_ok_def shape_ok_def)
  have "pipe_ok p" using shape j(1) by (simp add: shape_ok_def pipe_ok_def p_def)
  then have "shape_ok u" using shape j(1) by (auto simp: u_def shape_ok_def nth_list_update)
  then have u: "svc_ok u W"
    by (rule svc_ok_close [OF ok, where j = j and p = p]) (use j in \<open>auto simp: u_def p_def contents_def ring_get_def\<close>)
  have uj: "p_id (pipes u ! j) \<noteq> 0" using j len by (simp add: u_def p_def)
  note st = settle_ok [OF u j(1) uj]
  let ?v = "settle j u"
  have nb: "next_badge u = next_badge s" by (simp add: u_def)
  have gone: "client_gone b s = (if p_read (pipes ?v ! j) = 0 \<and> p_write (pipes ?v ! j) = 0 then upd_pipe j (\<lambda>p. p\<lparr>p_id := 0\<rparr>) ?v else ?v)"
    using Some by (simp add: client_gone_def x u_def p_def upd_pipe_def Let_def)
  have "svc_ok (upd_pipe j (\<lambda>p. p\<lparr>p_id := 0\<rparr>) ?v) W"
  proof (rule svc_ok_close [OF st(1), where j = j and p = "(pipes ?v ! j)\<lparr>p_id := 0\<rparr>"])
    have "shape_ok ?v" using st(1) by (simp add: svc_ok_def)
    moreover from this have "pipe_ok ((pipes ?v ! j)\<lparr>p_id := 0\<rparr>)" using j(1) by (simp add: shape_ok_def pipe_ok_def)
    ultimately show "shape_ok (upd_pipe j (\<lambda>p. p\<lparr>p_id := 0\<rparr>) ?v)"
      by (rule shape_pipe [OF _ _ j(1)]) (simp_all add: upd_pipe_def)
  qed (use j in \<open>simp_all add: upd_pipe_def contents_def ring_get_def\<close>)
  then show ?thesis using st(1,2) nb by (simp add: gone upd_pipe_def)
qed (use ok in \<open>simp add: client_gone_def\<close>)

lemma event_ok:
  assumes "svc_ok s W" "unat (next_badge s) < 2147483647"
  shows "(\<exists>W. svc_ok (pipe_event e s) W) \<and> unat (next_badge (pipe_event e s)) \<le> unat (next_badge s) + 1"
proof (cases e)
  case (Client_gone b)
  then show ?thesis using client_gone_ok [OF assms(1), of b] by auto
next
  case (Request r ch sent)
  obtain answered result t where h: "handle r ch sent s = (answered, result, t)" by (cases "handle r ch sent s") blast
  obtain W' where t: "svc_ok t W'" "unat (next_badge t) \<le> unat (next_badge s) + 1" using handle_ok [OF assms h] by blast
  have "svc_ok (reply (as_request r) (plain result 0 []) t) W'" by (rule reply_ok [OF t(1)]) (simp add: plain_def)
  then show ?thesis using t by (auto simp: Request h reply_def)
qed

lemma start_ok: "svc_ok pipe_start (\<lambda>_. [])"
proof -
  have b: "pipes pipe_start ! j = blank_pipe" if "j < PIPES" for j using that by (simp add: pipe_start_def)
  have "\<not> is_end pipe_start x c" for x c by (cases x) (auto simp: is_end_def b blank_pipe_def)
  then show ?thesis
    by (intro svc_okI) (auto simp: b ends_ok_def log_ok_def shape_ok_def pipe_ok_def blank_pipe_def blank_pending_def pipe_start_def)
qed

lemma run_ok:
  assumes "length es < 2147483647"
  shows "(\<exists>W. svc_ok (pipe_run es pipe_start) W) \<and> unat (next_badge (pipe_run es pipe_start)) \<le> length es"
  using assms
proof (induction es rule: rev_induct)
  case Nil
  then show ?case using start_ok by (auto simp: pipe_run_def pipe_start_def)
next
  case (snoc e es)
  then obtain W where W: "svc_ok (pipe_run es pipe_start) W" "unat (next_badge (pipe_run es pipe_start)) \<le> length es" by auto
  then show ?case using event_ok [OF W(1), of e] snoc.prems by (auto simp: pipe_run_def)
qed

text \<open>C26: In every run of the pipe service, the bytes of the writes that were answered with success, taken in the
  order of the answers and over all write ends a pipe has had, are the bytes that its readers got followed
  by those in its buffer: nothing is lost, duplicated, reordered or given to another pipe.\<close>

theorem pipe_in_order:
  assumes "length es < 2147483647" "s = pipe_run es pipe_start" "j < PIPES" "p_id (pipes s ! j) \<noteq> 0" "p_read (pipes s ! j) \<noteq> 0"
  shows "\<exists>ws. distinct ws \<and> (p_write (pipes s ! j) \<noteq> 0 \<longrightarrow> ws \<noteq> [] \<and> last ws = p_write (pipes s ! j)) \<and>
    concat (map (\<lambda>w. given w (replies s)) ws) = taken (p_read (pipes s ! j)) (replies s) @ contents (pipes s ! j) \<and>
    length (contents (pipes s ! j)) \<le> PIPE_SIZE"
proof -
  obtain W where W: "svc_ok s W" using run_ok [OF assms(1)] assms(2) by blast
  then have "writers_ok s j (W j)" "in_order s j (W j)" "pipe_ok (pipes s ! j)"
    using assms(3,4) by (simp_all add: svc_ok_def shape_ok_def)
  then show ?thesis using assms(5) by (intro exI [of _ "W j"]) (simp add: writers_ok_def in_order_def pipe_ok_def)
qed

end
