(* ===== verification/Pipe_Quiet.thy ===== *)
theory Pipe_Quiet
  imports Pipe_Facts
begin

text \<open>
  The service never leaves a request waiting that the state of its pipe settles: the two rounds of
  \<open>settle_all\<close>, and the one of \<open>client_gone\<close>, are enough.
\<close>

definition ready :: "pipe_svc \<Rightarrow> nat \<Rightarrow> nat \<Rightarrow> bool" where
  "ready s j i \<longleftrightarrow> q_badge (pend s ! i) \<noteq> 0 \<and> answer_for (pipes s ! j) (pend s ! i) \<noteq> None"

definition quiet :: "pipe_svc \<Rightarrow> nat \<Rightarrow> bool" where
  "quiet s j \<longleftrightarrow> (\<forall>i<PENDING. \<not> ready s j i)"

definition settled :: "pipe_svc \<Rightarrow> bool" where
  "settled s \<longleftrightarrow> (\<forall>j<PIPES. p_id (pipes s ! j) \<noteq> 0 \<longrightarrow> quiet s j)"

text \<open>What a request that waits is waiting for.\<close>

lemma not_ready_iff:
  "\<not> ready s j i \<longleftrightarrow> (let p = pipes s ! j; q = pend s ! i in q_badge q \<noteq> 0 \<longrightarrow>
     (q_op q = ST_READ \<and> q_badge q = p_read p \<longrightarrow> p_count p = 0 \<and> p_write p \<noteq> 0) \<and>
     (q_op q = ST_WRITE \<and> q_badge q = p_write p \<longrightarrow> p_read p \<noteq> 0 \<and> PIPE_SIZE < p_count p + q_max q))"
  by (auto simp: ready_def answer_for_def Let_def)

lemma not_ready_same: "\<not> ready s j i \<Longrightarrow> settle_one j i s = s"
  by (rule settle_one_cases [of j i s]) (auto simp: ready_def)

lemma upto_subset [simp]: "{a..<n} \<subseteq> {..<n :: nat}"
  by auto

lemma quiet_same: "quiet s j \<Longrightarrow> set is \<subseteq> {..<PENDING} \<Longrightarrow> fold (settle_one j) is s = s"
  by (induction "is") (auto simp: quiet_def not_ready_same)

text \<open>A step of \<open>settle_one\<close>: only its own slot is freed, only its own pipe changes.\<close>

lemma settle_one_pend:
  assumes "i < PENDING" "length (pend s) = PENDING"
  shows "pend (settle_one j i s) ! k = (if k = i \<and> ready s j i then (pend s ! i)\<lparr>q_badge := 0\<rparr> else pend s ! k)"
    "k \<noteq> j \<Longrightarrow> pipes (settle_one j i s) ! k = pipes s ! k"
proof -
  have "pend (settle_one j i s) ! k = (if k = i \<and> ready s j i then (pend s ! i)\<lparr>q_badge := 0\<rparr> else pend s ! k) \<and>
    (k \<noteq> j \<longrightarrow> pipes (settle_one j i s) ! k = pipes s ! k)"
    by (rule settle_one_cases [of j i s]) (use assms in \<open>auto simp: ready_def nth_list_update\<close>)
  then show "pend (settle_one j i s) ! k = (if k = i \<and> ready s j i then (pend s ! i)\<lparr>q_badge := 0\<rparr> else pend s ! k)"
    "k \<noteq> j \<Longrightarrow> pipes (settle_one j i s) ! k = pipes s ! k" by auto
qed

lemma settle_one_done:
  assumes "i < PENDING" "length (pend s) = PENDING"
  shows "\<not> ready (settle_one j i s) j i"
proof (cases "ready s j i")
  case True
  then have "q_badge (pend (settle_one j i s) ! i) = 0" using settle_one_pend(1) [OF assms, of j i] by simp
  then show ?thesis by (simp add: ready_def)
qed (simp add: not_ready_same)

text \<open>The requests of a pipe that wait are all for reading, or all for writing.\<close>

definition reads_only :: "nat \<Rightarrow> pipe_svc \<Rightarrow> bool" where
  "reads_only j s \<longleftrightarrow> (\<forall>i<PENDING. q_badge (pend s ! i) \<noteq> 0 \<longrightarrow> \<not> (q_op (pend s ! i) = ST_WRITE \<and> q_badge (pend s ! i) = p_write (pipes s ! j)))"

definition writes_only :: "nat \<Rightarrow> pipe_svc \<Rightarrow> bool" where
  "writes_only j s \<longleftrightarrow> (\<forall>i<PENDING. q_badge (pend s ! i) \<noteq> 0 \<longrightarrow> \<not> (q_op (pend s ! i) = ST_READ \<and> q_badge (pend s ! i) = p_read (pipes s ! j)))"

lemma kind_kept:
  assumes "shape_ok s" "j < PIPES" "i < PENDING"
  shows "reads_only j s \<Longrightarrow> reads_only j (settle_one j i s)" "writes_only j s \<Longrightarrow> writes_only j (settle_one j i s)"
proof -
  have len: "length (pend s) = PENDING" "length (pipes s) = PIPES" using assms(1) by (simp_all add: shape_ok_def)
  note st = settle_one_pend(1) [OF assms(3) len(1), of j] settle_one_ends [OF assms(2) len(2)]
  show "reads_only j s \<Longrightarrow> reads_only j (settle_one j i s)" "writes_only j s \<Longrightarrow> writes_only j (settle_one j i s)"
    by (simp_all add: reads_only_def writes_only_def st)
qed

lemma read_shrinks:
  assumes "q_op q \<noteq> ST_WRITE \<or> q_badge q \<noteq> p_write p" "answer_for p q = Some (p', a)"
  shows "p_count p' \<le> p_count p"
  using assms by (auto simp: answer_for_def Let_def split: if_splits)

lemma write_grows:
  assumes "q_op q \<noteq> ST_READ \<or> q_badge q \<noteq> p_read p" "answer_for p q = Some (p', a)"
  shows "p_count p \<le> p_count p'"
  using assms by (auto simp: answer_for_def Let_def split: if_splits)

lemma stays_waiting:
  assumes s: "shape_ok s" "j < PIPES" "i < PENDING" "k < PENDING" and kind: "reads_only j s \<or> writes_only j s" and k: "\<not> ready s j k"
  shows "\<not> ready (settle_one j i s) j k"
proof (rule settle_one_cases [of j i s])
  assume "settle_one j i s = s"
  then show ?thesis using k by simp
next
  fix p a
  assume a: "answer_for (pipes s ! j) (pend s ! i) = Some (p, a)" "q_badge (pend s ! i) \<noteq> 0" "pipes (settle_one j i s) = (pipes s)[j := p]"
    "pend (settle_one j i s) = (pend s)[i := (pend s ! i)\<lparr>q_badge := 0\<rparr>]"
  have len: "length (pend s) = PENDING" "length (pipes s) = PIPES" using s(1) by (simp_all add: shape_ok_def)
  have p: "pipes (settle_one j i s) ! j = p" using a(3) len s(2) by simp
  have q: "pend (settle_one j i s) ! k = (if k = i then (pend s ! i)\<lparr>q_badge := 0\<rparr> else pend s ! k)" using a(4) len s(4) by simp
  show ?thesis
  proof (cases "k = i")
    case False
    have "p_count p \<le> p_count (pipes s ! j)" if "reads_only j s"
      using read_shrinks [OF _ a(1)] that s(3) a(2) by (auto simp: reads_only_def)
    moreover have "p_count (pipes s ! j) \<le> p_count p" if "writes_only j s"
      using write_grows [OF _ a(1)] that s(3) a(2) by (auto simp: writes_only_def)
    ultimately show ?thesis using k kind s(4) False answer_ends [OF a(1)] unfolding not_ready_iff p q
      by (auto simp: Let_def reads_only_def writes_only_def)
  qed (use q in \<open>auto simp: ready_def\<close>)
qed

lemma pass_quiet:
  assumes "shape_ok s" "j < PIPES" "reads_only j s \<or> writes_only j s" "set is \<subseteq> {..<PENDING}" "k \<in> set is \<or> k < PENDING \<and> \<not> ready s j k"
  shows "\<not> ready (fold (settle_one j) is s) j k"
  using assms
proof (induction "is" arbitrary: s)
  case (Cons i "is")
  have i: "i < PENDING" using Cons.prems(4) by simp
  have len: "length (pend s) = PENDING" using Cons.prems(1) by (simp add: shape_ok_def)
  have k: "k < PENDING" using Cons.prems(4,5) by auto
  have "k \<in> set is \<or> k < PENDING \<and> \<not> ready (settle_one j i s) j k"
    using Cons.prems(5) settle_one_done [OF i len] stays_waiting [OF Cons.prems(1,2) i k Cons.prems(3)] k by auto
  moreover have "reads_only j (settle_one j i s) \<or> writes_only j (settle_one j i s)"
    using kind_kept [OF Cons.prems(1,2) i] Cons.prems(3) by blast
  ultimately show ?case using Cons.IH [OF settle_one_shape [OF Cons.prems(1,2) i] Cons.prems(2)] Cons.prems(4) by simp
qed auto

lemma settle_quiet: "shape_ok s \<Longrightarrow> j < PIPES \<Longrightarrow> reads_only j s \<or> writes_only j s \<Longrightarrow> quiet (settle j s) j"
  using pass_quiet [of s j "[0..<PENDING]"] by (auto simp: quiet_def settle_def)

lemma fold_kind:
  assumes "shape_ok s" "j < PIPES" "set is \<subseteq> {..<PENDING}"
  shows "shape_ok (fold (settle_one j) is s) \<and> (reads_only j s \<or> writes_only j s \<longrightarrow>
    reads_only j (fold (settle_one j) is s) \<or> writes_only j (fold (settle_one j) is s))"
  using assms
proof (induction "is" arbitrary: s)
  case (Cons i "is")
  have i: "i < PENDING" using Cons.prems(3) by simp
  show ?case using Cons.IH [OF settle_one_shape [OF Cons.prems(1,2) i] Cons.prems(2)] kind_kept [OF Cons.prems(1,2) i] Cons.prems(3)
    by auto
qed simp

text \<open>One new request in slot \<open>i\<close>, all others of the pipe waiting: two passes are enough.\<close>

lemma two_passes:
  assumes s: "shape_ok s" "j < PIPES" "i < PENDING" and others: "\<And>k. k < PENDING \<Longrightarrow> k \<noteq> i \<Longrightarrow> \<not> ready s j k"
  shows "quiet (settle j (settle j s)) j"
proof (cases "ready s j i")
  case False
  then have "quiet s j" using others by (auto simp: quiet_def)
  moreover from this have "settle j s = s" unfolding settle_def by (rule quiet_same) auto
  ultimately show ?thesis by simp
next
  case True
  have len: "length (pend s) = PENDING" "length (pipes s) = PIPES" using s(1) by (simp_all add: shape_ok_def)
  have "[0..<PENDING] = [0..<i] @ i # [Suc i..<PENDING]" using s(3) upt_add_eq_append [of 0 i "PENDING - i"] by (simp add: upt_conv_Cons)
  moreover have "fold (settle_one j) [0..<i] s = s"
  proof -
    have "fold (settle_one j) is s = s" if "set is \<subseteq> {..<i}" for "is"
      using that others s(3) by (induction "is") (auto simp: not_ready_same)
    then show ?thesis by (simp add: atLeast0LessThan)
  qed
  ultimately have e: "settle j s = fold (settle_one j) [Suc i..<PENDING] (settle_one j i s)" by (simp add: settle_def)
  let ?t = "settle_one j i s"
  have t: "shape_ok ?t" by (rule settle_one_shape [OF s])
  have "reads_only j ?t \<or> writes_only j ?t"
  proof (rule ccontr)
    assume "\<not> (reads_only j ?t \<or> writes_only j ?t)"
    then obtain k l where k: "k < PENDING" "q_badge (pend ?t ! k) \<noteq> 0" "q_op (pend ?t ! k) = ST_WRITE" "q_badge (pend ?t ! k) = p_write (pipes ?t ! j)"
      and l: "l < PENDING" "q_badge (pend ?t ! l) \<noteq> 0" "q_op (pend ?t ! l) = ST_READ" "q_badge (pend ?t ! l) = p_read (pipes ?t ! j)"
      by (auto simp: reads_only_def writes_only_def)
    note p = settle_one_pend(1) [OF s(3) len(1), of j] settle_one_ends [OF s(2) len(2), of i]
    have ki: "k \<noteq> i" "l \<noteq> i" using k(2) l(2) True by (auto simp: p(1))
    have "p_count (pipes s ! j) = 0" using others [OF l(1) ki(2)] l ki unfolding not_ready_iff by (simp add: p Let_def)
    moreover have "PIPE_SIZE < p_count (pipes s ! j) + q_max (pend s ! k)"
      using others [OF k(1) ki(1)] k ki unfolding not_ready_iff by (simp add: p Let_def)
    moreover have "q_max (pend s ! k) \<le> PIPE_SIZE" using s(1) k(1) by (simp add: shape_ok_def)
    ultimately show False by simp
  qed
  then have "shape_ok (settle j s) \<and> (reads_only j (settle j s) \<or> writes_only j (settle j s))"
    unfolding e using fold_kind [OF t s(2), of "[Suc i..<PENDING]"] by auto
  then show ?thesis using settle_quiet s(2) by blast
qed

section \<open>The rounds over all pipes\<close>

lemma quiet_settle: "quiet s j \<Longrightarrow> settle j s = s"
  unfolding settle_def by (rule quiet_same) auto

lemma settle_keeps:
  assumes "shape_ok s" "j < PIPES" "k \<noteq> j" "quiet s k"
  shows "quiet (settle j s) k"
proof -
  have "shape_ok (fold (settle_one j) is s) \<and> quiet (fold (settle_one j) is s) k" if "set is \<subseteq> {..<PENDING}" for "is"
    using that assms(1,4)
  proof (induction "is" arbitrary: s)
    case (Cons i "is")
    have i: "i < PENDING" using Cons.prems(1) by simp
    have len: "length (pend s) = PENDING" using Cons.prems(2) by (simp add: shape_ok_def)
    have "pipes (settle_one j i s) ! k = pipes s ! k" by (rule settle_one_pend(2) [OF i len assms(3)])
    then have "quiet (settle_one j i s) k"
      using Cons.prems(3) settle_one_pend(1) [OF i len, of j] by (simp add: quiet_def ready_def)
    then show ?case using Cons.IH settle_one_shape [OF Cons.prems(2) assms(2) i] Cons.prems(1) by simp
  qed simp
  then show ?thesis by (simp add: settle_def atLeast0LessThan)
qed

lemma settle_shape: "shape_ok s \<Longrightarrow> j < PIPES \<Longrightarrow> shape_ok (settle j s)"
  using fold_kind [of s j "[0..<PENDING]"] by (simp add: settle_def)

lemma settle_ids:
  assumes "shape_ok s" "j < PIPES"
  shows "p_id (pipes (settle j s) ! k) = p_id (pipes s ! k)" "p_read (pipes (settle j s) ! k) = p_read (pipes s ! k)"
    "p_write (pipes (settle j s) ! k) = p_write (pipes s ! k)" "next_badge (settle j s) = next_badge s"
proof -
  have "length (pipes s) = PIPES \<Longrightarrow> p_id (pipes (fold (settle_one j) is s) ! k) = p_id (pipes s ! k) \<and>
      p_read (pipes (fold (settle_one j) is s) ! k) = p_read (pipes s ! k) \<and>
      p_write (pipes (fold (settle_one j) is s) ! k) = p_write (pipes s ! k) \<and> next_badge (fold (settle_one j) is s) = next_badge s" for "is"
    by (induction "is" arbitrary: s) (simp_all add: settle_one_ends [OF assms(2)] settle_one_fields)
  then show "p_id (pipes (settle j s) ! k) = p_id (pipes s ! k)" "p_read (pipes (settle j s) ! k) = p_read (pipes s ! k)"
    "p_write (pipes (settle j s) ! k) = p_write (pipes s ! k)" "next_badge (settle j s) = next_badge s"
    using assms(1) by (simp_all add: settle_def shape_ok_def)
qed

text \<open>When only pipe \<open>j\<close> has something to answer, a round is one pass over it.\<close>

lemma round_one:
  assumes "shape_ok s" "j < PIPES" "p_id (pipes s ! j) \<noteq> 0" "\<And>k. k < PIPES \<Longrightarrow> k \<noteq> j \<Longrightarrow> p_id (pipes s ! k) \<noteq> 0 \<Longrightarrow> quiet s k"
  shows "settle_round s = settle j s"
proof -
  define f where "f = (\<lambda>j s. if p_id (pipes s ! j) \<noteq> 0 then settle j s else s)"
  have same: "fold f ks s = s" if "\<And>k. k \<in> set ks \<Longrightarrow> p_id (pipes s ! k) \<noteq> 0 \<Longrightarrow> quiet s k" for ks s
    using that by (induction ks) (auto simp: f_def quiet_settle)
  have "[0..<PIPES] = [0..<j] @ j # [Suc j..<PIPES]" using assms(2) upt_add_eq_append [of 0 j "PIPES - j"] by (simp add: upt_conv_Cons)
  then have "settle_round s = fold f [Suc j..<PIPES] (f j (fold f [0..<j] s))" by (simp add: settle_round_def f_def [symmetric])
  also have "fold f [0..<j] s = s" using assms(2,4) by (intro same) auto
  also have "f j s = settle j s" using assms(3) by (simp add: f_def)
  also have "fold f [Suc j..<PIPES] (settle j s) = settle j s"
    using assms settle_keeps [OF assms(1,2)] settle_ids [OF assms(1,2)] by (intro same) auto
  finally show ?thesis .
qed

lemma settle_all_settled:
  assumes "shape_ok s" "j < PIPES" "i < PENDING"
    "\<And>k l. k < PIPES \<Longrightarrow> p_id (pipes s ! k) \<noteq> 0 \<Longrightarrow> l < PENDING \<Longrightarrow> ready s k l \<Longrightarrow> k = j \<and> l = i"
    "p_id (pipes s ! j) \<noteq> 0"
  shows "settled (settle_all s)"
proof -
  have others: "quiet s k" if "k < PIPES" "k \<noteq> j" "p_id (pipes s ! k) \<noteq> 0" for k using assms(4) that by (auto simp: quiet_def)
  note sh = settle_shape [OF assms(1,2)] and ids = settle_ids [OF assms(1,2)]
  have one: "quiet (settle j s) k" if "k < PIPES" "k \<noteq> j" "p_id (pipes s ! k) \<noteq> 0" for k
    using settle_keeps [OF assms(1,2)] others that by blast
  have r1: "settle_round s = settle j s" by (rule round_one [OF assms(1,2,5) others])
  have r2: "settle_round (settle j s) = settle j (settle j s)" by (rule round_one [OF sh assms(2)]) (simp_all add: one assms(5) ids)
  have "settle_all s = settle j (settle j s)" by (simp add: settle_all_def r1 r2)
  moreover have "quiet (settle j (settle j s)) j" by (rule two_passes [OF assms(1-3)]) (use assms(4) [OF assms(2,5)] in blast)
  moreover have "quiet (settle j (settle j s)) k" if "k < PIPES" "k \<noteq> j" "p_id (pipes s ! k) \<noteq> 0" for k
    using settle_keeps [OF sh assms(2)] one that by blast
  ultimately show ?thesis using settle_ids [OF sh assms(2)] ids by (auto simp: settled_def)
qed

section \<open>Every event leaves the service settled\<close>

definition pend_low :: "pipe_svc \<Rightarrow> bool" where
  "pend_low s \<longleftrightarrow> (\<forall>i<PENDING. unat (q_badge (pend s ! i)) \<le> unat (next_badge s))"

definition calm :: "pipe_svc \<Rightarrow> bool" where
  "calm s \<longleftrightarrow> settled s \<and> pend_low s"

lemma calm_frame:
  "calm s \<Longrightarrow> pipes t = pipes s \<Longrightarrow> pend t = pend s \<Longrightarrow> unat (next_badge s) \<le> unat (next_badge t) \<Longrightarrow> calm t"
  unfolding calm_def settled_def quiet_def ready_def pend_low_def by (auto intro: le_trans)

lemma settle_all_low:
  assumes "shape_ok s" "pend_low s"
  shows "pend_low (settle_all s)"
proof -
  have one: "shape_ok (settle_one j i s) \<and> pend_low (settle_one j i s)" if "shape_ok s \<and> pend_low s" "j < PIPES" "i < PENDING" for i j s
    using that settle_one_shape [of s j i] settle_one_pend(1) [of i s j] by (auto simp: pend_low_def settle_one_fields shape_ok_def)
  have pass: "shape_ok (fold (settle_one j) is s) \<and> pend_low (fold (settle_one j) is s)"
    if "shape_ok s \<and> pend_low s" "j < PIPES" "set is \<subseteq> {..<PENDING}" for j "is" s
    using that by (induction "is" arbitrary: s) (simp_all add: one)
  then have "shape_ok (settle j s) \<and> pend_low (settle j s)" if "shape_ok s \<and> pend_low s" "j < PIPES" for j s
    using that by (simp add: settle_def)
  then have "shape_ok (fold (\<lambda>j s. if p_id (pipes s ! j) \<noteq> 0 then settle j s else s) js s) \<and>
      pend_low (fold (\<lambda>j s. if p_id (pipes s ! j) \<noteq> 0 then settle j s else s) js s)"
    if "shape_ok s \<and> pend_low s" "set js \<subseteq> {..<PIPES}" for js s
    using that by (induction js arbitrary: s) simp_all
  then have "shape_ok (settle_round s) \<and> pend_low (settle_round s)" if "shape_ok s \<and> pend_low s" for s
    using that by (simp add: settle_round_def)
  then show ?thesis using assms by (simp add: settle_all_def)
qed

text \<open>A request is queued for the pipe of its badge.\<close>

lemma queued_calm:
  assumes ok: "svc_ok s W" and calm: "calm s" and e: "is_end s (j, w) (r_badge r)"
    and q: "queue r op n s = Some (i, u)" and n: "n \<le> PIPE_SIZE"
    and t: "t = u \<or> t = upd_pend i (\<lambda>q. q\<lparr>q_wbuf := bs @ drop (length bs) (q_wbuf q)\<rparr>) u" and bs: "length bs \<le> PIPE_SIZE"
  shows "calm (settle_all t)"
proof -
  note qo = queue_ok [OF ok q n]
  have "svc_ok t W" using t qo data_ok [OF qo(1) bs qo(2)] by blast
  then have sh: "shape_ok t" by (simp add: svc_ok_def)
  have len: "length (pend s) = PENDING" using ok by (simp add: svc_ok_def shape_ok_def)
  have p: "pipes t = pipes s" "next_badge t = next_badge s" using t qo(3,4) by (auto simp: upd_pend_def)
  obtain i' where "find (\<lambda>i. q_badge (pend s ! i) = 0) [0..<PENDING] = Some i'" using q by (auto simp: queue_def split: option.splits)
  then have u: "u = upd_pend i (\<lambda>q. q\<lparr>q_token := r_token r, q_badge := r_badge r, q_op := op, q_max := n\<rparr>) s"
    using q by (auto simp: queue_def)
  have pd: "pend t ! k = pend s ! k" if "k \<noteq> i" for k using t that by (auto simp: u upd_pend_def)
  have pi: "q_badge (pend t ! i) = r_badge r" using t qo(2) len by (auto simp: u upd_pend_def)
  have j: "j < PIPES" "p_id (pipes s ! j) \<noteq> 0" using e by (simp_all add: is_end_def)
  have ends: "ends_ok s" using ok by (simp add: svc_ok_def)
  have rb: "unat (r_badge r) \<le> unat (next_badge s)" using ends e by (auto simp: ends_ok_def)
  have "settled (settle_all t)"
  proof (rule settle_all_settled [OF sh j(1) qo(2)])
    fix k l assume k: "k < PIPES" "p_id (pipes t ! k) \<noteq> 0" "l < PENDING" "ready t k l"
    have l: "l = i"
    proof (rule ccontr)
      assume "l \<noteq> i"
      then have "ready s k l" using k(4) pd by (simp add: ready_def p)
      then show False using calm k by (auto simp: calm_def settled_def quiet_def p)
    qed
    have "\<exists>v. is_end s (k, v) (r_badge r)"
      using k pi unfolding l ready_def answer_for_def p is_end_def by (auto simp: Let_def p split: if_splits)
    then have "k = j" using ends e unfolding ends_ok_def by blast
    then show "k = j \<and> l = i" using l by blast
  qed (use j in \<open>simp add: p\<close>)
  moreover have "pend_low t" using calm pd pi rb by (auto simp: calm_def pend_low_def p) (metis)
  then have "pend_low (settle_all t)" by (rule settle_all_low [OF sh])
  ultimately show ?thesis by (simp add: calm_def)
qed

lemma open_new_calm:
  assumes ok: "svc_ok s W" and calm: "calm s" and small: "unat (next_badge s) < 2147483647" and t: "open_new r ch sent s = (result, t)"
  shows "calm t"
proof -
  have len: "length (pipes s) = PIPES" using ok by (simp add: svc_ok_def shape_ok_def)
  show ?thesis
  proof (rule open_new_cases [OF t len])
    fix j p m
    assume j: "j < PIPES" and p: "p_read p = bump (next_badge s)" "p_write p = 0"
      and t: "t = s\<lparr>next_id := m, next_badge := bump (next_badge s), pipes := (pipes s)[j := p]\<rparr> \<or>
       t = reply (as_request r) (handed m ch) (s\<lparr>next_id := m, next_badge := bump (next_badge s), pipes := (pipes s)[j := p]\<rparr>)"
    have e: "pipes t = (pipes s)[j := p]" "pend t = pend s" "next_badge t = bump (next_badge s)" using t by (auto simp: reply_def)
    have low: "unat (q_badge (pend s ! i)) < unat (bump (next_badge s))" if "i < PENDING" for i
      using calm that bump_less [OF small] by (auto simp: calm_def pend_low_def less_Suc_eq_le)
    have "quiet t k" if k: "k < PIPES" "p_id (pipes t ! k) \<noteq> 0" for k
    proof (cases "k = j")
      case True
      have "q_badge (pend s ! i) \<noteq> bump (next_badge s)" if "i < PENDING" for i using low [OF that] by auto
      with True show ?thesis using p j len by (auto simp: quiet_def not_ready_iff Let_def e)
    next
      case False
      then show ?thesis using calm k by (simp add: calm_def settled_def quiet_def ready_def e)
    qed
    moreover have "pend_low t" using low by (simp add: pend_low_def e less_imp_le)
    ultimately show ?thesis by (simp add: calm_def settled_def)
  qed (use calm in simp)
qed

lemma open_write_calm:
  assumes ok: "svc_ok s W" and calm: "calm s" and small: "unat (next_badge s) < 2147483647" and t: "open_write r ch sent s = (result, t)"
  shows "calm t"
proof (cases "find (\<lambda>j. p_id (pipes s ! j) = r_a1 r \<and> r_a1 r \<noteq> 0) [0..<PIPES]")
  case None
  then show ?thesis using t calm by (simp add: open_write_def)
next
  case (Some j)
  then have j: "j < PIPES" "p_id (pipes s ! j) \<noteq> 0" by (auto simp: find_Some_iff)
  have len: "length (pipes s) = PIPES" using ok by (simp add: svc_ok_def shape_ok_def)
  note b = bump_less [OF small]
  have low: "unat (q_badge (pend s ! i)) < unat (bump (next_badge s))" if "i < PENDING" for i
    using calm that b by (auto simp: calm_def pend_low_def less_Suc_eq_le)
  show ?thesis
  proof (cases "p_write (pipes s ! j) = 0 \<and> 0 \<le> ch \<and> sent")
    case True
    then have e: "pipes t = (pipes s)[j := (pipes s ! j)\<lparr>p_write := bump (next_badge s)\<rparr>]" "pend t = pend s" "next_badge t = bump (next_badge s)"
      using t Some by (auto simp: open_write_def Let_def upd_pipe_def reply_def)
    have "quiet t k" if k: "k < PIPES" "p_id (pipes t ! k) \<noteq> 0" for k
    proof (cases "k = j")
      case kj: True
      have "quiet s j" using calm j by (simp add: calm_def settled_def)
      then show ?thesis using kj True low j len by (fastforce simp: quiet_def not_ready_iff Let_def e)
    next
      case False
      then show ?thesis using calm k by (simp add: calm_def settled_def quiet_def ready_def e)
    qed
    moreover have "pend_low t" using low by (simp add: pend_low_def e less_imp_le)
    ultimately show ?thesis by (simp add: calm_def settled_def)
  next
    case False
    then have "t = s \<or> t = s\<lparr>next_badge := bump (next_badge s)\<rparr>" using t Some by (auto simp: open_write_def Let_def split: if_splits)
    then show ?thesis using calm b by (auto intro!: calm_frame [OF calm])
  qed
qed

lemma handle_calm:
  assumes ok: "svc_ok s W" and calm: "calm s" and small: "unat (next_badge s) < 2147483647"
    and h: "handle r ch sent s = (answered, result, t)"
  shows "calm t"
proof -
  consider "t = s" | "open_new r ch sent s = (result, t)" | "open_write r ch sent s = (result, t)"
    | (rd) j w where "by_badge (r_badge r) s = Some (j, w)" "handle_read r w s = (answered, result, t)"
    | (wr) j w where "by_badge (r_badge r) s = Some (j, w)" "handle_write r w s = (answered, result, t)"
    | w where "t = reply (as_request r) (plain FND_OK 0 (pipe_stat w)) s"
    using h by (auto simp: handle_def pipe_open_def split: if_splits option.splits prod.splits)
  then show ?thesis
  proof cases
    case 2
    then show ?thesis by (rule open_new_calm [OF ok calm small])
  next
    case 3
    then show ?thesis by (rule open_write_calm [OF ok calm small])
  next
    case (rd j w)
    have e: "is_end s (j, w) (r_badge r)" using by_badge_Some [OF rd(1)] by (auto simp: is_end_def)
    consider "t = s" | i u where "r_a0 r \<le> IPC_MAX_DATA" "t = settle_all u"
        "queue r ST_READ (unat (if r_a0 r < r_reply_cap r then r_a0 r else r_reply_cap r)) s = Some (i, u)"
      using rd(2) by (auto simp: handle_read_def not_less split: if_splits option.splits prod.splits)
    then show ?thesis
    proof cases
      case (2 i u)
      have "unat (if r_a0 r < r_reply_cap r then r_a0 r else r_reply_cap r) \<le> PIPE_SIZE"
        using 2(1) by (auto simp: word_le_nat_alt word_less_nat_alt not_less)
      then show ?thesis unfolding 2(2) by (rule queued_calm [OF ok calm e 2(3), where bs = "[]"]) simp_all
    qed (use calm in simp)
  next
    case (wr j w)
    have e: "is_end s (j, w) (r_badge r)" using by_badge_Some [OF wr(1)] by (auto simp: is_end_def)
    consider "t = s" | "t = reply (as_request r) (plain FND_OK 0 []) s"
      | i u where "length (r_data r) \<le> PIPE_SIZE" "queue r ST_WRITE (length (r_data r)) s = Some (i, u)"
        "t = settle_all (upd_pend i (\<lambda>q. q\<lparr>q_wbuf := r_data r @ drop (length (r_data r)) (q_wbuf q)\<rparr>) u)"
      using wr(2) by (auto simp: handle_write_def Let_def split: if_splits option.splits prod.splits)
    then show ?thesis
    proof cases
      case 2
      then show ?thesis by (intro calm_frame [OF calm]) (simp_all add: reply_def)
    next
      case (3 i u)
      then show ?thesis unfolding 3(3) by (intro queued_calm [OF ok calm e 3(2,1) _ 3(1)]) simp
    qed (use calm in simp)
  next
    case 6
    then show ?thesis by (auto intro!: calm_frame [OF calm] simp: reply_def)
  qed (use calm in simp)
qed

lemma client_gone_calm:
  assumes ok: "svc_ok s W" and calm: "calm s"
  shows "calm (client_gone b s)"
proof (cases "by_badge b s")
  case (Some x)
  obtain j w where x: "x = (j, w)" by (cases x) blast
  note j = by_badge_Some [OF Some [unfolded x]]
  define p where "p = (if w then (pipes s ! j)\<lparr>p_write := 0\<rparr> else (pipes s ! j)\<lparr>p_read := 0\<rparr>)"
  define u where "u = s\<lparr>pipes := (pipes s)[j := p], pend := map (\<lambda>q. if q_badge q = b then q\<lparr>q_badge := 0\<rparr> else q) (pend s)\<rparr>"
  have shape: "shape_ok s" and len: "length (pipes s) = PIPES" "length (pend s) = PENDING" using ok by (simp_all add: svc_ok_def shape_ok_def)
  have "pipe_ok p" using shape j(1) by (simp add: shape_ok_def pipe_ok_def p_def)
  then have sh: "shape_ok u" using shape j(1) by (auto simp: u_def shape_ok_def nth_list_update)
  have pd: "pend u ! i = (if q_badge (pend s ! i) = b then (pend s ! i)\<lparr>q_badge := 0\<rparr> else pend s ! i)" if "i < PENDING" for i
    using that len by (simp add: u_def)
  have pk: "pipes u ! k = (if k = j then p else pipes s ! k)" for k using j(1) len by (simp add: u_def nth_list_update)
  let ?v = "settle j u"
  have gone: "client_gone b s = (if p_read (pipes ?v ! j) = 0 \<and> p_write (pipes ?v ! j) = 0 then upd_pipe j (\<lambda>p. p\<lparr>p_id := 0\<rparr>) ?v else ?v)"
    using Some by (simp add: client_gone_def x u_def p_def upd_pipe_def Let_def)
  have "writes_only j u" if "\<not> w" using that pd pk by (auto simp: writes_only_def p_def)
  moreover have "reads_only j u" if w using that pd pk by (auto simp: reads_only_def p_def)
  ultimately have "quiet ?v j" using settle_quiet [OF sh j(1)] by blast
  moreover have "quiet ?v k" if "k < PIPES" "k \<noteq> j" "p_id (pipes s ! k) \<noteq> 0" for k
  proof -
    have "quiet s k" using calm that by (simp add: calm_def settled_def)
    then have "quiet u k" using that(2) pd pk by (simp add: quiet_def ready_def)
    then show ?thesis by (rule settle_keeps [OF sh j(1) that(2)])
  qed
  ultimately have "settled ?v" using settle_ids [OF sh j(1)] pk by (auto simp: settled_def)
  moreover have "pend_low u" using calm pd by (auto simp: calm_def pend_low_def) (simp add: u_def)
  then have "pend_low ?v"
  proof -
    have "shape_ok (fold (settle_one j) is u) \<and> pend_low (fold (settle_one j) is u)" if "shape_ok u \<and> pend_low u" "set is \<subseteq> {..<PENDING}" for u "is"
      using that
    proof (induction "is" arbitrary: u)
      case (Cons i "is")
      have i: "i < PENDING" and l: "length (pend u) = PENDING" using Cons.prems by (simp_all add: shape_ok_def)
      have "pend_low (settle_one j i u)"
        using Cons.prems(1) settle_one_pend(1) [OF i l, of j] by (simp add: pend_low_def settle_one_fields)
      then show ?case using Cons.IH settle_one_shape [OF _ j(1) i] Cons.prems by simp
    qed simp
    then show ?thesis using sh \<open>pend_low u\<close> by (simp add: settle_def)
  qed
  ultimately have v: "calm ?v" by (simp add: calm_def)
  have "length (pipes ?v) = PIPES" using settle_shape [OF sh j(1)] by (simp add: shape_ok_def)
  then have "calm (upd_pipe j (\<lambda>p. p\<lparr>p_id := 0\<rparr>) ?v)" using v j(1)
    by (auto simp: calm_def settled_def quiet_def ready_def pend_low_def upd_pipe_def nth_list_update)
  then show ?thesis using v by (simp add: gone)
qed (use calm in \<open>simp add: client_gone_def\<close>)

lemma event_calm:
  assumes "svc_ok s W" "calm s" "unat (next_badge s) < 2147483647"
  shows "calm (pipe_event e s)"
proof (cases e)
  case (Client_gone b)
  then show ?thesis using client_gone_calm [OF assms(1,2)] by simp
next
  case (Request r ch sent)
  obtain answered result t where h: "handle r ch sent s = (answered, result, t)" by (cases "handle r ch sent s") blast
  have "calm t" by (rule handle_calm [OF assms h])
  moreover from this have "calm (reply q a t)" for q a by (rule calm_frame) (simp_all add: reply_def)
  ultimately show ?thesis by (simp add: Request h)
qed

lemma start_calm: "calm pipe_start"
proof -
  have "q_badge (pend pipe_start ! i) = 0" if "i < PENDING" for i
    using that by (simp add: pipe_start_def blank_pending_def)
  then show ?thesis by (simp add: calm_def settled_def quiet_def ready_def pend_low_def)
qed

lemma run_calm: "length es < 2147483647 \<Longrightarrow> calm (pipe_run es pipe_start)"
proof (induction es rule: rev_induct)
  case (snoc e es)
  obtain W where "svc_ok (pipe_run es pipe_start) W" "unat (next_badge (pipe_run es pipe_start)) \<le> length es"
    using run_ok [of es] snoc.prems by auto
  then show ?case using event_calm [of "pipe_run es pipe_start" W e] snoc by (simp add: pipe_run_def)
qed (simp add: pipe_run_def start_calm)

text \<open>C27: After every event, a read that waits has an empty pipe and an open write end before it, and a write that
  waits has an open read end and too little room: no request is left behind that could be answered, although
  \<open>settle_all\<close> goes around twice only.\<close>

theorem pipe_no_stall:
  assumes "length es < 2147483647" "s = pipe_run es pipe_start" "j < PIPES" "p_id (pipes s ! j) \<noteq> 0"
    "i < PENDING" "q_badge (pend s ! i) \<noteq> 0"
  shows "(q_op (pend s ! i) = ST_READ \<and> q_badge (pend s ! i) = p_read (pipes s ! j) \<longrightarrow>
      contents (pipes s ! j) = [] \<and> p_write (pipes s ! j) \<noteq> 0) \<and>
    (q_op (pend s ! i) = ST_WRITE \<and> q_badge (pend s ! i) = p_write (pipes s ! j) \<longrightarrow>
      p_read (pipes s ! j) \<noteq> 0 \<and> PIPE_SIZE < length (contents (pipes s ! j)) + q_max (pend s ! i))"
proof -
  have "quiet s j" using run_calm [OF assms(1)] assms(2-4) by (simp add: calm_def settled_def)
  then show ?thesis using assms(5,6) contents_blank [of "pipes s ! j"] unfolding quiet_def not_ready_iff
    by (auto simp: Let_def)
qed

section \<open>A run\<close>

text \<open>A pipe is made, its write end attached, and the reader waits.\<close>

definition lookup_call :: "u32 \<Rightarrow> u32 \<Rightarrow> request" where
  "lookup_call mode n = \<lparr>r_op = PIPE_OPEN, r_a0 = mode, r_a1 = n, r_data = [], r_token = 7, r_badge = 0x80000005, r_reply_cap = 0\<rparr>"

definition read_call :: request where
  "read_call = \<lparr>r_op = ST_READ, r_a0 = 100, r_a1 = 0, r_data = [], r_token = 9, r_badge = 1, r_reply_cap = 64\<rparr>"

definition opened :: "u32 \<Rightarrow> u32 \<Rightarrow> (pending \<times> answer) list \<Rightarrow> pipe_svc" where
  "opened n w log = \<lparr>pipes = (replicate PIPES blank_pipe)[0 := blank_pipe\<lparr>p_id := 1, p_read := 1, p_write := w\<rparr>],
     pend = replicate PENDING blank_pending, next_id = 1, next_badge = n, replies = log\<rparr>"

lemma upto_16: "[0..<PENDING] = [0, 1, 2, 3, 4, 5, 6, 7, 8, 9, 10, 11, 12, 13, 14, 15]"
  by (simp add: upt_rec)

lemma open_run: "pipe_event (Request (lookup_call 0 0) 5 True) pipe_start = opened 1 0 [(as_request (lookup_call 0 0), handed 1 5)]"
proof -
  have "find (\<lambda>j. p_id (pipes pipe_start ! j) = 0) [0..<PIPES] = Some 0"
    by (simp add: upto_16 pipe_start_def blank_pipe_def)
  moreover have "bump 0 = 1" by (simp add: bump_def)
  ultimately show ?thesis
    by (simp add: handle_def pipe_open_def open_new_def lookup_call_def Let_def upd_pipe_def reply_def opened_def)
       (simp add: pipe_start_def blank_pipe_def)
qed

lemma attach_run:
  assumes "n < 0x7FFFFFFF"
  shows "pipe_event (Request (lookup_call 1 1) 5 True) (opened n 0 log) =
    opened (n + 1) (n + 1) (log @ [(as_request (lookup_call 1 1), handed 1 5)])"
proof -
  have "find (\<lambda>j. p_id (pipes (opened n 0 log) ! j) = 1 \<and> (1 :: u32) \<noteq> 0) [0..<PIPES] = Some 0"
    by (simp add: upto_16 opened_def blank_pipe_def)
  moreover have "bump n = n + 1" using assms by (auto simp: bump_def dest: leD)
  ultimately show ?thesis
    by (simp add: handle_def pipe_open_def open_write_def lookup_call_def Let_def upd_pipe_def reply_def)
       (simp add: opened_def blank_pipe_def)
qed

lemma quiet_blank: "q_badge (pend s ! i) = 0 \<Longrightarrow> \<not> ready s j i"
  by (simp add: ready_def)

lemma settle_all_same:
  assumes "\<And>j. j < PIPES \<Longrightarrow> p_id (pipes s ! j) \<noteq> 0 \<Longrightarrow> quiet s j"
  shows "settle_all s = s"
proof -
  have "fold (\<lambda>j s. if p_id (pipes s ! j) \<noteq> 0 then settle j s else s) js s = s" if "set js \<subseteq> {..<PIPES}" for js
    using that assms by (induction js) (auto simp: quiet_settle)
  then have "settle_round s = s" by (simp add: settle_round_def)
  then show ?thesis by (simp add: settle_all_def)
qed

definition reader_waits :: pipe_svc where
  "reader_waits = (opened 2 2 [(as_request (lookup_call 0 0), handed 1 5), (as_request (lookup_call 1 1), handed 1 5)])
     \<lparr>pend := (replicate PENDING blank_pending)[0 := blank_pending\<lparr>q_token := 9, q_badge := 1, q_op := ST_READ, q_max := 64\<rparr>]\<rparr>"

lemma waiting_pipe: "j < PIPES \<Longrightarrow> pipes reader_waits ! j = (if j = 0 then blank_pipe\<lparr>p_id := 1, p_read := 1, p_write := 2\<rparr> else blank_pipe)"
  by (simp add: reader_waits_def opened_def nth_list_update)

lemma waiting_pend: "i < PENDING \<Longrightarrow> pend reader_waits ! i =
    (if i = 0 then blank_pending\<lparr>q_token := 9, q_badge := 1, q_op := ST_READ, q_max := 64\<rparr> else blank_pending)"
  by (simp add: reader_waits_def nth_list_update)

definition pipe_sample :: "pipe_msg list" where
  "pipe_sample = [Request (lookup_call 0 0) 5 True, Request (lookup_call 1 1) 5 True, Request read_call 0 True]"

lemma sample_run: "pipe_run pipe_sample pipe_start = reader_waits"
proof -
  let ?s = "opened 2 2 [(as_request (lookup_call 0 0), handed 1 5), (as_request (lookup_call 1 1), handed 1 5)]"
  have "find (\<lambda>i. q_badge (pend ?s ! i) = 0) [0..<PENDING] = Some 0" by (simp add: upto_16 opened_def blank_pending_def)
  then have q: "queue read_call ST_READ 64 ?s = Some (0, reader_waits)"
    by (simp add: queue_def upd_pend_def read_call_def) (simp add: reader_waits_def opened_def)
  have "quiet reader_waits j" if "j < PIPES" "p_id (pipes reader_waits ! j) \<noteq> 0" for j
    using that by (auto simp: quiet_def not_ready_iff waiting_pipe waiting_pend Let_def blank_pipe_def blank_pending_def split: if_splits)
  then have "settle_all reader_waits = reader_waits" by (rule settle_all_same)
  moreover have "find (\<lambda>j. p_id (pipes ?s ! j) \<noteq> 0 \<and> (p_read (pipes ?s ! j) = 1 \<or> p_write (pipes ?s ! j) = 1)) [0..<PIPES] = Some 0"
    by (simp add: upto_16 opened_def blank_pipe_def)
  then have "by_badge (r_badge read_call) ?s = Some (0, False)"
    by (simp add: by_badge_def read_call_def) (simp add: opened_def blank_pipe_def)
  moreover have "r_badge read_call AND LOOKUP_BADGE = 0" by (simp add: read_call_def)
  ultimately have "handle read_call 0 True ?s = (True, FND_OK, reader_waits)"
    using q by (simp add: handle_def handle_read_def read_call_def)
  then show ?thesis unfolding pipe_run_def pipe_sample_def
    using open_run attach_run [of 1 "[(as_request (lookup_call 0 0), handed 1 5)]"] by simp
qed

theorem pipe_in_order_witness:
  "\<exists>ws. concat (map (\<lambda>w. given w (replies (pipe_run pipe_sample pipe_start))) ws) =
     taken 1 (replies (pipe_run pipe_sample pipe_start)) @ contents (pipes (pipe_run pipe_sample pipe_start) ! 0) \<and>
     last ws = 2"
proof -
  have p: "pipes reader_waits ! 0 = blank_pipe\<lparr>p_id := 1, p_read := 1, p_write := 2\<rparr>" using waiting_pipe [of 0] by simp
  have "length pipe_sample < 2147483647" "(0 :: nat) < PIPES" by (simp_all add: pipe_sample_def)
  from pipe_in_order [OF this(1) refl this(2)] show ?thesis unfolding sample_run p by auto
qed

theorem pipe_no_stall_witness:
  "q_badge (pend (pipe_run pipe_sample pipe_start) ! 0) = 1 \<and>
     contents (pipes (pipe_run pipe_sample pipe_start) ! 0) = [] \<and> p_write (pipes (pipe_run pipe_sample pipe_start) ! 0) \<noteq> 0"
proof -
  have p: "pipes reader_waits ! 0 = blank_pipe\<lparr>p_id := 1, p_read := 1, p_write := 2\<rparr>" using waiting_pipe [of 0] by simp
  have q: "pend reader_waits ! 0 = blank_pending\<lparr>q_token := 9, q_badge := 1, q_op := ST_READ, q_max := 64\<rparr>"
    using waiting_pend [of 0] by simp
  have "length pipe_sample < 2147483647" "(0 :: nat) < PIPES" "(0 :: nat) < PENDING" by (simp_all add: pipe_sample_def)
  from pipe_no_stall [OF this(1) refl this(2) _ this(3)] show ?thesis unfolding sample_run p q by simp
qed

text \<open>The write end of a pipe can be attached again after it was closed.\<close>

lemma write_end_again:
  "p_write (pipes (pipe_run [Request (lookup_call 0 0) 5 True, Request (lookup_call 1 1) 5 True, Client_gone 2,
     Request (lookup_call 1 1) 5 True] pipe_start) ! 0) = 3"
proof -
  let ?l = "[(as_request (lookup_call 0 0), handed 1 5), (as_request (lookup_call 1 1), handed 1 5)]"
  have "find (\<lambda>j. p_id (pipes (opened 2 2 ?l) ! j) \<noteq> 0 \<and> (p_read (pipes (opened 2 2 ?l) ! j) = 2 \<or> p_write (pipes (opened 2 2 ?l) ! j) = 2)) [0..<PIPES] = Some 0"
    by (simp add: upto_16 opened_def blank_pipe_def)
  then have b: "by_badge 2 (opened 2 2 ?l) = Some (0, True)"
    by (simp add: by_badge_def) (simp add: opened_def blank_pipe_def)
  have m: "map (\<lambda>q. if q_badge q = 2 then q\<lparr>q_badge := 0\<rparr> else q) (pend (opened 2 2 ?l)) = pend (opened 2 2 ?l)"
    by (simp add: opened_def blank_pending_def)
  have q: "settle 0 (opened 2 0 ?l) = opened 2 0 ?l"
    by (rule quiet_settle) (simp add: quiet_def ready_def opened_def blank_pending_def)
  have "upd_pipe 0 (\<lambda>p. p\<lparr>p_write := 0\<rparr>) (opened 2 2 ?l) = opened 2 0 ?l" by (simp add: upd_pipe_def opened_def)
  then have "client_gone 2 (opened 2 2 ?l) = opened 2 0 ?l"
    using b m q by (simp add: client_gone_def Let_def) (simp add: opened_def)
  then show ?thesis
    using open_run attach_run [of 1 "[(as_request (lookup_call 0 0), handed 1 5)]"] attach_run [of 2 ?l]
    by (simp add: pipe_run_def) (simp add: opened_def)
qed

end
