(* ===== verification/Disk.thy ===== *)
theory Disk
  imports Prelude
begin

text \<open>
  The disk service (\<open>foundation/services/disk/cache.c\<close> and \<open>main.c\<close>): four windows of up to 128 sectors kept in
  least recently used order, and the request loop. Sectors are byte lists; drives, sectors and counts, below
  \<open>2 ^ 32\<close>, are \<open>nat\<close>. The drives behind \<open>fnd_sys_blk_io\<close> are a parameter: three functions on a state of theirs.
\<close>

abbreviation DISK_CACHE_WINDOWS :: nat where "DISK_CACHE_WINDOWS \<equiv> 4"
abbreviation DISK_CACHE_SECTORS :: nat where "DISK_CACHE_SECTORS \<equiv> 128"
abbreviation DISK_CACHE_ALL :: nat where "DISK_CACHE_ALL \<equiv> 4294967295"
abbreviation DISK_IDENTIFY :: u32 where "DISK_IDENTIFY \<equiv> 0x8000"
abbreviation DISK_READ :: u32 where "DISK_READ \<equiv> 0x8001"
abbreviation DISK_WRITE :: u32 where "DISK_WRITE \<equiv> 0x8002"
abbreviation DISK_MAX_SECTORS :: nat where "DISK_MAX_SECTORS \<equiv> 8"
abbreviation DISK_FLAG_PRESENT :: u32 where "DISK_FLAG_PRESENT \<equiv> 1"

type_synonym sector = "u8 list"

text \<open>A read returns the status, what is in the buffer and the state; IDENTIFY returns four words.\<close>

record 'e drives =
  blk_read :: "nat \<Rightarrow> nat \<Rightarrow> nat \<Rightarrow> 'e \<Rightarrow> int \<times> sector list \<times> 'e"
  blk_write :: "nat \<Rightarrow> nat \<Rightarrow> sector list \<Rightarrow> 'e \<Rightarrow> int \<times> 'e"
  blk_identify :: "nat \<Rightarrow> 'e \<Rightarrow> int \<times> u32 list \<times> 'e"

section \<open>The windows\<close>

record window =
  w_drive :: nat
  w_lba :: nat
  w_count :: nat
  w_age :: nat
  w_data :: "sector list"

definition blank_window :: window where
  "blank_window = \<lparr>w_drive = 0, w_lba = 0, w_count = 0, w_age = 0, w_data = replicate DISK_CACHE_SECTORS (replicate 512 0)\<rparr>"

definition windows_start :: "window list" where
  "windows_start = replicate DISK_CACHE_WINDOWS blank_window"

definition forget :: "nat \<Rightarrow> window list \<Rightarrow> window list" where
  "forget i ws =
     (if w_count (ws ! i) \<noteq> 0 then
        let age = w_age (ws ! i);
            ws = map (\<lambda>w. if w_count w \<noteq> 0 \<and> age < w_age w then w\<lparr>w_age := w_age w - 1\<rparr> else w) ws
        in ws[i := (ws ! i)\<lparr>w_count := 0\<rparr>]
      else ws)"

definition disk_cache_drop :: "nat \<Rightarrow> window list \<Rightarrow> window list" where
  "disk_cache_drop drive ws =
     fold (\<lambda>i ws. if drive = DISK_CACHE_ALL \<or> w_drive (ws ! i) = drive then forget i ws else ws) [0..<DISK_CACHE_WINDOWS] ws"

definition overlaps :: "nat \<Rightarrow> nat \<Rightarrow> nat \<Rightarrow> window \<Rightarrow> bool" where
  "overlaps drive lba count w \<longleftrightarrow> count \<noteq> 0 \<and> w_count w \<noteq> 0 \<and> w_drive w = drive \<and>
     (if w_lba w \<le> lba then lba - w_lba w < w_count w else w_lba w - lba < count)"

definition disk_cache_write :: "nat \<Rightarrow> nat \<Rightarrow> nat \<Rightarrow> window list \<Rightarrow> window list" where
  "disk_cache_write drive lba count ws =
     fold (\<lambda>i ws. if overlaps drive lba count (ws ! i) then forget i ws else ws) [0..<DISK_CACHE_WINDOWS] ws"

definition touch :: "nat \<Rightarrow> window list \<Rightarrow> window list" where
  "touch i ws =
     (let age = w_age (ws ! i);
          ws = map (\<lambda>w. if w_count w \<noteq> 0 \<and> w_age w < age then w\<lparr>w_age := w_age w + 1\<rparr> else w) ws
      in ws[i := (ws ! i)\<lparr>w_age := 0\<rparr>])"

definition holds :: "nat \<Rightarrow> nat \<Rightarrow> nat \<Rightarrow> window \<Rightarrow> bool" where
  "holds drive lba count w \<longleftrightarrow> w_count w \<noteq> 0 \<and> w_drive w = drive \<and> w_lba w \<le> lba \<and> count \<le> w_count w \<and>
     lba - w_lba w \<le> w_count w - count"

text \<open>The search: the window that holds the range, or the one to replace.\<close>

fun scan :: "(window \<Rightarrow> bool) \<Rightarrow> window list \<Rightarrow> nat list \<Rightarrow> nat \<Rightarrow> nat + nat" where
  "scan hit ws [] victim = Inr victim"
| "scan hit ws (i # is) victim =
     (if hit (ws ! i) then Inl i
      else scan hit ws is
        (if w_count (ws ! i) = 0 \<or> (w_count (ws ! victim) \<noteq> 0 \<and> w_age (ws ! victim) < w_age (ws ! i)) then i else victim))"

definition fill :: "sector list \<Rightarrow> window \<Rightarrow> window" where
  "fill bs w = w\<lparr>w_data := bs @ drop (length bs) (w_data w)\<rparr>"

text \<open>The status, where \<open>*out\<close> points (a window and a sector of it), the windows and the drives.\<close>

definition disk_cache_read ::
  "'e drives \<Rightarrow> nat \<Rightarrow> nat \<Rightarrow> nat \<Rightarrow> nat \<Rightarrow> window list \<Rightarrow> 'e \<Rightarrow> int \<times> (nat \<times> nat) \<times> window list \<times> 'e" where
  "disk_cache_read D drive lba count capacity ws e =
     (if count = 0 \<or> DISK_CACHE_SECTORS < count then (FND_E_BAD_ARG, (0, 0), ws, e)
      else case scan (holds drive lba count) ws [0..<DISK_CACHE_WINDOWS] 0 of
          Inl i \<Rightarrow> (FND_OK, (i, lba - w_lba (ws ! i)), touch i ws, e)
        | Inr v \<Rightarrow>
            let ws = forget v ws;
                n = min (if lba < capacity then capacity - lba else 0) DISK_CACHE_SECTORS
            in if 4 \<le> drive \<or> n < count then
                 (case blk_read D drive lba count e of (st, bs, e) \<Rightarrow> (st, (v, 0), ws[v := fill bs (ws ! v)], e))
               else (case blk_read D drive lba n e of (st, bs, e) \<Rightarrow>
                 let ws = ws[v := fill bs (ws ! v)] in
                 if st \<noteq> FND_OK then
                   let ws = disk_cache_drop DISK_CACHE_ALL ws in
                   (case blk_read D drive lba count e of (st, bs, e) \<Rightarrow> (st, (v, 0), ws[v := fill bs (ws ! v)], e))
                 else
                   let ws = ws[v := (ws ! v)\<lparr>w_drive := drive, w_lba := lba, w_age := DISK_CACHE_WINDOWS, w_count := n\<rparr>]
                   in (FND_OK, (v, 0), touch v ws, e)))"

section \<open>The service\<close>

record disk_svc =
  windows :: "window list"
  capacity :: "nat list"
  client :: u32

definition disk_start :: disk_svc where
  "disk_start = \<lparr>windows = windows_start, capacity = [0, 0, 0, 0], client = 0\<rparr>"

text \<open>A request, its data in sectors and its length in bytes; \<open>d_total\<close> is the length the sender gave.\<close>

record disk_request =
  d_op :: u32
  d_flags :: u32
  d_a0 :: nat
  d_a1 :: nat
  d_a2 :: nat
  d_a3 :: nat
  d_len :: nat
  d_total :: nat
  d_sectors :: "sector list"
  d_badge :: u32
  d_reply_cap :: nat

record disk_reply =
  e_status :: int
  e_words :: "u32 list"
  e_data :: "sector list"

definition identify :: "'e drives \<Rightarrow> disk_request \<Rightarrow> disk_svc \<Rightarrow> 'e \<Rightarrow> disk_reply \<times> disk_svc \<times> 'e" where
  "identify D r s e =
     (case (if d_a1 r \<noteq> 0 \<or> d_a2 r \<noteq> 0 \<or> d_len r \<noteq> 0 then (FND_E_BAD_ARG, [0, 0, 0, 0], e) else blk_identify D (d_a0 r) e) of
        (st, info, e) \<Rightarrow>
          let s = (if d_a0 r < 4 then s\<lparr>capacity := (capacity s)[d_a0 r :=
                     if st = FND_OK \<and> info ! 1 = 512 \<and> info ! 3 AND DISK_FLAG_PRESENT \<noteq> 0 then unat (info ! 2) else 0]\<rparr> else s);
              s = s\<lparr>windows := disk_cache_drop (d_a0 r) (windows s)\<rparr>
          in (\<lparr>e_status = st, e_words = (if st = FND_OK then info else [0, 0, 0, 0]), e_data = []\<rparr>, s, e))"

definition transfer_bad :: "disk_request \<Rightarrow> nat \<Rightarrow> bool" where
  "transfer_bad r count \<longleftrightarrow> count = 0 \<or> DISK_MAX_SECTORS < count \<or> (d_op r = DISK_READ \<and> d_len r \<noteq> 0) \<or>
     (d_op r = DISK_WRITE \<and> (d_a2 r \<noteq> 0 \<or> d_len r mod 512 \<noteq> 0 \<or> d_total r \<noteq> d_len r))"

definition transfer :: "'e drives \<Rightarrow> disk_request \<Rightarrow> disk_svc \<Rightarrow> 'e \<Rightarrow> disk_reply \<times> disk_svc \<times> 'e" where
  "transfer D r s e =
     (let count = (if d_op r = DISK_WRITE then d_len r div 512 else d_a2 r) in
      case (if transfer_bad r count then (FND_E_BAD_ARG, 0, [], windows s, e)
            else if d_op r = DISK_READ \<and> d_reply_cap r < count * 512 then (FND_E_LIMIT, 0, [], windows s, e)
            else if d_op r = DISK_READ then
              (case disk_cache_read D (d_a0 r) (d_a1 r) count (if d_a0 r < 4 then capacity s ! d_a0 r else 0) (windows s) e of
                 (st, (i, at), ws, e) \<Rightarrow> (st, 0, if st = FND_OK then take count (drop at (w_data (ws ! i))) else [], ws, e))
            else
              let ws = disk_cache_write (d_a0 r) (d_a1 r) count (windows s) in
              (case blk_write D (d_a0 r) (d_a1 r) (take count (d_sectors r)) e of
                 (st, e) \<Rightarrow> (st, if st = FND_OK then count else 0, [], ws, e))) of
        (st, a0, bs, ws, e) \<Rightarrow>
          (\<lparr>e_status = st, e_words = [word_of_nat a0, 0, 0, 0], e_data = bs\<rparr>,
           s\<lparr>windows := (if st \<noteq> FND_OK then disk_cache_drop DISK_CACHE_ALL ws else ws)\<rparr>, e))"

definition disk_answer :: "'e drives \<Rightarrow> disk_request \<Rightarrow> disk_svc \<Rightarrow> 'e \<Rightarrow> disk_reply \<times> disk_svc \<times> 'e" where
  "disk_answer D r s e =
     (let s = (if client s = 0 then s\<lparr>client := d_badge r\<rparr> else s);
          refuse = (\<lambda>st. (\<lparr>e_status = st, e_words = [0, 0, 0, 0], e_data = []\<rparr>, s, e))
      in if d_badge r \<noteq> client s then refuse FND_E_ACCESS
         else if d_flags r \<noteq> 0 \<or> d_a3 r \<noteq> 0 then refuse FND_E_BAD_ARG
         else if d_op r = DISK_IDENTIFY then identify D r s e
         else if d_op r = DISK_READ \<or> d_op r = DISK_WRITE then transfer D r s e
         else refuse FND_E_UNSUPPORTED)"

text \<open>What the loop receives: a request or the notification that a client is gone.\<close>

datatype disk_msg = Disk_gone u32 | Disk_request disk_request

fun disk_event :: "'e drives \<Rightarrow> disk_msg \<Rightarrow> disk_svc \<times> 'e \<Rightarrow> disk_svc \<times> 'e" where
  "disk_event D (Disk_gone b) (s, e) = (if b = client s then s\<lparr>client := 0xFFFFFFFF\<rparr> else s, e)"
| "disk_event D (Disk_request r) (s, e) = snd (disk_answer D r s e)"

definition disk_run :: "'e drives \<Rightarrow> disk_msg list \<Rightarrow> disk_svc \<times> 'e \<Rightarrow> disk_svc \<times> 'e" where
  "disk_run D ms = fold (disk_event D) ms"

end
