(* ===== verification/Disk_Facts.thy ===== *)
theory Disk_Facts
  imports Disk
begin

text \<open>
  What the disk service promises: a window never shows old sectors, and the ages of the windows in use are
  their places in least recently used order.
\<close>

section \<open>Live windows and their ages\<close>

definition live :: "window list \<Rightarrow> nat set" where
  "live ws = {i. i < DISK_CACHE_WINDOWS \<and> w_count (ws ! i) \<noteq> 0}"

definition ranks_ok :: "window list \<Rightarrow> bool" where
  "ranks_ok ws \<longleftrightarrow> length ws = DISK_CACHE_WINDOWS \<and> inj_on (\<lambda>i. w_age (ws ! i)) (live ws) \<and>
     (\<forall>i\<in>live ws. w_age (ws ! i) < card (live ws))"

lemma upto_below [simp]: "{a..<n} \<subseteq> {..<n :: nat}"
  by auto

lemma finite_live [simp]: "finite (live ws)"
  by (simp add: live_def)

lemma card_live: "card (live ws) \<le> DISK_CACHE_WINDOWS"
proof -
  have "live ws \<subseteq> {..<DISK_CACHE_WINDOWS}" by (auto simp: live_def)
  then show ?thesis by (metis card_lessThan card_mono finite_lessThan)
qed

lemma forget_nth:
  assumes "length ws = DISK_CACHE_WINDOWS" "i < DISK_CACHE_WINDOWS" "k < DISK_CACHE_WINDOWS"
  shows "forget i ws ! k = (if k = i then (ws ! i)\<lparr>w_count := 0\<rparr>
     else if i \<in> live ws \<and> k \<in> live ws \<and> w_age (ws ! i) < w_age (ws ! k) then (ws ! k)\<lparr>w_age := w_age (ws ! k) - 1\<rparr> else ws ! k)"
    "length (forget i ws) = DISK_CACHE_WINDOWS"
  using assms by (auto simp: forget_def Let_def live_def nth_list_update)

lemma forget_live: "length ws = DISK_CACHE_WINDOWS \<Longrightarrow> i < DISK_CACHE_WINDOWS \<Longrightarrow> live (forget i ws) = live ws - {i}"
  using forget_nth by (auto simp: live_def split: if_splits)

lemma forget_ranks:
  assumes "ranks_ok ws" "i < DISK_CACHE_WINDOWS"
  shows "ranks_ok (forget i ws)"
proof (cases "i \<in> live ws")
  case True
  have len: "length ws = DISK_CACHE_WINDOWS" using assms(1) by (simp add: ranks_ok_def)
  let ?a = "\<lambda>k. w_age (ws ! k)"
  have age: "w_age (forget i ws ! k) = (if ?a i < ?a k then ?a k - 1 else ?a k)" "?a k \<noteq> ?a i" if "k \<in> live ws - {i}" for k
    using that True assms forget_nth(1) [OF len assms(2), of k] by (auto simp: live_def ranks_ok_def inj_on_def)
  have low: "\<And>k. k \<in> live ws \<Longrightarrow> ?a k < card (live ws)" using assms(1) by (simp add: ranks_ok_def)
  have c: "card (live ws - {i}) = card (live ws) - 1" using True by simp
  have "inj_on (\<lambda>k. w_age (forget i ws ! k)) (live ws - {i})"
  proof (rule inj_onI)
    fix k l assume k: "k \<in> live ws - {i}" "l \<in> live ws - {i}" "w_age (forget i ws ! k) = w_age (forget i ws ! l)"
    have "?a k = ?a l" using k(3) age(2) [OF k(1)] age(2) [OF k(2)] unfolding age(1) [OF k(1)] age(1) [OF k(2)] by (auto split: if_splits)
    then show "k = l" using assms(1) k by (auto simp: ranks_ok_def inj_on_def)
  qed
  moreover have "w_age (forget i ws ! k) < card (live ws - {i})" if "k \<in> live ws - {i}" for k
    using age [OF that] low [of k] low [OF True] that unfolding c by auto
  ultimately show ?thesis using forget_nth(2) [OF len assms(2,2)] forget_live [OF len assms(2)] by (simp add: ranks_ok_def)
next
  case False
  then have "forget i ws = ws" using assms by (simp add: forget_def live_def)
  then show ?thesis using assms by simp
qed

lemma touch_nth:
  assumes "length ws = DISK_CACHE_WINDOWS" "i < DISK_CACHE_WINDOWS" "k < DISK_CACHE_WINDOWS"
  shows "touch i ws ! k = (if k = i then (ws ! i)\<lparr>w_age := 0\<rparr>
     else if k \<in> live ws \<and> w_age (ws ! k) < w_age (ws ! i) then (ws ! k)\<lparr>w_age := w_age (ws ! k) + 1\<rparr> else ws ! k)"
    "length (touch i ws) = DISK_CACHE_WINDOWS"
  using assms by (auto simp: touch_def Let_def live_def nth_list_update)

lemma touch_live: "length ws = DISK_CACHE_WINDOWS \<Longrightarrow> i < DISK_CACHE_WINDOWS \<Longrightarrow> live (touch i ws) = live ws"
  using touch_nth by (auto simp: live_def split: if_splits)

text \<open>A window in use, or one just filled whose age is above all others, becomes the most recent one.\<close>

lemma touch_ranks:
  assumes "length ws = DISK_CACHE_WINDOWS" "i \<in> live ws" "inj_on (\<lambda>k. w_age (ws ! k)) (live ws)"
    "\<And>k. k \<in> live ws - {i} \<Longrightarrow> w_age (ws ! k) < card (live ws)"
    "\<And>k. k \<in> live ws - {i} \<Longrightarrow> w_age (ws ! k) < w_age (ws ! i) \<Longrightarrow> w_age (ws ! k) + 1 < card (live ws)"
  shows "ranks_ok (touch i ws)"
proof -
  let ?a = "\<lambda>k. w_age (ws ! k)"
  have i: "i < DISK_CACHE_WINDOWS" using assms(2) by (simp add: live_def)
  have age: "w_age (touch i ws ! k) = (if k = i then 0 else if ?a k < ?a i then ?a k + 1 else ?a k)" if "k \<in> live ws" for k
    using that touch_nth(1) [OF assms(1) i, of k] by (auto simp: live_def)
  have ne: "?a k \<noteq> ?a i" if "k \<in> live ws" "k \<noteq> i" for k using assms(2,3) that by (auto simp: inj_on_def)
  have "inj_on (\<lambda>k. w_age (touch i ws ! k)) (live ws)"
  proof (rule inj_onI)
    fix k l assume k: "k \<in> live ws" "l \<in> live ws" and e: "w_age (touch i ws ! k) = w_age (touch i ws ! l)"
    have "?a k = ?a l" using e ne [OF k(1)] ne [OF k(2)] unfolding age [OF k(1)] age [OF k(2)] by (auto split: if_splits)
    then show "k = l" using assms(3) k by (auto simp: inj_on_def)
  qed
  moreover have "w_age (touch i ws ! k) < card (live ws)" if "k \<in> live ws" for k
    using age [OF that] assms(2,4,5) that by (cases "k = i") (auto simp: card_gt_0_iff)
  ultimately show ?thesis using touch_nth(2) [OF assms(1) i i] touch_live [OF assms(1) i] by (simp add: ranks_ok_def)
qed

section \<open>What the windows show\<close>

definition shows_disk :: "(nat \<Rightarrow> nat \<Rightarrow> sector) \<Rightarrow> window \<Rightarrow> bool" where
  "shows_disk disk w \<longleftrightarrow> w_count w \<noteq> 0 \<longrightarrow> take (w_count w) (w_data w) = map (disk (w_drive w)) [w_lba w..<w_lba w + w_count w]"

definition cache_ok :: "(nat \<Rightarrow> nat \<Rightarrow> sector) \<Rightarrow> window list \<Rightarrow> bool" where
  "cache_ok disk ws \<longleftrightarrow> ranks_ok ws \<and> (\<forall>i<DISK_CACHE_WINDOWS. shows_disk disk (ws ! i))"

lemma forget_shows:
  assumes "length ws = DISK_CACHE_WINDOWS" "i < DISK_CACHE_WINDOWS" "k < DISK_CACHE_WINDOWS"
    "k \<noteq> i \<Longrightarrow> shows_disk disk (ws ! k)"
  shows "shows_disk disk (forget i ws ! k)"
  using assms(4) unfolding forget_nth(1) [OF assms(1-3)] by (auto simp: shows_disk_def)

lemma forget_ok: "cache_ok disk ws \<Longrightarrow> i < DISK_CACHE_WINDOWS \<Longrightarrow> cache_ok disk (forget i ws)"
  using forget_ranks forget_shows by (auto simp: cache_ok_def ranks_ok_def)

lemma forget_key:
  assumes "length ws = DISK_CACHE_WINDOWS" "i < DISK_CACHE_WINDOWS" "k < DISK_CACHE_WINDOWS"
  shows "w_drive (forget i ws ! k) = w_drive (ws ! k)" "w_lba (forget i ws ! k) = w_lba (ws ! k)"
    "w_count (forget i ws ! k) = (if k = i then 0 else w_count (ws ! k))" "w_data (forget i ws ! k) = w_data (ws ! k)"
  unfolding forget_nth(1) [OF assms] by auto

text \<open>A pass that forgets the windows that \<open>P\<close> holds of, where \<open>P\<close> does not look at ages.\<close>

lemma forget_pass:
  assumes P: "\<And>w n. P (w\<lparr>w_age := n\<rparr>) = P w" and "ranks_ok ws" "set is \<subseteq> {..<DISK_CACHE_WINDOWS}"
    and "\<And>k. k < DISK_CACHE_WINDOWS \<Longrightarrow> k \<in> set is \<and> P (ws ! k) \<or> shows_disk disk (ws ! k)"
  shows "cache_ok disk (fold (\<lambda>i ws. if P (ws ! i) then forget i ws else ws) is ws)"
  using assms(2-4)
proof (induction "is" arbitrary: ws)
  case Nil
  then show ?case by (auto simp: cache_ok_def)
next
  case (Cons i "is")
  have i: "i < DISK_CACHE_WINDOWS" and len: "length ws = DISK_CACHE_WINDOWS" using Cons.prems(1,2) by (simp_all add: ranks_ok_def)
  show ?case
  proof (cases "P (ws ! i)")
    case True
    have "k \<in> set is \<and> P (forget i ws ! k) \<or> shows_disk disk (forget i ws ! k)" if k: "k < DISK_CACHE_WINDOWS" for k
    proof (cases "k = i")
      case True
      then have "shows_disk disk (forget i ws ! k)" unfolding forget_nth(1) [OF len i k] by (simp add: shows_disk_def)
      then show ?thesis ..
    next
      case False
      have "P (forget i ws ! k) = P (ws ! k)" unfolding forget_nth(1) [OF len i k] using False P by auto
      then show ?thesis using Cons.prems(3) [OF k] False forget_shows [OF len i k] by auto
    qed
    then show ?thesis using Cons.IH [OF forget_ranks [OF Cons.prems(1) i]] Cons.prems(2) True by simp
  next
    case False
    then show ?thesis using Cons.IH [OF Cons.prems(1)] Cons.prems(2,3) by fastforce
  qed
qed

lemma forget_all_pass:
  assumes "\<And>w n. P (w\<lparr>w_age := n\<rparr>) = P w" "ranks_ok ws" "\<And>k. k < DISK_CACHE_WINDOWS \<Longrightarrow> \<not> P (ws ! k) \<Longrightarrow> shows_disk disk (ws ! k)"
  shows "cache_ok disk (fold (\<lambda>i ws. if P (ws ! i) then forget i ws else ws) [0..<DISK_CACHE_WINDOWS] ws)"
proof (rule forget_pass [OF assms(1,2)])
  show "set [0..<DISK_CACHE_WINDOWS] \<subseteq> {..<DISK_CACHE_WINDOWS}" unfolding set_upt by (rule upto_below)
  fix k :: nat assume k: "k < DISK_CACHE_WINDOWS"
  then have "k \<in> set [0..<DISK_CACHE_WINDOWS]" unfolding set_upt by simp
  then show "k \<in> set [0..<DISK_CACHE_WINDOWS] \<and> P (ws ! k) \<or> shows_disk disk (ws ! k)" using assms(3) [OF k] by blast
qed

lemma drop_ok:
  assumes "ranks_ok ws" "\<And>k. k < DISK_CACHE_WINDOWS \<Longrightarrow> d \<noteq> DISK_CACHE_ALL \<Longrightarrow> w_drive (ws ! k) \<noteq> d \<Longrightarrow> shows_disk disk (ws ! k)"
  shows "cache_ok disk (disk_cache_drop d ws)"
  unfolding disk_cache_drop_def
  by (rule forget_all_pass [of "\<lambda>w. d = DISK_CACHE_ALL \<or> w_drive w = d"]) (use assms in simp_all)

lemma write_ok:
  assumes "ranks_ok ws" "\<And>k. k < DISK_CACHE_WINDOWS \<Longrightarrow> \<not> overlaps d l c (ws ! k) \<Longrightarrow> shows_disk disk (ws ! k)"
  shows "cache_ok disk (disk_cache_write d l c ws)"
  unfolding disk_cache_write_def
  by (rule forget_all_pass [of "overlaps d l c", OF _ assms]) (simp_all add: overlaps_def)

lemma fold_keeps: "(\<And>i w. i \<in> set is \<Longrightarrow> P w \<Longrightarrow> P (f i w)) \<Longrightarrow> P ws \<Longrightarrow> P (fold f is ws)"
  by (induction "is" arbitrary: ws) auto

lemma drop_all_live:
  assumes "length ws = DISK_CACHE_WINDOWS"
  shows "live (disk_cache_drop DISK_CACHE_ALL ws) = {}"
proof -
  have "length (fold (\<lambda>i ws. forget i ws) is ws) = DISK_CACHE_WINDOWS \<and>
      live (fold (\<lambda>i ws. forget i ws) is ws) = live ws - set is" if "set is \<subseteq> {..<DISK_CACHE_WINDOWS}" for "is"
    using that
  proof (induction "is" rule: rev_induct)
    case (snoc i "is")
    then have i: "i < DISK_CACHE_WINDOWS" and s: "set is \<subseteq> {..<DISK_CACHE_WINDOWS}" by auto
    let ?u = "fold (\<lambda>i ws. forget i ws) is ws"
    have u: "length ?u = DISK_CACHE_WINDOWS" "live ?u = live ws - set is" using snoc.IH [OF s] by auto
    have e: "fold (\<lambda>i ws. forget i ws) (is @ [i]) ws = forget i ?u" by simp
    show ?case unfolding e forget_nth(2) [OF u(1) i i] forget_live [OF u(1) i] u(2) by auto
  qed (simp add: assms)
  from this [of "[0..<DISK_CACHE_WINDOWS]"] have "live (fold forget [0..<DISK_CACHE_WINDOWS] ws) = live ws - {0..<DISK_CACHE_WINDOWS}"
    unfolding set_upt using upto_below by blast
  also have "\<dots> = {}" by (auto simp: live_def)
  finally show ?thesis unfolding disk_cache_drop_def by simp
qed

text \<open>A window that does not overlap a range shows none of its sectors.\<close>

lemma overlaps_iff:
  "count \<noteq> 0 \<Longrightarrow> w_count w \<noteq> 0 \<Longrightarrow> overlaps d l count w \<longleftrightarrow> w_drive w = d \<and> (\<exists>x. w_lba w \<le> x \<and> x < w_lba w + w_count w \<and> l \<le> x \<and> x < l + count)"
proof -
  assume "count \<noteq> 0" "w_count w \<noteq> 0"
  moreover have "(if w_lba w \<le> l then l - w_lba w < w_count w else w_lba w - l < count) \<longleftrightarrow>
      (\<exists>x. w_lba w \<le> x \<and> x < w_lba w + w_count w \<and> l \<le> x \<and> x < l + count)"
    if "0 < count" "0 < w_count w"
  proof (cases "w_lba w \<le> l")
    case True
    then show ?thesis using that by (auto intro!: exI [of _ l])
  next
    case False
    then show ?thesis using that by (auto intro!: exI [of _ "w_lba w"])
  qed
  ultimately show ?thesis by (simp add: overlaps_def)
qed

lemma shows_frame:
  assumes "shows_disk disk w" "\<And>x. w_lba w \<le> x \<Longrightarrow> x < w_lba w + w_count w \<Longrightarrow> w_count w \<noteq> 0 \<Longrightarrow> disk' (w_drive w) x = disk (w_drive w) x"
  shows "shows_disk disk' w"
proof -
  have "map (disk' (w_drive w)) [w_lba w..<w_lba w + w_count w] = map (disk (w_drive w)) [w_lba w..<w_lba w + w_count w]"
    if "w_count w \<noteq> 0" using that assms(2) by auto
  then show ?thesis using assms(1) by (simp add: shows_disk_def)
qed

section \<open>Reading through the cache\<close>

lemma scan_result:
  "case scan hit ws is v of Inl i \<Rightarrow> i \<in> set is \<and> hit (ws ! i) | Inr u \<Rightarrow> u = v \<or> u \<in> set is"
proof (induction hit ws "is" v rule: scan.induct)
  case (2 hit ws i "is" v)
  then show ?case by (auto split: sum.splits if_splits)
qed simp

text \<open>The window to replace is free, or all are in use and it is the least recently used one.\<close>

lemma scan_victim:
  assumes "scan hit ws is v = Inr u"
  shows "(w_count (ws ! u) = 0 \<or> (\<forall>k\<in>insert v (set is). w_count (ws ! k) \<noteq> 0 \<and> w_age (ws ! k) \<le> w_age (ws ! u))) \<and>
    (w_count (ws ! v) = 0 \<longrightarrow> w_count (ws ! u) = 0)"
  using assms
proof (induction hit ws "is" v rule: scan.induct)
  case (2 hit ws i "is" v)
  define v' where "v' = (if w_count (ws ! i) = 0 \<or> (w_count (ws ! v) \<noteq> 0 \<and> w_age (ws ! v) < w_age (ws ! i)) then i else v)"
  have "\<not> hit (ws ! i)" "scan hit ws is v' = Inr u" using "2.prems" by (auto simp: v'_def split: if_splits)
  then have "(w_count (ws ! u) = 0 \<or> (\<forall>k\<in>insert v' (set is). w_count (ws ! k) \<noteq> 0 \<and> w_age (ws ! k) \<le> w_age (ws ! u))) \<and>
    (w_count (ws ! v') = 0 \<longrightarrow> w_count (ws ! u) = 0)" using "2.IH" by (simp add: v'_def)
  then show ?case by (auto simp: v'_def split: if_splits intro: order_trans less_imp_le)
qed auto

lemma forget_other_live: "ranks_ok ws \<Longrightarrow> v < DISK_CACHE_WINDOWS \<Longrightarrow> v \<notin> live (forget v ws)"
  by (simp add: ranks_ok_def forget_live)

lemma fill_ok:
  assumes "cache_ok disk ws" "v < DISK_CACHE_WINDOWS" "v \<notin> live ws"
  shows "cache_ok disk (ws[v := fill bs (ws ! v)])" "v \<notin> live (ws[v := fill bs (ws ! v)])"
proof -
  have len: "length ws = DISK_CACHE_WINDOWS" using assms(1) by (simp add: cache_ok_def ranks_ok_def)
  have l: "live (ws[v := fill bs (ws ! v)]) = live ws" using assms(2) len by (auto simp: live_def fill_def nth_list_update)
  then show "v \<notin> live (ws[v := fill bs (ws ! v)])" using assms(3) by simp
  have a: "w_age (ws[v := fill bs (ws ! v)] ! k) = w_age (ws ! k)" for k using assms(2) len by (simp add: fill_def nth_list_update)
  have r: "ranks_ok (ws[v := fill bs (ws ! v)])" using assms(1) by (simp add: cache_ok_def ranks_ok_def l a)
  have "w_count (ws ! v) = 0" using assms(2,3) by (simp add: live_def)
  then have z: "shows_disk disk (fill bs (ws ! v))" by (simp add: shows_disk_def fill_def)
  have "shows_disk disk (ws[v := fill bs (ws ! v)] ! k)" if "k < DISK_CACHE_WINDOWS" for k
    using assms(1) that z len by (cases "k = v") (simp_all add: cache_ok_def)
  with r show "cache_ok disk (ws[v := fill bs (ws ! v)])" by (simp add: cache_ok_def)
qed

definition drives_ok :: "'e drives \<Rightarrow> ('e \<Rightarrow> nat \<Rightarrow> nat \<Rightarrow> sector) \<Rightarrow> bool" where
  "drives_ok D disk \<longleftrightarrow>
     (\<forall>d l c e st bs e'. blk_read D d l c e = (st, bs, e') \<longrightarrow> disk e' = disk e \<and>
        (st = FND_OK \<longrightarrow> bs = map (disk e d) [l..<l + c])) \<and>
     (\<forall>d l bs e st e'. blk_write D d l bs e = (st, e') \<longrightarrow>
        (\<forall>d' x. disk e' d' x \<noteq> disk e d' x \<longrightarrow> d' = d \<and> l \<le> x \<and> x < l + length bs) \<and>
        (st = FND_OK \<longrightarrow> map (disk e' d) [l..<l + length bs] = bs)) \<and>
     (\<forall>d e st info e'. blk_identify D d e = (st, info, e') \<longrightarrow> (\<forall>d'. d' \<noteq> d \<longrightarrow> disk e' d' = disk e d'))"

lemma drives_okD:
  assumes "drives_ok D disk"
  shows "blk_read D d l c e = (st, bs, e') \<Longrightarrow> disk e' = disk e"
    "blk_read D d l c e = (FND_OK, bs, e') \<Longrightarrow> bs = map (disk e d) [l..<l + c]"
    "blk_write D d l bs e = (st, e') \<Longrightarrow> disk e' d' x \<noteq> disk e d' x \<Longrightarrow> d' = d \<and> l \<le> x \<and> x < l + length bs"
    "blk_identify D d e = (st, info, e') \<Longrightarrow> d' \<noteq> d \<Longrightarrow> disk e' d' = disk e d'"
proof -
  have r: "\<forall>d l c e st bs e'. blk_read D d l c e = (st, bs, e') \<longrightarrow> disk e' = disk e \<and> (st = FND_OK \<longrightarrow> bs = map (disk e d) [l..<l + c])"
    using assms unfolding drives_ok_def by (rule conjunct1)
  have w: "\<forall>d l bs e st e'. blk_write D d l bs e = (st, e') \<longrightarrow>
      (\<forall>d' x. disk e' d' x \<noteq> disk e d' x \<longrightarrow> d' = d \<and> l \<le> x \<and> x < l + length bs) \<and>
      (st = FND_OK \<longrightarrow> map (disk e' d) [l..<l + length bs] = bs)"
    using assms unfolding drives_ok_def by (elim conjE)
  have i: "\<forall>d e st info e'. blk_identify D d e = (st, info, e') \<longrightarrow> (\<forall>d'. d' \<noteq> d \<longrightarrow> disk e' d' = disk e d')"
    using assms unfolding drives_ok_def by (elim conjE)
  show "blk_read D d l c e = (st, bs, e') \<Longrightarrow> disk e' = disk e" using r by blast
  show "blk_read D d l c e = (FND_OK, bs, e') \<Longrightarrow> bs = map (disk e d) [l..<l + c]" using r by blast
  show "blk_write D d l bs e = (st, e') \<Longrightarrow> disk e' d' x \<noteq> disk e d' x \<Longrightarrow> d' = d \<and> l \<le> x \<and> x < l + length bs"
    using w by blast
  show "blk_identify D d e = (st, info, e') \<Longrightarrow> d' \<noteq> d \<Longrightarrow> disk e' d' = disk e d'" using i by blast
qed

text \<open>Publishing a window that was just filled.\<close>

lemma publish_ok:
  assumes ok: "cache_ok disk ws" and v: "v < DISK_CACHE_WINDOWS" "v \<notin> live ws" and n: "0 < n"
    and bs: "bs = map (disk d) [l..<l + n]"
  shows "cache_ok disk (touch v (ws[v := (fill bs (ws ! v))\<lparr>w_drive := d, w_lba := l, w_age := DISK_CACHE_WINDOWS, w_count := n\<rparr>]))"
proof -
  define p where "p = (fill bs (ws ! v))\<lparr>w_drive := d, w_lba := l, w_age := DISK_CACHE_WINDOWS, w_count := n\<rparr>"
  let ?u = "ws[v := p]"
  have len: "length ws = DISK_CACHE_WINDOWS" "length ?u = DISK_CACHE_WINDOWS" using ok by (simp_all add: cache_ok_def ranks_ok_def)
  have lv: "live ?u = insert v (live ws)" using v n len by (auto simp: live_def p_def nth_list_update)
  have c: "card (live ?u) = card (live ws) + 1" using v(2) by (simp add: lv)
  have low: "w_age (ws ! k) < card (live ws)" if "k \<in> live ws" for k using ok that by (simp add: cache_ok_def ranks_ok_def)
  have nth: "?u ! k = (if k = v then p else ws ! k)" for k using v(1) len by (simp add: nth_list_update)
  have other: "k \<noteq> v" if "k \<in> live ws" for k using that v(2) by auto
  have "ranks_ok (touch v ?u)"
  proof (rule touch_ranks [OF len(2)])
    show "v \<in> live ?u" by (simp add: lv)
    have "w_age (ws ! k) \<noteq> DISK_CACHE_WINDOWS" if "k \<in> live ws" for k using low [OF that] card_live [of ws] by simp
    moreover have "inj_on (\<lambda>k. w_age (ws ! k)) (live ws)" using ok by (simp add: cache_ok_def ranks_ok_def)
    moreover have "w_age p = DISK_CACHE_WINDOWS" by (simp add: p_def)
    ultimately show "inj_on (\<lambda>k. w_age (?u ! k)) (live ?u)"
      unfolding lv using other by (simp add: inj_on_def nth)
    fix k assume k: "k \<in> live ?u - {v}"
    then have "k \<in> live ws" by (auto simp: lv)
    then show "w_age (?u ! k) < card (live ?u)" "w_age (?u ! k) + 1 < card (live ?u)" using low [of k] k by (simp_all add: c nth)
  qed
  moreover have "shows_disk disk (touch v ?u ! k)" if k: "k < DISK_CACHE_WINDOWS" for k
  proof -
    have "shows_disk disk (?u ! k)"
    proof (cases "k = v")
      case True
      have "shows_disk disk p" by (simp add: shows_disk_def p_def fill_def bs)
      then show ?thesis unfolding nth using True by simp
    next
      case False
      then show ?thesis unfolding nth using ok k by (simp add: cache_ok_def)
    qed
    then show ?thesis unfolding touch_nth(1) [OF len(2) v(1) k] by (auto simp: shows_disk_def)
  qed
  ultimately show ?thesis by (simp add: cache_ok_def p_def)
qed

lemma disk_cache_read_ok:
  assumes D: "drives_ok D disk" and ok: "cache_ok (disk e) ws"
    and r: "disk_cache_read D drive lba count cap ws e = (st, (i, at), ws', e')"
  shows "cache_ok (disk e) ws' \<and> disk e' = disk e \<and>
    (st = FND_OK \<longrightarrow> take count (drop at (w_data (ws' ! i))) = map (disk e drive) [lba..<lba + count])"
proof (cases "count = 0 \<or> DISK_CACHE_SECTORS < count")
  case True
  then show ?thesis using r ok by (auto simp: disk_cache_read_def)
next
  case False
  have len: "length ws = DISK_CACHE_WINDOWS" and ranks: "ranks_ok ws" using ok by (simp_all add: cache_ok_def ranks_ok_def)
  show ?thesis
  proof (cases "scan (holds drive lba count) ws [0..<DISK_CACHE_WINDOWS] 0")
    case (Inl k)
    then have k: "k < DISK_CACHE_WINDOWS" "holds drive lba count (ws ! k)"
      using scan_result [of "[0..<DISK_CACHE_WINDOWS]" "holds drive lba count" ws 0] by simp_all
    then have e: "st = FND_OK" "i = k" "at = lba - w_lba (ws ! k)" "ws' = touch k ws" "e' = e"
      using r Inl False by (auto simp: disk_cache_read_def)
    have lv: "k \<in> live ws" using k by (simp add: live_def holds_def)
    have "ranks_ok (touch k ws)"
      by (rule touch_ranks [OF len lv]) (use ranks lv in \<open>auto simp: ranks_ok_def intro: le_less_trans [OF Suc_leI]\<close>)
    moreover have "shows_disk (disk e) (touch k ws ! m)" if "m < DISK_CACHE_WINDOWS" for m
      using ok that unfolding touch_nth(1) [OF len k(1) that] by (auto simp: cache_ok_def shows_disk_def)
    ultimately have c: "cache_ok (disk e) (touch k ws)" by (simp add: cache_ok_def)
    let ?w = "ws ! k"
    have t: "take (w_count ?w) (w_data ?w) = map (disk e drive) [w_lba ?w..<w_lba ?w + w_count ?w]"
      using ok k by (auto simp: cache_ok_def shows_disk_def holds_def)
    have h: "w_lba ?w \<le> lba" "count \<le> w_count ?w" "lba - w_lba ?w \<le> w_count ?w - count" using k(2) by (simp_all add: holds_def)
    have "take count (drop at (w_data ?w)) = take count (drop at (take (w_count ?w) (w_data ?w)))"
    proof -
      have "count \<le> w_count ?w - at" using h e(3) by simp
      then show ?thesis by (simp add: drop_take min_absorb1)
    qed
    also have "\<dots> = map (disk e drive) [lba..<lba + count]"
      using h unfolding t e(3) by (simp add: drop_map take_map)
    finally show ?thesis using c by (simp add: e touch_nth(1) [OF len k(1) k(1)])
  next
    case (Inr v)
    then have v: "v < DISK_CACHE_WINDOWS"
      using scan_result [of "[0..<DISK_CACHE_WINDOWS]" "holds drive lba count" ws 0] by auto
    define ws1 where "ws1 = forget v ws"
    define n where "n = min (if lba < cap then cap - lba else 0) DISK_CACHE_SECTORS"
    have ok1: "cache_ok (disk e) ws1" unfolding ws1_def by (rule forget_ok [OF ok v])
    have nl: "v \<notin> live ws1" unfolding ws1_def by (rule forget_other_live [OF ranks v])
    have len1: "length ws1 = DISK_CACHE_WINDOWS" using ok1 by (simp add: cache_ok_def ranks_ok_def)
    have direct: "cache_ok (disk e) (us[v := fill bs (us ! v)]) \<and> disk e2 = disk e \<and>
        (st2 = FND_OK \<longrightarrow> take count (drop 0 (w_data (us[v := fill bs (us ! v)] ! v))) = map (disk e drive) [lba..<lba + count])"
      if "cache_ok (disk e) us" "v \<notin> live us" "disk e1 = disk e" "blk_read D drive lba count e1 = (st2, bs, e2)" for us e1 e2 st2 bs
    proof -
      have "length us = DISK_CACHE_WINDOWS" using that(1) by (simp add: cache_ok_def ranks_ok_def)
      moreover have "bs = map (disk e drive) [lba..<lba + count]" if "st2 = FND_OK"
        using drives_okD(2) [OF D, of drive lba count e1 bs e2] that \<open>disk e1 = disk e\<close> \<open>blk_read D drive lba count e1 = (st2, bs, e2)\<close> by simp
      ultimately show ?thesis using fill_ok(1) [OF that(1) v that(2)] drives_okD(1) [OF D that(4)] that(3) v by (simp add: fill_def)
    qed
    show ?thesis
    proof (cases "4 \<le> drive \<or> n < count")
      case True
      obtain st2 bs e2 where b: "blk_read D drive lba count e = (st2, bs, e2)" by (cases "blk_read D drive lba count e") blast
      have "st = st2" "i = v" "at = 0" "ws' = ws1[v := fill bs (ws1 ! v)]" "e' = e2"
        using r Inr False True b by (auto simp: disk_cache_read_def Let_def ws1_def n_def)
      then show ?thesis using direct [OF ok1 nl refl b] by simp
    next
      case cached: False
      obtain st1 bs e1 where b: "blk_read D drive lba n e = (st1, bs, e1)" by (cases "blk_read D drive lba n e") blast
      have e1: "disk e1 = disk e" by (rule drives_okD(1) [OF D b])
      show ?thesis
      proof (cases "st1 = FND_OK")
        case True
        have bs: "bs = map (disk e drive) [lba..<lba + n]" using drives_okD(2) [OF D] b True by simp
        let ?p = "(fill bs (ws1 ! v))\<lparr>w_drive := drive, w_lba := lba, w_age := DISK_CACHE_WINDOWS, w_count := n\<rparr>"
        have x: "st = FND_OK" "i = v" "at = 0" "ws' = touch v (ws1[v := ?p])" "e' = e1"
          using r Inr False cached b True v len1 by (auto simp: disk_cache_read_def Let_def ws1_def [symmetric] n_def [symmetric])
        have "0 < n" using False cached by auto
        from publish_ok [OF ok1 v nl this bs] have c: "cache_ok (disk e) ws'" by (simp add: x(4))
        have "take count bs = map (disk e drive) [lba..<lba + count]" using cached unfolding bs by (simp add: take_map)
        moreover have "w_data (ws' ! v) = bs @ drop (length bs) (w_data (ws1 ! v))"
          unfolding x(4) using touch_nth(1) [of "ws1[v := ?p]" v v] len1 v by (simp add: fill_def)
        moreover have "count \<le> length bs" using cached by (simp add: bs)
        ultimately show ?thesis using c e1 by (simp add: x(1-3,5))
      next
        case st1: False
        define ws2 where "ws2 = disk_cache_drop DISK_CACHE_ALL (ws1[v := fill bs (ws1 ! v)])"
        have "ranks_ok (ws1[v := fill bs (ws1 ! v)])" using fill_ok(1) [OF ok1 v nl] by (simp add: cache_ok_def)
        then have any: "cache_ok disk' ws2" for disk' unfolding ws2_def by (rule drop_ok) simp
        have nl2: "v \<notin> live ws2"
          unfolding ws2_def by (subst drop_all_live) (simp_all add: len1)
        obtain st2 bs2 e2 where b2: "blk_read D drive lba count e1 = (st2, bs2, e2)" by (cases "blk_read D drive lba count e1") blast
        have "st = st2" "i = v" "at = 0" "ws' = ws2[v := fill bs2 (ws2 ! v)]" "e' = e2"
          using r Inr False cached b b2 st1 by (auto simp: disk_cache_read_def Let_def ws1_def [symmetric] n_def [symmetric] ws2_def [symmetric])
        then show ?thesis using direct [OF any nl2 e1 b2] by simp
      qed
    qed
  qed
qed

section \<open>The service\<close>

lemma write_frame:
  assumes D: "drives_ok D disk" and ok: "cache_ok (disk e) ws" and w: "blk_write D d l bs e = (st, e')"
    and c: "length bs \<le> c" "c \<noteq> 0"
  shows "cache_ok (disk e') (disk_cache_write d l c ws)"
proof (rule write_ok)
  show "ranks_ok ws" using ok by (simp add: cache_ok_def)
  fix k assume k: "k < DISK_CACHE_WINDOWS" "\<not> overlaps d l c (ws ! k)"
  show "shows_disk (disk e') (ws ! k)"
  proof (rule shows_frame)
    show "shows_disk (disk e) (ws ! k)" using ok k(1) by (simp add: cache_ok_def)
    fix x assume x: "w_lba (ws ! k) \<le> x" "x < w_lba (ws ! k) + w_count (ws ! k)" "w_count (ws ! k) \<noteq> 0"
    show "disk e' (w_drive (ws ! k)) x = disk e (w_drive (ws ! k)) x"
    proof (rule ccontr)
      assume "\<not> ?thesis"
      from drives_okD(3) [OF D w this] c have "overlaps d l c (ws ! k)" using x unfolding overlaps_iff [OF c(2) x(3)] by auto
      then show False using k(2) by simp
    qed
  qed
qed

lemma write_ranks: "cache_ok disk ws \<Longrightarrow> ranks_ok (disk_cache_write d l c ws)"
  using write_ok [of ws d l c disk] by (simp add: cache_ok_def)

lemma identify_ok:
  assumes D: "drives_ok D disk" and ok: "cache_ok (disk e) (windows s)" and r: "identify D r s e = (rep, s', e')"
  shows "cache_ok (disk e') (windows s')"
proof -
  have w: "windows s' = disk_cache_drop (d_a0 r) (windows s)" using r by (auto simp: identify_def Let_def split: prod.splits)
  have d: "disk e' d = disk e d" if "d \<noteq> d_a0 r" for d
    using r drives_okD(4) [OF D] that by (auto simp: identify_def Let_def split: prod.splits if_splits)
  show ?thesis unfolding w
  proof (rule drop_ok)
    show "ranks_ok (windows s)" using ok by (simp add: cache_ok_def)
    fix k assume "k < DISK_CACHE_WINDOWS" "w_drive (windows s ! k) \<noteq> d_a0 r"
    then show "shows_disk (disk e') (windows s ! k)" using ok d [of "w_drive (windows s ! k)"] by (simp add: cache_ok_def shows_disk_def)
  qed
qed

lemma drop_all_ok: "cache_ok disk ws \<Longrightarrow> cache_ok disk' (disk_cache_drop DISK_CACHE_ALL ws)"
  by (rule drop_ok) (simp_all add: cache_ok_def)

lemma transfer_ok:
  assumes D: "drives_ok D disk" and ok: "cache_ok (disk e) (windows s)" and r: "transfer D r s e = (rep, s', e')"
  shows "cache_ok (disk e') (windows s')"
    "d_op r = DISK_READ \<Longrightarrow> disk e' = disk e \<and>
      (e_status rep = FND_OK \<longrightarrow> e_data rep = map (disk e (d_a0 r)) [d_a1 r..<d_a1 r + d_a2 r])"
proof -
  define count where "count = (if d_op r = DISK_WRITE then d_len r div 512 else d_a2 r)"
  note t = r [unfolded transfer_def Let_def, folded count_def]
  have "cache_ok (disk e') (windows s') \<and> (d_op r = DISK_READ \<longrightarrow> disk e' = disk e \<and>
      (e_status rep = FND_OK \<longrightarrow> e_data rep = map (disk e (d_a0 r)) [d_a1 r..<d_a1 r + d_a2 r]))"
  proof (cases "transfer_bad r count \<or> (d_op r = DISK_READ \<and> d_reply_cap r < count * 512)")
    case True
    then have "e_status rep \<noteq> FND_OK" "windows s' = disk_cache_drop DISK_CACHE_ALL (windows s)" "e' = e" using t by (auto split: if_splits)
    then show ?thesis using drop_all_ok [OF ok] by simp
  next
    case good: False
    show ?thesis
    proof (cases "d_op r = DISK_READ")
      case True
      define cap where "cap = (if d_a0 r < 4 then capacity s ! d_a0 r else 0)"
      obtain st i at ws e1 where c: "disk_cache_read D (d_a0 r) (d_a1 r) count cap (windows s) e = (st, (i, at), ws, e1)"
        by (metis prod.exhaust)
      from disk_cache_read_ok [OF D ok c] have k: "cache_ok (disk e) ws" "disk e1 = disk e"
        "st = FND_OK \<Longrightarrow> take count (drop at (w_data (ws ! i))) = map (disk e (d_a0 r)) [d_a1 r..<d_a1 r + count]" by simp_all
      have n: "count = d_a2 r" using True by (simp add: count_def)
      have o: "e_status rep = st" "e' = e1" "windows s' = (if st \<noteq> FND_OK then disk_cache_drop DISK_CACHE_ALL ws else ws)"
        "e_data rep = (if st = FND_OK then take count (drop at (w_data (ws ! i))) else [])"
        using t good True c unfolding cap_def by auto
      show ?thesis using k drop_all_ok [OF k(1)] by (auto simp: o n)
    next
      case False
      obtain st e1 where w: "blk_write D (d_a0 r) (d_a1 r) (take count (d_sectors r)) e = (st, e1)"
        by (cases "blk_write D (d_a0 r) (d_a1 r) (take count (d_sectors r)) e")
      let ?ws = "disk_cache_write (d_a0 r) (d_a1 r) count (windows s)"
      have o: "e' = e1" "windows s' = (if st \<noteq> FND_OK then disk_cache_drop DISK_CACHE_ALL ?ws else ?ws)"
        using t good False w by auto
      have "count \<noteq> 0" using good by (simp add: transfer_bad_def)
      from write_frame [OF D ok w _ this] have "cache_ok (disk e1) ?ws" by simp
      then show ?thesis using False drop_all_ok by (auto simp: o)
    qed
  qed
  then show "cache_ok (disk e') (windows s')"
    "d_op r = DISK_READ \<Longrightarrow> disk e' = disk e \<and>
      (e_status rep = FND_OK \<longrightarrow> e_data rep = map (disk e (d_a0 r)) [d_a1 r..<d_a1 r + d_a2 r])" by blast+
qed

lemma disk_answer_ok:
  assumes D: "drives_ok D disk" and ok: "cache_ok (disk e) (windows s)" and r: "disk_answer D r s e = (rep, s', e')"
  shows "cache_ok (disk e') (windows s')"
    "d_op r = DISK_READ \<Longrightarrow> disk e' = disk e \<and>
      (e_status rep = FND_OK \<longrightarrow> e_data rep = map (disk e (d_a0 r)) [d_a1 r..<d_a1 r + d_a2 r])"
proof -
  define s1 where "s1 = (if client s = 0 then s\<lparr>client := d_badge r\<rparr> else s)"
  have ok1: "cache_ok (disk e) (windows s1)" using ok by (simp add: s1_def)
  note a = r [unfolded disk_answer_def Let_def, folded s1_def]
  show "cache_ok (disk e') (windows s')"
    using a ok1 identify_ok [OF D ok1] transfer_ok(1) [OF D ok1] by (auto split: if_splits)
  show "disk e' = disk e \<and> (e_status rep = FND_OK \<longrightarrow> e_data rep = map (disk e (d_a0 r)) [d_a1 r..<d_a1 r + d_a2 r])"
    if "d_op r = DISK_READ"
    using a that transfer_ok(2) [OF D ok1 _ that] by (auto split: if_splits)
qed

lemma disk_event_ok:
  assumes "drives_ok D disk" "cache_ok (disk (snd x)) (windows (fst x))"
  shows "cache_ok (disk (snd (disk_event D m x))) (windows (fst (disk_event D m x)))"
proof -
  obtain s e where x: "x = (s, e)" by (cases x)
  show ?thesis
  proof (cases m)
    case (Disk_gone b)
    then show ?thesis using assms by (simp add: x)
  next
    case (Disk_request r)
    obtain rep s' e' where a: "disk_answer D r s e = (rep, s', e')" by (metis prod.exhaust)
    then show ?thesis using disk_answer_ok(1) [OF assms(1) _ a] assms(2) by (simp add: x Disk_request)
  qed
qed

lemma start_nth: "k < DISK_CACHE_WINDOWS \<Longrightarrow> w_count (windows_start ! k) = 0"
  unfolding windows_start_def nth_replicate by (simp add: blank_window_def)

lemma disk_start_ok: "cache_ok disk windows_start"
proof -
  have "live windows_start = {}" using start_nth by (auto simp: live_def)
  moreover have "length windows_start = DISK_CACHE_WINDOWS" unfolding windows_start_def by (rule length_replicate)
  ultimately show ?thesis using start_nth by (simp add: cache_ok_def ranks_ok_def shows_disk_def)
qed

lemma disk_run_ok:
  assumes "drives_ok D disk" "disk_run D ms (disk_start, e0) = (s, e)"
  shows "cache_ok (disk e) (windows s)"
proof -
  have "cache_ok (disk (snd (fold (disk_event D) ms x))) (windows (fst (fold (disk_event D) ms x)))"
    if "cache_ok (disk (snd x)) (windows (fst x))" for x
    using that by (induction ms arbitrary: x) (simp_all add: disk_event_ok [OF assms(1)])
  from this [of "(disk_start, e0)"] show ?thesis using assms(2) by (simp add: disk_run_def disk_start_def disk_start_ok)
qed

text \<open>C28: in every run a read answered with success returns the sectors that are on the drive at that moment.\<close>

theorem disk_reads_current:
  assumes "drives_ok D disk" "disk_run D ms (disk_start, e0) = (s, e)"
    and "disk_answer D r s e = (rep, s', e')" "d_op r = DISK_READ" "e_status rep = FND_OK"
  shows "e_data rep = map (disk e (d_a0 r)) [d_a1 r..<d_a1 r + d_a2 r]"
  using disk_answer_ok(2) [OF assms(1) disk_run_ok [OF assms(1,2)] assms(3,4)] assms(5) by blast

text \<open>C29: in every run the ages of the windows in use are the numbers below their count, each once.\<close>

theorem disk_lru_ranks:
  assumes "drives_ok D disk" "disk_run D ms (disk_start, e0) = (s, e)"
  shows "bij_betw (\<lambda>i. w_age (windows s ! i)) {i. i < 4 \<and> w_count (windows s ! i) \<noteq> 0}
    {..<card {i. i < 4 \<and> w_count (windows s ! i) \<noteq> 0}}"
proof -
  have r: "ranks_ok (windows s)" using disk_run_ok [OF assms] by (simp add: cache_ok_def)
  then have i: "inj_on (\<lambda>i. w_age (windows s ! i)) (live (windows s))" by (simp add: ranks_ok_def)
  have s: "(\<lambda>i. w_age (windows s ! i)) ` live (windows s) \<subseteq> {..<card (live (windows s))}" using r by (auto simp: ranks_ok_def)
  have "(\<lambda>i. w_age (windows s ! i)) ` live (windows s) = {..<card (live (windows s))}"
    by (rule card_subset_eq [OF _ s]) (simp_all add: card_image [OF i])
  then show ?thesis using i by (simp add: bij_betw_def live_def)
qed

section \<open>A concrete drive\<close>

text \<open>One drive of a few one-byte sectors, given as a list; the others do not answer.\<close>

definition list_drive :: "sector list drives" where
  "list_drive = \<lparr>
     blk_read = (\<lambda>d l c e. if d = 0 \<and> l + c \<le> length e then (FND_OK, take c (drop l e), e) else (FND_E_IO, [], e)),
     blk_write = (\<lambda>d l bs e. if d = 0 \<and> l + length bs \<le> length e then (FND_OK, take l e @ bs @ drop (l + length bs) e) else (FND_E_IO, e)),
     blk_identify = (\<lambda>d e. if d = 0 then (FND_OK, [0, 512, of_nat (length e), 1], e) else (FND_E_NOT_FOUND, [0, 0, 0, 0], e))\<rparr>"

definition list_disk :: "sector list \<Rightarrow> nat \<Rightarrow> nat \<Rightarrow> sector" where
  "list_disk e d x = (if d = 0 \<and> x < length e then e ! x else [])"

lemma list_drive_ok: "drives_ok list_drive list_disk"
proof -
  have r: "bs = map (list_disk e d) [l..<l + c] \<and> e' = e"
    if "blk_read list_drive d l c e = (FND_OK, bs, e')" for d l c e bs e'
  proof -
    have "d = 0" "l + c \<le> length e" "bs = take c (drop l e)" "e' = e"
      using that by (auto simp: list_drive_def split: if_splits)
    then show ?thesis by (auto simp: list_disk_def intro: nth_equalityI)
  qed
  have w: "(list_disk e' d' x \<noteq> list_disk e d' x \<longrightarrow> d' = d \<and> l \<le> x \<and> x < l + length bs) \<and>
      (st = FND_OK \<longrightarrow> map (list_disk e' d) [l..<l + length bs] = bs)"
    if "blk_write list_drive d l bs e = (st, e')" for d l bs e st e' d' x
  proof (cases "d = 0 \<and> l + length bs \<le> length e")
    case True
    then have e: "e' = take l e @ bs @ drop (l + length bs) e" using that by (simp add: list_drive_def)
    have "length e' = length e" using True by (simp add: e)
    then show ?thesis using True by (auto simp: list_disk_def e nth_append intro!: nth_equalityI)
  next
    case False
    then show ?thesis using that by (auto simp: list_drive_def split: if_splits)
  qed
  have i: "e' = e" if "blk_identify list_drive d e = (st, info, e')" for d e st info e'
    using that by (auto simp: list_drive_def split: if_splits)
  have n: "e' = e" if "blk_read list_drive d l c e = (st, bs, e')" for d l c e st bs e'
    using that by (auto simp: list_drive_def split: if_splits)
  show ?thesis unfolding drives_ok_def
  proof (intro conjI allI impI)
    fix d l c e st bs e' assume b: "blk_read list_drive d l c e = (st, bs, e')"
    show "list_disk e' = list_disk e" using n [OF b] by simp
    assume "st = FND_OK"
    then show "bs = map (list_disk e d) [l..<l + c]" using r b by blast
  next
    fix d l bs e st e' d' x assume b: "blk_write list_drive d l bs e = (st, e')" and x: "list_disk e' d' x \<noteq> list_disk e d' x"
    from w [OF b, of d' x] x show "d' = d" "l \<le> x" "x < l + length bs" by blast+
  next
    fix d l bs e st e' assume b: "blk_write list_drive d l bs e = (st, e')" "st = FND_OK"
    from w [OF b(1), of d l] b(2) show "map (list_disk e' d) [l..<l + length bs] = bs" by blast
  next
    fix d e st info e' d' assume "blk_identify list_drive d e = (st, info, e')"
    then show "list_disk e' d' = list_disk e d'" using i by blast
  qed
qed

definition disk_call :: "u32 \<Rightarrow> nat \<Rightarrow> nat \<Rightarrow> sector list \<Rightarrow> disk_request" where
  "disk_call op lba count bs = \<lparr>d_op = op, d_flags = 0, d_a0 = 0, d_a1 = lba, d_a2 = count, d_a3 = 0, d_len = 512 * length bs,
     d_total = 512 * length bs, d_sectors = bs, d_badge = 7, d_reply_cap = 4096\<rparr>"

lemma windows_start_eq: "windows_start = [blank_window, blank_window, blank_window, blank_window]"
  by (simp add: windows_start_def numeral_eq_Suc)

lemma blank_fields [simp]: "w_count blank_window = 0" "w_drive blank_window = 0"
  by (simp_all add: blank_window_def)

lemmas disk_eval = disk_run_def disk_start_def windows_start_eq disk_answer_def identify_def transfer_def transfer_bad_def
  disk_cache_read_def disk_cache_write_def disk_cache_drop_def forget_def touch_def overlaps_def holds_def fill_def
  list_drive_def disk_call_def Let_def upt_rec

text \<open>Identify, read two sectors (the whole drive is fetched), write the second of them, read both again.\<close>

abbreviation disk_sample :: "disk_msg list" where
  "disk_sample \<equiv> [Disk_request (disk_call DISK_IDENTIFY 0 0 []), Disk_request (disk_call DISK_READ 1 2 []),
     Disk_request (disk_call DISK_WRITE 2 0 [[99]])]"

lemma disk_sample_run:
  "\<exists>s rep s'. disk_run list_drive disk_sample (disk_start, [[0], [1], [2], [3]]) = (s, [[0], [1], [99], [3]]) \<and>
    disk_answer list_drive (disk_call DISK_READ 1 2 []) s [[0], [1], [99], [3]] = (rep, s', [[0], [1], [99], [3]]) \<and> e_status rep = FND_OK"
  by (simp add: disk_eval)

theorem disk_reads_current_witness:
  "\<exists>s rep s'. disk_run list_drive disk_sample (disk_start, [[0], [1], [2], [3]]) = (s, [[0], [1], [99], [3]]) \<and>
    disk_answer list_drive (disk_call DISK_READ 1 2 []) s [[0], [1], [99], [3]] = (rep, s', [[0], [1], [99], [3]]) \<and>
    e_data rep = [[1], [99]]"
proof -
  from disk_sample_run obtain s rep s' where run: "disk_run list_drive disk_sample (disk_start, [[0], [1], [2], [3]]) = (s, [[0], [1], [99], [3]])"
    and a: "disk_answer list_drive (disk_call DISK_READ 1 2 []) s [[0], [1], [99], [3]] = (rep, s', [[0], [1], [99], [3]])"
    and st: "e_status rep = FND_OK" by blast
  have "e_data rep = [[1], [99]]"
    using disk_reads_current [OF list_drive_ok run a _ st] by (simp add: disk_call_def list_disk_def upt_rec)
  with run a show ?thesis by blast
qed

theorem disk_lru_ranks_witness:
  "\<exists>s. disk_run list_drive disk_sample (disk_start, [[0], [1], [2], [3]]) = (s, [[0], [1], [99], [3]]) \<and>
    bij_betw (\<lambda>i. w_age (windows s ! i)) {i. i < 4 \<and> w_count (windows s ! i) \<noteq> 0} {..<card {i. i < 4 \<and> w_count (windows s ! i) \<noteq> 0}}"
  using disk_sample_run disk_lru_ranks [OF list_drive_ok] by blast

end
