(* ===== verification/Crypt.thy ===== *)
theory Crypt
  imports Conde
begin

text \<open>
  ChaCha20 and Poly1305 (\<open>foundation/lib/crypt/crypt.c\<close>). Buffers are byte lists; a pointer that may be
  null is an option. Sizes are below \<open>2 ^ 32\<close>, so that they are \<open>nat\<close>; the words of the cipher, the limbs
  and their products are 32 and 64-bit words. \<open>Poly1305\<close> has the arithmetic of the authenticator.
\<close>

section \<open>Word access\<close>

definition load32 :: "u8 list \<Rightarrow> nat \<Rightarrow> u32" where
  "load32 p i = ucast (p ! i) OR push_bit 8 (ucast (p ! (i + 1))) OR push_bit 16 (ucast (p ! (i + 2)))
     OR push_bit 24 (ucast (p ! (i + 3)))"

definition store32 :: "u32 \<Rightarrow> u8 list" where
  "store32 v = [ucast v, ucast (drop_bit 8 v), ucast (drop_bit 16 v), ucast (drop_bit 24 v)]"

definition rotl32 :: "u32 \<Rightarrow> nat \<Rightarrow> u32" where
  "rotl32 v n = push_bit n v OR drop_bit (32 - n) v"

section \<open>ChaCha20\<close>

definition QR :: "nat \<Rightarrow> nat \<Rightarrow> nat \<Rightarrow> nat \<Rightarrow> u32 list \<Rightarrow> u32 list" where
  "QR a b c d x =
     (let x = x[a := x ! a + x ! b]; x = x[d := x ! d XOR x ! a]; x = x[d := rotl32 (x ! d) 16];
          x = x[c := x ! c + x ! d]; x = x[b := x ! b XOR x ! c]; x = x[b := rotl32 (x ! b) 12];
          x = x[a := x ! a + x ! b]; x = x[d := x ! d XOR x ! a]; x = x[d := rotl32 (x ! d) 8];
          x = x[c := x ! c + x ! d]; x = x[b := x ! b XOR x ! c]; x = x[b := rotl32 (x ! b) 7]
      in x)"

definition double_round :: "u32 list \<Rightarrow> u32 list" where
  "double_round x =
     QR 3 4 9 14 (QR 2 7 8 13 (QR 1 6 11 12 (QR 0 5 10 15
       (QR 3 7 11 15 (QR 2 6 10 14 (QR 1 5 9 13 (QR 0 4 8 12 x)))))))"

definition sigma :: "u32 list" where
  "sigma = [0x61707865, 0x3320646e, 0x79622d32, 0x6b206574]"

definition chacha20_initial :: "u8 list \<Rightarrow> u8 list \<Rightarrow> u32 \<Rightarrow> u32 list" where
  "chacha20_initial key nonce counter =
     sigma @ map (\<lambda>i. load32 key (4 * i)) [0..<8] @ [counter, load32 nonce 0, load32 nonce 4, load32 nonce 8]"

definition chacha20_block :: "u8 list \<Rightarrow> u8 list \<Rightarrow> u32 \<Rightarrow> u8 list" where
  "chacha20_block key nonce counter =
     (let initial = chacha20_initial key nonce counter; x = (double_round ^^ 10) initial
      in concat (map (\<lambda>i. store32 (x ! i + initial ! i)) [0..<16]))"

text \<open>The loop: \<open>out\<close> is what has been stored at \<open>dst\<close>, \<open>length out\<close> the variable \<open>offset\<close>.\<close>

function chacha20_loop :: "u8 list \<Rightarrow> u8 list \<Rightarrow> u8 list \<Rightarrow> u32 \<Rightarrow> u8 list \<Rightarrow> u8 list" where
  "chacha20_loop key nonce src counter out =
     (if length out < length src then
        let offset = length out; n = min (length src - offset) 64;
            block = chacha20_block key nonce counter
        in chacha20_loop key nonce src (counter + 1)
             (out @ map (\<lambda>i. src ! (offset + i) XOR block ! i) [0..<n])
      else out)"
  by pat_completeness auto
termination by (relation "measure (\<lambda>(_, _, src, _, out). length src - length out)") (auto simp: Let_def)

declare chacha20_loop.simps [simp del]

definition null_bytes :: "u8 list option \<Rightarrow> u8 list" where
  "null_bytes p = (case p of None \<Rightarrow> [] | Some s \<Rightarrow> s)"

text \<open>\<open>src\<close> has \<open>src_size\<close> bytes, \<open>key\<close> 32 and \<open>nonce\<close> 12 where they are not null; \<open>capacity\<close> is \<open>None\<close> when
  \<open>dst_size\<close> is null.\<close>

definition chacha20_xor ::
  "bool \<Rightarrow> nat option \<Rightarrow> u8 list option \<Rightarrow> nat \<Rightarrow> u8 list option \<Rightarrow> u8 list option \<Rightarrow> u32 \<Rightarrow> conde_result" where
  "chacha20_xor dst_null capacity src src_size key nonce counter =
     (case capacity of None \<Rightarrow> conde_fail CONDE_PARAMETER []
      | Some capacity \<Rightarrow>
          if (src_size \<noteq> 0 \<and> src = None) \<or> key = None \<or> nonce = None \<or> (capacity \<noteq> 0 \<and> dst_null)
          then conde_fail CONDE_PARAMETER []
          else if capacity < src_size then conde_fail CONDE_OUTPUT_EOF []
          else if src_size \<noteq> 0 \<and> (src_size - 1) div 64 > unat (0xFFFFFFFF - counter)
          then conde_fail CONDE_PARAMETER []
          else conde_done (chacha20_loop (null_bytes key) (null_bytes nonce) (take src_size (null_bytes src)) counter []))"

definition cpt_chacha20_encrypt where "cpt_chacha20_encrypt = chacha20_xor"
definition cpt_chacha20_decrypt where "cpt_chacha20_decrypt = chacha20_xor"

definition cpt_chacha20_encrypt_bound :: "nat \<Rightarrow> nat" where
  "cpt_chacha20_encrypt_bound src_size = src_size"

section \<open>Poly1305\<close>

type_synonym limbs = "u32 \<times> u32 \<times> u32 \<times> u32 \<times> u32"
type_synonym wide_limbs = "u64 \<times> u64 \<times> u64 \<times> u64 \<times> u64"

definition poly_key :: "u8 list \<Rightarrow> limbs" where
  "poly_key key =
     (load32 key 0 AND 0x3FFFFFF, drop_bit 2 (load32 key 3) AND 0x3FFFF03, drop_bit 4 (load32 key 6) AND 0x3FFC0FF,
      drop_bit 6 (load32 key 9) AND 0x3F03FFF, drop_bit 8 (load32 key 12) AND 0x00FFFFF)"

text \<open>One 16-byte block, the last one padded with a 1 and zeroes.\<close>

definition poly_block :: "u8 list \<Rightarrow> u8 list" where
  "poly_block m = (let n = length m in if n < 16 then m @ 1 # replicate (15 - n) 0 else m)"

definition poly_add :: "u8 list \<Rightarrow> u32 \<Rightarrow> limbs \<Rightarrow> limbs" where
  "poly_add block hibit h = (case h of (h0, h1, h2, h3, h4) \<Rightarrow>
     (h0 + (load32 block 0 AND 0x3FFFFFF), h1 + (drop_bit 2 (load32 block 3) AND 0x3FFFFFF),
      h2 + (drop_bit 4 (load32 block 6) AND 0x3FFFFFF), h3 + (drop_bit 6 (load32 block 9) AND 0x3FFFFFF),
      h4 + (drop_bit 8 (load32 block 12) OR hibit)))"

definition mul64 :: "u32 \<Rightarrow> u32 \<Rightarrow> u64" where
  "mul64 a b = ucast a * ucast b"

definition poly_mul :: "limbs \<Rightarrow> limbs \<Rightarrow> wide_limbs" where
  "poly_mul h r = (case h of (h0, h1, h2, h3, h4) \<Rightarrow> case r of (r0, r1, r2, r3, r4) \<Rightarrow>
     let s1 = r1 * 5; s2 = r2 * 5; s3 = r3 * 5; s4 = r4 * 5 in
     (mul64 h0 r0 + mul64 h1 s4 + mul64 h2 s3 + mul64 h3 s2 + mul64 h4 s1,
      mul64 h0 r1 + mul64 h1 r0 + mul64 h2 s4 + mul64 h3 s3 + mul64 h4 s2,
      mul64 h0 r2 + mul64 h1 r1 + mul64 h2 r0 + mul64 h3 s4 + mul64 h4 s3,
      mul64 h0 r3 + mul64 h1 r2 + mul64 h2 r1 + mul64 h3 r0 + mul64 h4 s4,
      mul64 h0 r4 + mul64 h1 r3 + mul64 h2 r2 + mul64 h3 r1 + mul64 h4 r0))"

definition poly_carry :: "wide_limbs \<Rightarrow> limbs" where
  "poly_carry d = (case d of (d0, d1, d2, d3, d4) \<Rightarrow>
     let c = ucast (drop_bit 26 d0) :: u32; h0 = ucast d0 AND 0x3FFFFFF; d1 = d1 + ucast c;
         c = ucast (drop_bit 26 d1) :: u32; h1 = ucast d1 AND 0x3FFFFFF; d2 = d2 + ucast c;
         c = ucast (drop_bit 26 d2) :: u32; h2 = ucast d2 AND 0x3FFFFFF; d3 = d3 + ucast c;
         c = ucast (drop_bit 26 d3) :: u32; h3 = ucast d3 AND 0x3FFFFFF; d4 = d4 + ucast c;
         c = ucast (drop_bit 26 d4) :: u32; h4 = ucast d4 AND 0x3FFFFFF; h0 = h0 + c * 5;
         c = drop_bit 26 h0; h0 = h0 AND 0x3FFFFFF; h1 = h1 + c
     in (h0, h1, h2, h3, h4))"

function poly_blocks :: "limbs \<Rightarrow> u8 list \<Rightarrow> limbs \<Rightarrow> limbs" where
  "poly_blocks r m h =
     (if m = [] then h else
      let n = min (length m) 16; block = poly_block (take n m); hibit = (if n < 16 then 0 else push_bit 24 1)
      in poly_blocks r (drop n m) (poly_carry (poly_mul (poly_add block hibit h) r)))"
  by pat_completeness auto
termination by (relation "measure (\<lambda>(_, m, _). length m)") (auto simp: Let_def)

declare poly_blocks.simps [simp del]

definition poly_carry_last :: "limbs \<Rightarrow> limbs" where
  "poly_carry_last h = (case h of (h0, h1, h2, h3, h4) \<Rightarrow>
     let c = drop_bit 26 h1; h1 = h1 AND 0x3FFFFFF; h2 = h2 + c;
         c = drop_bit 26 h2; h2 = h2 AND 0x3FFFFFF; h3 = h3 + c;
         c = drop_bit 26 h3; h3 = h3 AND 0x3FFFFFF; h4 = h4 + c;
         c = drop_bit 26 h4; h4 = h4 AND 0x3FFFFFF; h0 = h0 + c * 5;
         c = drop_bit 26 h0; h0 = h0 AND 0x3FFFFFF; h1 = h1 + c
     in (h0, h1, h2, h3, h4))"

text \<open>The value below the modulus, chosen without a branch.\<close>

definition poly_reduce :: "limbs \<Rightarrow> limbs" where
  "poly_reduce h = (case h of (h0, h1, h2, h3, h4) \<Rightarrow>
     let g0 = h0 + 5; c = drop_bit 26 g0; g0 = g0 AND 0x3FFFFFF;
         g1 = h1 + c; c = drop_bit 26 g1; g1 = g1 AND 0x3FFFFFF;
         g2 = h2 + c; c = drop_bit 26 g2; g2 = g2 AND 0x3FFFFFF;
         g3 = h3 + c; c = drop_bit 26 g3; g3 = g3 AND 0x3FFFFFF;
         g4 = h4 + c - push_bit 26 1;
         msk = drop_bit 31 g4 - 1; inverse = NOT msk
     in ((h0 AND inverse) OR (g0 AND msk), (h1 AND inverse) OR (g1 AND msk), (h2 AND inverse) OR (g2 AND msk),
         (h3 AND inverse) OR (g3 AND msk), (h4 AND inverse) OR (g4 AND msk)))"

definition poly_tag :: "limbs \<Rightarrow> u8 list \<Rightarrow> u8 list" where
  "poly_tag h key = (case h of (h0, h1, h2, h3, h4) \<Rightarrow>
     let low = 0xFFFFFFFF :: u64;
         f0 = ((ucast h0 OR push_bit 26 (ucast h1)) AND low) + ucast (load32 key 16);
         f1 = ((ucast (drop_bit 6 h1) OR push_bit 20 (ucast h2)) AND low) + ucast (load32 key 20) + drop_bit 32 f0;
         f2 = ((ucast (drop_bit 12 h2) OR push_bit 14 (ucast h3)) AND low) + ucast (load32 key 24) + drop_bit 32 f1;
         f3 = ((ucast (drop_bit 18 h3) OR push_bit 8 (ucast h4)) AND low) + ucast (load32 key 28) + drop_bit 32 f2
     in store32 (ucast f0) @ store32 (ucast f1) @ store32 (ucast f2) @ store32 (ucast f3))"

definition poly1305_auth :: "u8 list \<Rightarrow> u8 list \<Rightarrow> u8 list" where
  "poly1305_auth m key =
     poly_tag (poly_reduce (poly_carry_last (poly_blocks (poly_key key) m (0, 0, 0, 0, 0)))) key"

definition cpt_poly1305_auth ::
  "bool \<Rightarrow> nat option \<Rightarrow> u8 list option \<Rightarrow> nat \<Rightarrow> u8 list option \<Rightarrow> conde_result" where
  "cpt_poly1305_auth dst_null capacity src src_size key =
     (case capacity of None \<Rightarrow> conde_fail CONDE_PARAMETER []
      | Some capacity \<Rightarrow>
          if key = None \<or> (src_size \<noteq> 0 \<and> src = None) \<or> (capacity \<noteq> 0 \<and> dst_null)
          then conde_fail CONDE_PARAMETER []
          else if capacity < 16 then conde_fail CONDE_OUTPUT_EOF []
          else conde_done (poly1305_auth (take src_size (null_bytes src)) (null_bytes key)))"

definition cpt_poly1305_verify :: "u8 list option \<Rightarrow> u8 list option \<Rightarrow> nat \<Rightarrow> u8 list option \<Rightarrow> int" where
  "cpt_poly1305_verify tag src src_size key =
     (if tag = None \<or> key = None \<or> (src_size \<noteq> 0 \<and> src = None) then CONDE_PARAMETER
      else let expected = poly1305_auth (take src_size (null_bytes src)) (null_bytes key);
               diff = fold (\<lambda>i d. d OR ucast (expected ! i XOR null_bytes tag ! i)) [0..<16] (0 :: u32)
           in if diff = 0 then CONDE_OK else CONDE_DATA)"

end
