(* ===== verification/Crypt_Facts.thy ===== *)
theory Crypt_Facts
  imports Crypt
begin

text \<open>
  The stream cipher of \<open>foundation/lib/crypt/crypt.c\<close>: the key stream that is used, without ever
  repeating a counter, and the round trip.
\<close>

section \<open>The cipher\<close>

lemma chacha20_loop_stream:
  assumes "length out \<le> length src" "64 dvd length out \<or> length out = length src"
  shows "chacha20_loop key nonce src (counter + of_nat (length out div 64)) out =
    out @ map (\<lambda>i. src ! i XOR chacha20_block key nonce (counter + of_nat (i div 64)) ! (i mod 64)) [length out..<length src]"
  using assms
proof (induction "length src - length out" arbitrary: out rule: less_induct)
  case less
  show ?case
  proof (cases "length out < length src")
    case False
    then show ?thesis using less.prems by (subst chacha20_loop.simps) simp
  next
    case True
    let ?o = "length out"
    let ?n = "min (length src - ?o) 64"
    let ?c = "counter + of_nat (?o div 64)"
    define out' where "out' = out @ map (\<lambda>i. src ! (?o + i) XOR chacha20_block key nonce ?c ! i) [0..<?n]"
    obtain q where q: "?o = 64 * q" using less.prems(2) True by (auto elim: dvdE)
    have l: "length out' = ?o + ?n" by (simp add: out'_def)
    have step: "chacha20_loop key nonce src ?c out = chacha20_loop key nonce src (?c + 1) out'"
      using True by (subst chacha20_loop.simps) (simp only: if_True Let_def out'_def)
    have app: "map (\<lambda>i. src ! (?o + i) XOR chacha20_block key nonce ?c ! i) [0..<?n] =
        map (\<lambda>i. src ! i XOR chacha20_block key nonce (counter + of_nat (i div 64)) ! (i mod 64)) [?o..<?o + ?n]"
      by (rule nth_equalityI) (auto simp: q div_add1_eq mod_add_eq)
    show ?thesis
    proof (cases "length src - ?o \<le> 64")
      case True': True
      then have n: "?o + ?n = length src" using True by simp
      have "chacha20_loop key nonce src (?c + 1) out' = out'"
        by (subst chacha20_loop.simps) (use l n in simp)
      then show ?thesis unfolding step using app n by (simp add: out'_def)
    next
      case False
      then have n: "?n = 64" by simp
      have "length out' = 64 * q + 64" using l n q by simp
      then have c: "?c + 1 = counter + of_nat (length out' div 64)" by (simp add: q)
      have "chacha20_loop key nonce src (counter + of_nat (length out' div 64)) out' =
        out' @ map (\<lambda>i. src ! i XOR chacha20_block key nonce (counter + of_nat (i div 64)) ! (i mod 64)) [length out'..<length src]"
        by (rule less.hyps) (use True False l n q in auto)
      moreover have "[?o..<length src] = [?o..<?o + 64] @ [?o + 64..<length src]"
        using False upt_add_eq_append [of ?o "?o + 64" "length src - ?o - 64"] by simp
      ultimately show ?thesis unfolding step c unfolding l n using app
        by (simp add: out'_def n)
    qed
  qed
qed

lemma chacha20_xor_ok:
  assumes "length src = n" "n \<le> capacity" "n \<noteq> 0 \<longrightarrow> (n - 1) div 64 \<le> unat (0xFFFFFFFF - counter)" "\<not> dst_null"
  shows "chacha20_xor dst_null (Some capacity) (Some src) n (Some key) (Some nonce) counter =
    conde_done (map (\<lambda>i. src ! i XOR chacha20_block key nonce (counter + of_nat (i div 64)) ! (i mod 64)) [0..<n])"
  using assms chacha20_loop_stream [of "[]" src key nonce counter]
  by (auto simp: chacha20_xor_def null_bytes_def)

lemma chacha20_xor_cases:
  "chacha20_xor dst_null capacity src n key nonce counter = conde_fail CONDE_PARAMETER [] \<or>
   chacha20_xor dst_null capacity src n key nonce counter = conde_fail CONDE_OUTPUT_EOF [] \<or>
   (\<exists>c k v. capacity = Some c \<and> key = Some k \<and> nonce = Some v \<and> (n \<noteq> 0 \<longrightarrow> src \<noteq> None) \<and> n \<le> c \<and> (c \<noteq> 0 \<longrightarrow> \<not> dst_null) \<and>
      (n \<noteq> 0 \<longrightarrow> (n - 1) div 64 \<le> unat (0xFFFFFFFF - counter)) \<and>
      chacha20_xor dst_null capacity src n key nonce counter = conde_done (chacha20_loop k v (take n (null_bytes src)) counter []))"
  by (auto simp: chacha20_xor_def null_bytes_def not_less split: option.split)



text \<open>C8: Decrypting what was encrypted, with the same key, nonce and counter, gives the source back.\<close>

theorem chacha20_roundtrip:
  assumes "length src = n" "status (cpt_chacha20_encrypt False (Some capacity) (Some src) n (Some key) (Some nonce) counter) = CONDE_OK"
  defines "c \<equiv> dst (cpt_chacha20_encrypt False (Some capacity) (Some src) n (Some key) (Some nonce) counter)"
  shows "cpt_chacha20_decrypt False (Some capacity) (Some c) n (Some key) (Some nonce) counter = conde_done src"
proof -
  have b: "n \<le> capacity" "n \<noteq> 0 \<longrightarrow> (n - 1) div 64 \<le> unat (0xFFFFFFFF - counter)"
    using chacha20_xor_cases [of False "Some capacity" "Some src" n "Some key" "Some nonce" counter] assms(2)
    by (auto simp: cpt_chacha20_encrypt_def)
  let ?k = "\<lambda>i. chacha20_block key nonce (counter + of_nat (i div 64)) ! (i mod 64)"
  have c: "c = map (\<lambda>i. src ! i XOR ?k i) [0..<n]"
    unfolding c_def cpt_chacha20_encrypt_def using chacha20_xor_ok [OF assms(1) b, of False key nonce] by simp
  have "chacha20_xor False (Some capacity) (Some c) n (Some key) (Some nonce) counter =
      conde_done (map (\<lambda>i. c ! i XOR ?k i) [0..<n])"
    by (rule chacha20_xor_ok) (use b in \<open>simp_all add: c\<close>)
  also have "map (\<lambda>i. c ! i XOR ?k i) [0..<n] = src"
    using assms(1) by (intro nth_equalityI) (simp_all add: c xor.assoc)
  finally show ?thesis by (simp add: cpt_chacha20_decrypt_def)
qed


theorem chacha20_roundtrip_witness:
  "cpt_chacha20_decrypt False (Some 5)
     (Some (dst (cpt_chacha20_encrypt False (Some 5) (Some [1, 2, 3]) 3 (Some (replicate 32 0)) (Some (replicate 12 0)) 7))) 3
     (Some (replicate 32 0)) (Some (replicate 12 0)) 7 = conde_done [1, 2, 3]"
  by (rule chacha20_roundtrip) (simp_all add: cpt_chacha20_encrypt_def chacha20_xor_def)

end
