(* ===== verification/Poly1305.thy ===== *)
theory Poly1305
  imports Crypt
begin

text \<open>
  The arithmetic of the Poly1305 authenticator of \<open>foundation/lib/crypt/crypt.c\<close>: five limbs of 26 bits
  with 32-bit words and 64-bit products, against the definition of RFC 8439 on numbers, an
  evaluation of a polynomial modulo \<open>2 ^ 130 - 5\<close>.
\<close>

section \<open>Numbers from bytes\<close>

fun le :: "u8 list \<Rightarrow> nat" where
  "le [] = 0"
| "le (b # bs) = unat b + 256 * le bs"

lemma le_append: "le (xs @ ys) = le xs + 2 ^ (8 * length xs) * le ys"
  by (induction xs) (simp_all add: power_add algebra_simps)

lemma le_less: "le xs < 2 ^ (8 * length xs)"
proof (induction xs)
  case (Cons b bs)
  have "unat b < 256" using unsigned_less [of b] by simp
  then show ?case using Cons by (simp add: power_add)
qed simp

lemma le_zeros [simp]: "le (replicate n 0) = 0"
  by (induction n) simp_all

lemma le_drop: "k \<le> length xs \<Longrightarrow> le (drop k xs) = le xs div 2 ^ (8 * k)"
  using le_append [of "take k xs" "drop k xs"] le_less [of "take k xs"] by (simp add: min_absorb2)

lemma le_take: "k \<le> length xs \<Longrightarrow> le (take k xs) = le xs mod 2 ^ (8 * k)"
  using le_append [of "take k xs" "drop k xs"] le_less [of "take k xs"] by (simp add: min_absorb2)

lemma load32_le:
  assumes "i + 4 \<le> length p"
  shows "unat (load32 p i) = take_bit 32 (drop_bit (8 * i) (le p))"
proof -
  have four: "take 4 (drop i p) = [p ! i, p ! (i + 1), p ! (i + 2), p ! (i + 3)]"
    using assms take_drop_map_nth [of i 4 p] by (simp add: numeral_eq_Suc upt_rec)
  let ?n = "le (take 4 (drop i p))"
  have "load32 p i = of_nat ?n"
  proof -
    have "load32 p i = ucast (p ! i) + push_bit 8 (ucast (p ! (i + 1))) + push_bit 16 (ucast (p ! (i + 2)))
     + push_bit 24 (ucast (p ! (i + 3)))"
      unfolding load32_def
      by (subst disjunctive_add, force simp: bit_simps dest: bit_imp_le_length)+ (simp add: or.assoc)
    also have "\<dots> = of_nat ?n"
      unfolding four by (simp add: push_bit_eq_mult algebra_simps)
    finally show ?thesis .
  qed
  moreover have "?n < 2 ^ 32" using le_less [of "take 4 (drop i p)"] assms by (simp add: min_absorb2)
  ultimately have "unat (load32 p i) = ?n" by (simp add: unat_of_nat)
  also have "\<dots> = (le p div 2 ^ (8 * i)) mod 2 ^ 32"
    using assms by (simp add: le_take le_drop)
  finally show ?thesis by (simp add: take_bit_eq_mod drop_bit_eq_div)
qed

section \<open>Words as numbers\<close>

lemma unat_and26: "unat (x AND 0x3FFFFFF :: u32) = unat x mod 67108864"
proof -
  have "x AND 0x3FFFFFF = take_bit 26 x" by (simp add: take_bit_eq_mask mask_eq_exp_minus_1)
  then have "unat (x AND 0x3FFFFFF) = take_bit 26 (unat x)" by (simp only: unsigned_take_bit_eq)
  then show ?thesis by (simp add: take_bit_eq_mod)
qed

lemma unat_ucast_and26: "unat (ucast (x :: u64) AND 0x3FFFFFF :: u32) = unat x mod 67108864"
  unfolding unat_and26 by (simp add: unsigned_ucast_eq take_bit_eq_mod mod_mod_cancel)

lemma unat_shift: "unat (drop_bit n x) = unat x div 2 ^ n" for x :: "'a::len word"
  by (subst unat_drop_bit_eq) (rule drop_bit_eq_div)

lemma unat_plus: "unat x + unat y < 2 ^ LENGTH('a) \<Longrightarrow> unat (x + y) = unat x + unat y" for x y :: "'a::len word"
  by (simp add: unat_add_lem)

lemma unat_widen: "unat (ucast (x :: u32) :: u64) = unat x"
proof -
  have "unat x < 2 ^ 32" using unsigned_less [of x] by simp
  then have "unat x < 2 ^ 64" by simp
  then show ?thesis by (simp add: unsigned_ucast_eq take_bit_nat_eq_self)
qed

lemma unat_mul64: "unat (mul64 a b) = unat a * unat b"
proof -
  have "unat a < 2 ^ 32" "unat b < 2 ^ 32" using unsigned_less [of a] unsigned_less [of b] by simp_all
  then have "unat a * unat b < 2 ^ 32 * 2 ^ 32" by (intro mult_strict_mono) simp_all
  then show ?thesis unfolding mul64_def
    by (subst unat_mult_lem [THEN iffD1]) (simp_all add: unat_widen)
qed

lemma unat_times5: "unat x < 67108864 \<Longrightarrow> unat (x * 5 :: u32) = 5 * unat x"
  by (subst unat_mult_lem [THEN iffD1]) simp_all

section \<open>The value of the limbs\<close>

abbreviation P1305 :: nat where "P1305 \<equiv> 2 ^ 130 - 5"

definition five :: "nat \<times> nat \<times> nat \<times> nat \<times> nat \<Rightarrow> nat" where
  "five h = (case h of (h0, h1, h2, h3, h4) \<Rightarrow>
     h0 + 67108864 * h1 + 4503599627370496 * h2 + 302231454903657293676544 * h3 + 20282409603651670423947251286016 * h4)"

definition nats :: "('a::len word) \<times> 'a word \<times> 'a word \<times> 'a word \<times> 'a word \<Rightarrow> nat \<times> nat \<times> nat \<times> nat \<times> nat" where
  "nats h = (case h of (h0, h1, h2, h3, h4) \<Rightarrow> (unat h0, unat h1, unat h2, unat h3, unat h4))"

text \<open>What the limbs stay below between two blocks: \<open>h1\<close> may have a carry.\<close>

definition below :: "nat \<Rightarrow> nat \<Rightarrow> limbs \<Rightarrow> bool" where
  "below a b h \<longleftrightarrow> (case h of (h0, h1, h2, h3, h4) \<Rightarrow>
     unat h0 < a \<and> unat h1 < b \<and> unat h2 < a \<and> unat h3 < a \<and> unat h4 < a)"

lemma sum5:
  fixes a b c d e :: u64
  assumes "unat a < 288230376151711744" "unat b < 288230376151711744" "unat c < 288230376151711744"
    "unat d < 288230376151711744" "unat e < 288230376151711744"
  shows "unat (a + b + c + d + e) = unat a + unat b + unat c + unat d + unat e"
  using assms by (simp add: unat_plus)

lemma mul_bound: "(a::nat) < A \<Longrightarrow> b < B \<Longrightarrow> a * b \<le> A * B"
  by (intro mult_le_mono) simp_all

lemma schoolbook:
  fixes h0 h1 h2 h3 h4 r0 r1 r2 r3 r4 :: nat
  shows "five (h0, h1, h2, h3, h4) * five (r0, r1, r2, r3, r4) =
    five (h0 * r0 + h1 * (5 * r4) + h2 * (5 * r3) + h3 * (5 * r2) + h4 * (5 * r1),
          h0 * r1 + h1 * r0 + h2 * (5 * r4) + h3 * (5 * r3) + h4 * (5 * r2),
          h0 * r2 + h1 * r1 + h2 * r0 + h3 * (5 * r4) + h4 * (5 * r3),
          h0 * r3 + h1 * r2 + h2 * r1 + h3 * r0 + h4 * (5 * r4),
          h0 * r4 + h1 * r3 + h2 * r2 + h3 * r1 + h4 * r0)
    + P1305 * five (h1 * r4 + h2 * r3 + h3 * r2 + h4 * r1, h2 * r4 + h3 * r3 + h4 * r2, h3 * r4 + h4 * r3, h4 * r4, 0)"
  by (simp add: five_def algebra_simps)

lemma poly_mul_nats:
  assumes h: "below 134217792 134217792 (h0, h1, h2, h3, h4)" and r: "below 67108864 67108864 (r0, r1, r2, r3, r4)"
  shows "nats (poly_mul (h0, h1, h2, h3, h4) (r0, r1, r2, r3, r4)) =
    (unat h0 * unat r0 + unat h1 * (5 * unat r4) + unat h2 * (5 * unat r3) + unat h3 * (5 * unat r2) + unat h4 * (5 * unat r1),
     unat h0 * unat r1 + unat h1 * unat r0 + unat h2 * (5 * unat r4) + unat h3 * (5 * unat r3) + unat h4 * (5 * unat r2),
     unat h0 * unat r2 + unat h1 * unat r1 + unat h2 * unat r0 + unat h3 * (5 * unat r4) + unat h4 * (5 * unat r3),
     unat h0 * unat r3 + unat h1 * unat r2 + unat h2 * unat r1 + unat h3 * unat r0 + unat h4 * (5 * unat r4),
     unat h0 * unat r4 + unat h1 * unat r3 + unat h2 * unat r2 + unat h3 * unat r1 + unat h4 * unat r0)"
proof -
  have s: "unat (r1 * 5) = 5 * unat r1" "unat (r2 * 5) = 5 * unat r2" "unat (r3 * 5) = 5 * unat r3" "unat (r4 * 5) = 5 * unat r4"
    using r by (auto simp: below_def intro!: unat_times5)
  have hb: "unat x < 134217792" if "x \<in> {h0, h1, h2, h3, h4}" for x using h that by (auto simp: below_def)
  have m: "unat (mul64 x y) = unat x * unat y" "unat (mul64 x y) < 288230376151711744"
    if "x \<in> {h0, h1, h2, h3, h4}" "unat y < 335544320" for x y
    using mul_bound [OF hb [OF that(1)] that(2)] by (simp_all add: unat_mul64)
  have rb: "unat y < 335544320" if "y \<in> {r0, r1, r2, r3, r4, r1 * 5, r2 * 5, r3 * 5, r4 * 5}" for y
    using r that s by (auto simp: below_def)
  show ?thesis
    unfolding poly_mul_def nats_def Let_def prod.case
    by (subst sum5 [OF m(2) m(2) m(2) m(2) m(2)]; (simp add: rb; fail)?)+ (simp add: unat_mul64 s)
qed

lemma poly_mul_bounds:
  assumes "below 134217792 134217792 (h0, h1, h2, h3, h4)" "below 67108864 67108864 (r0, r1, r2, r3, r4)"
    "poly_mul (h0, h1, h2, h3, h4) (r0, r1, r2, r3, r4) = (d0, d1, d2, d3, d4)"
  shows "unat d0 \<le> 225180088742707200" "unat d1 \<le> 225180088742707200" "unat d2 \<le> 225180088742707200"
    "unat d3 \<le> 225180088742707200" "unat d4 \<le> 45036017748541440"
proof -
  note d = poly_mul_nats [OF assms(1,2), unfolded assms(3), unfolded nats_def prod.case prod.inject]
  have h: "unat h0 < 134217792" "unat h1 < 134217792" "unat h2 < 134217792" "unat h3 < 134217792" "unat h4 < 134217792"
    and r: "unat r0 < 67108864" "unat r1 < 67108864" "unat r2 < 67108864" "unat r3 < 67108864" "unat r4 < 67108864"
    using assms(1,2) by (simp_all add: below_def)
  have s: "5 * unat r1 < 335544320" "5 * unat r2 < 335544320" "5 * unat r3 < 335544320" "5 * unat r4 < 335544320"
    and q: "unat r0 < 335544320" "unat r1 < 335544320" "unat r2 < 335544320" "unat r3 < 335544320"
    using r by simp_all
  show "unat d0 \<le> 225180088742707200"
    using d mul_bound [OF h(1) q(1)] mul_bound [OF h(2) s(4)] mul_bound [OF h(3) s(3)] mul_bound [OF h(4) s(2)] mul_bound [OF h(5) s(1)]
    by linarith
  show "unat d1 \<le> 225180088742707200"
    using d mul_bound [OF h(1) q(2)] mul_bound [OF h(2) q(1)] mul_bound [OF h(3) s(4)] mul_bound [OF h(4) s(3)] mul_bound [OF h(5) s(2)]
    by linarith
  show "unat d2 \<le> 225180088742707200"
    using d mul_bound [OF h(1) q(3)] mul_bound [OF h(2) q(2)] mul_bound [OF h(3) q(1)] mul_bound [OF h(4) s(4)] mul_bound [OF h(5) s(3)]
    by linarith
  show "unat d3 \<le> 225180088742707200"
    using d mul_bound [OF h(1) q(4)] mul_bound [OF h(2) q(3)] mul_bound [OF h(3) q(2)] mul_bound [OF h(4) q(1)] mul_bound [OF h(5) s(4)]
    by linarith
  show "unat d4 \<le> 45036017748541440"
    using d mul_bound [OF h(1) r(5)] mul_bound [OF h(2) r(4)] mul_bound [OF h(3) r(3)] mul_bound [OF h(4) r(2)] mul_bound [OF h(5) r(1)]
    by linarith
qed

lemma poly_mul_value:
  assumes "below 134217792 134217792 h" "below 67108864 67108864 r"
  shows "five (nats (poly_mul h r)) mod P1305 = five (nats h) * five (nats r) mod P1305"
proof -
  obtain h0 h1 h2 h3 h4 r0 r1 r2 r3 r4 where e: "h = (h0, h1, h2, h3, h4)" "r = (r0, r1, r2, r3, r4)"
    by (cases h; cases r) blast
  note a = assms [unfolded e]
  have n: "nats h = (unat h0, unat h1, unat h2, unat h3, unat h4)" "nats r = (unat r0, unat r1, unat r2, unat r3, unat r4)"
    by (simp_all add: e nats_def)
  show ?thesis unfolding n schoolbook unfolding e poly_mul_nats [OF a] by (simp only: mod_mult_self2)
qed

lemma carry_out:
  assumes "unat d < 288230376151711744"
  shows "unat (ucast (drop_bit 26 (d :: u64)) :: u32) = unat d div 67108864"
proof -
  have "unat d div 67108864 < 4294967296" using assms by simp
  then show ?thesis by (simp only: unsigned_ucast_eq unat_shift) (simp add: take_bit_nat_eq_self)
qed

lemma unat_u32_less: "unat (c :: u32) < 4294967296"
  using unsigned_less [where 'a = nat and w = c] by simp

lemma carry_in: "unat d \<le> 225180088742707200 \<Longrightarrow> unat (d + ucast (c :: u32) :: u64) = unat d + unat c"
  using unat_u32_less [of c] by (subst unat_plus) (simp_all add: unat_widen)

lemma carry_sum:
  fixes d0 d1 d2 d3 d4 c0 c1 c2 c3 c4 m0 m1 m2 m3 m4 k g :: nat
  assumes "d0 = 67108864 * c0 + m0" "d1 + c0 = 67108864 * c1 + m1" "d2 + c1 = 67108864 * c2 + m2"
    "d3 + c2 = 67108864 * c3 + m3" "d4 + c3 = 67108864 * c4 + m4" "m0 + 5 * c4 = 67108864 * k + g"
  shows "five (g, m1 + k, m2, m3, m4) + P1305 * c4 = five (d0, d1, d2, d3, d4)"
proof -
  have p: "P1305 = 1361129467683753853853498429727072845819" by simp
  have e: "int g = int m0 + 5 * int c4 - 67108864 * int k" "int m4 = int d4 + int c3 - 67108864 * int c4"
      "int m3 = int d3 + int c2 - 67108864 * int c3" "int m2 = int d2 + int c1 - 67108864 * int c2"
      "int m1 = int d1 + int c0 - 67108864 * int c1" "int m0 = int d0 - 67108864 * int c0"
    using arg_cong [OF assms(6), of int] arg_cong [OF assms(5), of int] arg_cong [OF assms(4), of int]
      arg_cong [OF assms(3), of int] arg_cong [OF assms(2), of int] arg_cong [OF assms(1), of int] by simp_all
  have "int (five (g, m1 + k, m2, m3, m4) + P1305 * c4) = int (five (d0, d1, d2, d3, d4))"
    unfolding five_def prod.case p of_nat_add of_nat_mult of_nat_numeral e by (simp add: algebra_simps)
  then show ?thesis by (rule of_nat_eq_iff [THEN iffD1])
qed

lemma poly_carry_value:
  assumes b: "unat d0 \<le> 225180088742707200" "unat d1 \<le> 225180088742707200" "unat d2 \<le> 225180088742707200"
    "unat d3 \<le> 225180088742707200" "unat d4 \<le> 45036017748541440"
  shows "below 67108864 67108928 (poly_carry (d0, d1, d2, d3, d4))"
    "five (nats (poly_carry (d0, d1, d2, d3, d4))) mod P1305 = five (nats (d0, d1, d2, d3, d4)) mod P1305"
proof -
  define c0 where "c0 = (ucast (drop_bit 26 d0) :: u32)"
  define e1 where "e1 = d1 + ucast c0"
  define c1 where "c1 = (ucast (drop_bit 26 e1) :: u32)"
  define e2 where "e2 = d2 + ucast c1"
  define c2 where "c2 = (ucast (drop_bit 26 e2) :: u32)"
  define e3 where "e3 = d3 + ucast c2"
  define c3 where "c3 = (ucast (drop_bit 26 e3) :: u32)"
  define e4 where "e4 = d4 + ucast c3"
  define c4 where "c4 = (ucast (drop_bit 26 e4) :: u32)"
  define g where "g = (ucast d0 AND 0x3FFFFFF) + c4 * 5"
  define k where "k = drop_bit 26 g"
  define h1 where "h1 = (ucast e1 AND 0x3FFFFFF) + k"
  have eq: "poly_carry (d0, d1, d2, d3, d4) = (g AND 0x3FFFFFF, h1, ucast e2 AND 0x3FFFFFF,
      ucast e3 AND 0x3FFFFFF, ucast e4 AND 0x3FFFFFF)"
    unfolding poly_carry_def Let_def prod.case
    by (simp only: c0_def [symmetric] e1_def [symmetric] c1_def [symmetric] e2_def [symmetric] c2_def [symmetric]
        e3_def [symmetric] c3_def [symmetric] e4_def [symmetric] c4_def [symmetric] g_def [symmetric] k_def [symmetric]
        h1_def [symmetric])
  note lt = unat_u32_less
  have c0: "unat c0 = unat d0 div 67108864" unfolding c0_def by (rule carry_out) (use b in linarith)
  have e1: "unat e1 = unat d1 + unat c0" unfolding e1_def by (rule carry_in [OF b(2)])
  have c1: "unat c1 = unat e1 div 67108864" unfolding c1_def by (rule carry_out) (use b e1 lt [of c0] in linarith)
  have e2: "unat e2 = unat d2 + unat c1" unfolding e2_def by (rule carry_in [OF b(3)])
  have c2: "unat c2 = unat e2 div 67108864" unfolding c2_def by (rule carry_out) (use b e2 lt [of c1] in linarith)
  have e3: "unat e3 = unat d3 + unat c2" unfolding e3_def by (rule carry_in [OF b(4)])
  have c3: "unat c3 = unat e3 div 67108864" unfolding c3_def by (rule carry_out) (use b e3 lt [of c2] in linarith)
  have e4: "unat e4 = unat d4 + unat c3" unfolding e4_def by (rule carry_in) (use b in linarith)
  have c4: "unat c4 = unat e4 div 67108864" unfolding c4_def by (rule carry_out) (use b e4 lt [of c3] in linarith)
  have c4b: "unat c4 \<le> 671088960 + 64" unfolding c4 using b e4 lt [of c3] by linarith
  have c5: "unat (c4 * 5) = 5 * unat c4" by (subst unat_mult_lem [THEN iffD1]) (use c4b in simp_all)
  have g: "unat g = unat d0 mod 67108864 + 5 * unat c4"
    unfolding g_def by (subst unat_plus) (use c4b c5 in \<open>simp_all add: unat_ucast_and26\<close>)
  have k: "unat k = unat g div 67108864" unfolding k_def unat_shift by simp
  have kb: "unat k < 64" unfolding k using lt [of g] by linarith
  have h1: "unat h1 = unat e1 mod 67108864 + unat k"
    unfolding h1_def by (subst unat_plus) (use kb in \<open>simp_all add: unat_ucast_and26\<close>)
  show "below 67108864 67108928 (poly_carry (d0, d1, d2, d3, d4))"
    unfolding eq below_def using kb by (simp add: unat_and26 unat_ucast_and26 h1)
  have "five (nats (poly_carry (d0, d1, d2, d3, d4))) + P1305 * unat c4 = five (unat d0, unat d1, unat d2, unat d3, unat d4)"
    unfolding eq nats_def prod.case unat_ucast_and26 h1 unfolding unat_and26
    by (rule carry_sum [where ?c0.0 = "unat c0" and ?c1.0 = "unat c1" and ?c2.0 = "unat c2" and ?c3.0 = "unat c3" and ?m0.0 = "unat d0 mod 67108864"])
       (simp_all only: c0 c1 c2 c3 c4 k mult_div_mod_eq e1 [unfolded c0, symmetric] e2 [unfolded c1, symmetric]
          e3 [unfolded c2, symmetric] e4 [unfolded c3, symmetric] g [unfolded c4, symmetric])
  then show "five (nats (poly_carry (d0, d1, d2, d3, d4))) mod P1305 = five (nats (d0, d1, d2, d3, d4)) mod P1305"
    unfolding nats_def [of "(d0, d1, d2, d3, d4)"] prod.case by (metis mod_mult_self2)
qed

section \<open>The key and the blocks\<close>

lemma limb_bits:
  assumes "k + 26 \<le> 32"
  shows "take_bit 26 (drop_bit k (take_bit 32 (drop_bit j (n :: nat)))) = take_bit 26 (drop_bit (j + k) n)"
  by (rule bit_eqI) (use assms in \<open>auto simp: bit_simps ac_simps\<close>)

lemma limb_of:
  assumes "i + 4 \<le> length p" "k + 26 \<le> 32"
  shows "unat (drop_bit k (load32 p i) AND 0x3FFFFFF) = le p div 2 ^ (8 * i + k) mod 67108864"
  unfolding unat_and26 unat_shift load32_le [OF assms(1)]
  using limb_bits [OF assms(2), of "8 * i" "le p"] by (simp add: take_bit_eq_mod drop_bit_eq_div)

lemma limb_top:
  assumes "length p = 16"
  shows "unat (drop_bit 8 (load32 p 12)) = le p div 2 ^ 104"
proof -
  have "le p < 2 ^ 128" using le_less [of p] assms by simp
  then have "drop_bit 96 (le p) < 2 ^ 32" by (simp add: drop_bit_eq_div)
  then have "take_bit 32 (drop_bit 96 (le p)) = drop_bit 96 (le p)" by (rule take_bit_nat_eq_self)
  then have "unat (load32 p 12) = le p div 2 ^ 96" using load32_le [of 12 p] assms by (simp add: drop_bit_eq_div)
  then show ?thesis unfolding unat_shift by (simp add: div_mult2_eq [symmetric])
qed

lemma five_digits:
  "five (n mod 67108864, n div 2 ^ 26 mod 67108864, n div 2 ^ 52 mod 67108864, n div 2 ^ 78 mod 67108864, n div 2 ^ 104) = n"
proof -
  define a where "a = n div 67108864"
  define b where "b = a div 67108864"
  define c where "c = b div 67108864"
  define d where "d = c div 67108864"
  have e: "n div 2 ^ 26 = a" "n div 2 ^ 52 = b" "n div 2 ^ 78 = c" "n div 2 ^ 104 = d"
    by (simp_all add: a_def b_def c_def d_def div_mult2_eq [symmetric])
  have "five (n mod 67108864, a mod 67108864, b mod 67108864, c mod 67108864, d) =
      n mod 67108864 + 67108864 * (a mod 67108864 + 67108864 * (b mod 67108864 + 67108864 * (c mod 67108864 + 67108864 * d)))"
    by (simp add: five_def algebra_simps)
  also have "c mod 67108864 + 67108864 * d = c" by (simp add: d_def)
  also have "b mod 67108864 + 67108864 * c = b" by (simp add: c_def)
  also have "a mod 67108864 + 67108864 * b = a" by (simp add: b_def)
  also have "n mod 67108864 + 67108864 * a = n" by (simp add: a_def)
  finally show ?thesis unfolding e .
qed

lemma five_add:
  "five (a0 + b0, a1 + b1, a2 + b2, a3 + b3, a4 + b4) = five (a0, a1, a2, a3, a4) + five (b0, b1, b2, b3, b4)"
  by (simp add: five_def algebra_simps)

lemma five_top: "five (a, b, c, d, e + x) = five (a, b, c, d, e) + x * 2 ^ 104"
  by (simp add: five_def algebra_simps)

lemma add_below: "(a::nat) < 67108928 \<Longrightarrow> q < 67108864 \<Longrightarrow> a + q < 134217792"
  by simp

lemma less_67: "(a::nat) < 67108864 \<Longrightarrow> a < 67108928"
  by simp

lemma or_hibit:
  fixes x :: u32
  assumes "unat x < 16777216" "hb = 0 \<or> hb = push_bit 24 1"
  shows "unat (x OR hb) = unat x + unat hb"
proof -
  have "unat (take_bit 24 x) = unat x"
    unfolding unsigned_take_bit_eq by (rule take_bit_nat_eq_self) (use assms(1) in simp)
  then have x: "take_bit 24 x = x" by (simp only: word_unat_eq_iff)
  have "\<not> bit x n \<or> \<not> bit hb n" for n
  proof (cases "hb = 0")
    case False
    then have hb: "hb = push_bit 24 1" using assms(2) by blast
    have "bit x n \<Longrightarrow> n < 24" by (subst (asm) x [symmetric]) (simp only: bit_take_bit_iff)
    moreover have "bit hb n \<Longrightarrow> 24 \<le> n" unfolding hb by (simp only: bit_push_bit_iff)
    ultimately show ?thesis by (metis leD)
  qed simp
  then have "x OR hb = x + hb" by (rule disjunctive_add [symmetric])
  moreover have "unat hb \<le> 16777216" using assms(2) by (auto simp: push_bit_eq_mult)
  ultimately show ?thesis using assms(1) by (simp add: unat_plus)
qed

lemma poly_add_value:
  assumes h: "below 67108864 67108928 h" and b: "length block = 16" and hb: "hb = 0 \<or> hb = push_bit 24 1"
  shows "below 134217792 134217792 (poly_add block hb h)"
    "five (nats (poly_add block hb h)) = five (nats h) + le block + unat hb * 2 ^ 104"
proof -
  obtain h0 h1 h2 h3 h4 where e: "h = (h0, h1, h2, h3, h4)" by (cases h) blast
  let ?n = "le block"
  have hs: "unat h0 < 67108864" "unat h1 < 67108928" "unat h2 < 67108864" "unat h3 < 67108864" "unat h4 < 67108864"
    using h by (simp_all add: e below_def)
  have n: "?n < 2 ^ 128" using le_less [of block] b by simp
  have t: "unat (drop_bit 8 (load32 block 12)) < 16777216" unfolding limb_top [OF b] using n by simp
  have hb24: "unat hb \<le> 16777216" using hb by (auto simp: push_bit_eq_mult)
  have w: "unat (load32 block 0 AND 0x3FFFFFF) = ?n mod 67108864"
    "unat (drop_bit 2 (load32 block 3) AND 0x3FFFFFF) = ?n div 2 ^ 26 mod 67108864"
    "unat (drop_bit 4 (load32 block 6) AND 0x3FFFFFF) = ?n div 2 ^ 52 mod 67108864"
    "unat (drop_bit 6 (load32 block 9) AND 0x3FFFFFF) = ?n div 2 ^ 78 mod 67108864"
    using limb_of [of 0 block 0] limb_of [of 3 block 2] limb_of [of 6 block 4] limb_of [of 9 block 6] b by simp_all
  have top: "unat (drop_bit 8 (load32 block 12) OR hb) = ?n div 2 ^ 104 + unat hb"
    using or_hibit [OF t hb] limb_top [OF b] by simp
  have n4: "?n div 2 ^ 104 < 16777216" using n by simp
  have q: "?n mod 67108864 < 67108864" "?n div 2 ^ 26 mod 67108864 < 67108864" "?n div 2 ^ 52 mod 67108864 < 67108864"
    "?n div 2 ^ 78 mod 67108864 < 67108864" by simp_all
  have s0: "unat (h0 + (load32 block 0 AND 0x3FFFFFF)) = unat h0 + ?n mod 67108864"
    using unat_plus [of h0 "load32 block 0 AND 0x3FFFFFF"] hs(1) q(1) unfolding w by simp
  have s1: "unat (h1 + (drop_bit 2 (load32 block 3) AND 0x3FFFFFF)) = unat h1 + ?n div 2 ^ 26 mod 67108864"
    by (subst unat_plus) (simp_all only: w, use hs(2) q(2) in simp)
  have s2: "unat (h2 + (drop_bit 4 (load32 block 6) AND 0x3FFFFFF)) = unat h2 + ?n div 2 ^ 52 mod 67108864"
    by (subst unat_plus) (simp_all only: w, use hs(3) q(3) in simp)
  have s3: "unat (h3 + (drop_bit 6 (load32 block 9) AND 0x3FFFFFF)) = unat h3 + ?n div 2 ^ 78 mod 67108864"
    by (subst unat_plus) (simp_all only: w, use hs(4) q(4) in simp)
  have s4: "unat (h4 + (drop_bit 8 (load32 block 12) OR hb)) = unat h4 + (?n div 2 ^ 104 + unat hb)"
    by (subst unat_plus) (simp_all only: top, use hs(5) n4 hb24 in simp)
  have e5: "nats (poly_add block hb h) = (unat h0 + ?n mod 67108864, unat h1 + ?n div 2 ^ 26 mod 67108864,
     unat h2 + ?n div 2 ^ 52 mod 67108864, unat h3 + ?n div 2 ^ 78 mod 67108864, unat h4 + (?n div 2 ^ 104 + unat hb))"
    unfolding e poly_add_def nats_def prod.case s0 s1 s2 s3 s4 ..
  have t4: "?n div 2 ^ 104 + unat hb < 67108864" using n4 hb24 by linarith
  show "below 134217792 134217792 (poly_add block hb h)"
    unfolding e poly_add_def below_def prod.case s0 s1 s2 s3 s4
    using add_below [OF hs(2) q(2)] hs q(1,3,4) t4 by (simp only: add_below less_67)
  have "five (nats (poly_add block hb h)) = five (unat h0, unat h1, unat h2, unat h3, unat h4) +
     five (?n mod 67108864, ?n div 2 ^ 26 mod 67108864, ?n div 2 ^ 52 mod 67108864, ?n div 2 ^ 78 mod 67108864, ?n div 2 ^ 104 + unat hb)"
    unfolding e5 five_add ..
  also have "five (?n mod 67108864, ?n div 2 ^ 26 mod 67108864, ?n div 2 ^ 52 mod 67108864, ?n div 2 ^ 78 mod 67108864, ?n div 2 ^ 104 + unat hb)
     = ?n + unat hb * 2 ^ 104"
    unfolding five_top five_digits ..
  finally show "five (nats (poly_add block hb h)) = five (nats h) + ?n + unat hb * 2 ^ 104"
    unfolding e nats_def prod.case by (simp only: add.assoc)
qed

section \<open>The definition of RFC 8439\<close>

definition poly_r :: "u8 list \<Rightarrow> nat" where
  "poly_r key = le (take 16 key) AND 0x0FFFFFFC0FFFFFFC0FFFFFFC0FFFFFFF"

function poly_eval :: "nat \<Rightarrow> u8 list \<Rightarrow> nat \<Rightarrow> nat" where
  "poly_eval r m a =
     (if m = [] then a
      else let b = take 16 m in poly_eval r (drop 16 m) ((a + le b + 2 ^ (8 * length b)) * r mod P1305))"
  by pat_completeness auto
termination by (relation "measure (\<lambda>(_, m, _). length m)") (auto simp: Let_def)

declare poly_eval.simps [simp del]

lemma clamp_limb:
  assumes "i + 4 \<le> length p" "k + w \<le> 32" "unat c = take_bit w (drop_bit (8 * i + k) cc)"
  shows "unat (drop_bit k (load32 p i) AND c) = take_bit w (drop_bit (8 * i + k) (le p AND cc))"
proof -
  have "unat (drop_bit k (load32 p i) AND c) = drop_bit k (take_bit 32 (drop_bit (8 * i) (le p))) AND take_bit w (drop_bit (8 * i + k) cc)"
    by (simp only: unsigned_and_eq unat_drop_bit_eq load32_le [OF assms(1)] assms(3))
  also have "\<dots> = take_bit w (drop_bit (8 * i + k) (le p AND cc))"
    by (rule bit_eqI) (use assms(2) in \<open>auto simp: bit_simps ac_simps\<close>)
  finally show ?thesis .
qed

lemma poly_key_value:
  assumes "length key = 32"
  shows "below 67108864 67108864 (poly_key key)" "five (nats (poly_key key)) = poly_r key"
proof -
  define cc :: nat where "cc = 0x0FFFFFFC0FFFFFFC0FFFFFFC0FFFFFFF"
  define n where "n = le key AND cc"
  have cc: "take_bit 124 cc = cc" by (simp add: cc_def take_bit_eq_mod)
  have "take_bit 124 n = le key AND take_bit 124 cc" unfolding n_def
    by (rule bit_eqI) (auto simp: bit_simps)
  then have n: "take_bit 124 n = n" by (simp only: cc n_def)
  have "n < 2 ^ 124" by (subst n [symmetric]) (simp add: take_bit_eq_mod)
  then have t: "n div 2 ^ 104 < 2 ^ 24" by simp
  have c: "unat (0x3FFFFFF :: u32) = take_bit 26 (drop_bit (8 * 0 + 0) cc)" "unat (0x3FFFF03 :: u32) = take_bit 26 (drop_bit (8 * 3 + 2) cc)"
    "unat (0x3FFC0FF :: u32) = take_bit 26 (drop_bit (8 * 6 + 4) cc)" "unat (0x3F03FFF :: u32) = take_bit 26 (drop_bit (8 * 9 + 6) cc)"
    "unat (0x00FFFFF :: u32) = take_bit 24 (drop_bit (8 * 12 + 8) cc)"
    by (simp_all add: cc_def take_bit_eq_mod drop_bit_eq_div)
  have w1: "unat (load32 key 0 AND 0x3FFFFFF) = n mod 67108864"
  proof -
    have "unat (drop_bit 0 (load32 key 0) AND 0x3FFFFFF) = take_bit 26 (drop_bit (8 * 0 + 0) n)"
      unfolding n_def by (rule clamp_limb [OF _ _ c(1)]) (simp_all add: assms)
    then show ?thesis using t by (simp add: take_bit_eq_mod drop_bit_eq_div)
  qed
  have w2: "unat (drop_bit 2 (load32 key 3) AND 0x3FFFF03) = n div 2 ^ 26 mod 67108864"
  proof -
    have "unat (drop_bit 2 (load32 key 3) AND 0x3FFFF03) = take_bit 26 (drop_bit (8 * 3 + 2) n)"
      unfolding n_def by (rule clamp_limb [OF _ _ c(2)]) (simp_all add: assms)
    then show ?thesis using t by (simp add: take_bit_eq_mod drop_bit_eq_div)
  qed
  have w3: "unat (drop_bit 4 (load32 key 6) AND 0x3FFC0FF) = n div 2 ^ 52 mod 67108864"
  proof -
    have "unat (drop_bit 4 (load32 key 6) AND 0x3FFC0FF) = take_bit 26 (drop_bit (8 * 6 + 4) n)"
      unfolding n_def by (rule clamp_limb [OF _ _ c(3)]) (simp_all add: assms)
    then show ?thesis using t by (simp add: take_bit_eq_mod drop_bit_eq_div)
  qed
  have w4: "unat (drop_bit 6 (load32 key 9) AND 0x3F03FFF) = n div 2 ^ 78 mod 67108864"
  proof -
    have "unat (drop_bit 6 (load32 key 9) AND 0x3F03FFF) = take_bit 26 (drop_bit (8 * 9 + 6) n)"
      unfolding n_def by (rule clamp_limb [OF _ _ c(4)]) (simp_all add: assms)
    then show ?thesis using t by (simp add: take_bit_eq_mod drop_bit_eq_div)
  qed
  have w5: "unat (drop_bit 8 (load32 key 12) AND 0x00FFFFF) = n div 2 ^ 104"
  proof -
    have "unat (drop_bit 8 (load32 key 12) AND 0x00FFFFF) = take_bit 24 (drop_bit (8 * 12 + 8) n)"
      unfolding n_def by (rule clamp_limb [OF _ _ c(5)]) (simp_all add: assms)
    then show ?thesis using t by (simp add: take_bit_eq_mod drop_bit_eq_div)
  qed
  note w = w1 w2 w3 w4 w5
  have k: "nats (poly_key key) = (n mod 67108864, n div 2 ^ 26 mod 67108864, n div 2 ^ 52 mod 67108864,
     n div 2 ^ 78 mod 67108864, n div 2 ^ 104)"
    unfolding poly_key_def nats_def prod.case w ..
  show "below 67108864 67108864 (poly_key key)"
    unfolding poly_key_def below_def prod.case w using t by simp
  have "le (take 16 key) AND cc = n"
  proof -
    have "le (take 16 key) = take_bit 128 (le key)" using assms by (simp add: le_take take_bit_eq_mod)
    moreover have "take_bit 128 (le key) AND take_bit 124 cc = le key AND take_bit 124 cc"
      by (rule bit_eqI) (auto simp: bit_simps)
    ultimately show ?thesis unfolding n_def cc by simp
  qed
  then show "five (nats (poly_key key)) = poly_r key"
    unfolding k five_digits poly_r_def cc_def by simp
qed

lemma poly_block_value:
  assumes "m \<noteq> []"
  shows "length (poly_block (take 16 m)) = 16"
    "le (poly_block (take 16 m)) + unat (if min (length m) 16 < 16 then 0 else push_bit 24 1 :: u32) * 2 ^ 104 =
       le (take 16 m) + 2 ^ (8 * length (take 16 m))"
proof -
  show "length (poly_block (take 16 m)) = 16" by (auto simp: poly_block_def Let_def min_def)
  show "le (poly_block (take 16 m)) + unat (if min (length m) 16 < 16 then 0 else push_bit 24 1 :: u32) * 2 ^ 104 =
       le (take 16 m) + 2 ^ (8 * length (take 16 m))"
    by (cases "length m < 16") (simp_all add: poly_block_def Let_def le_append push_bit_eq_mult min_def)
qed

lemma poly_blocks_value:
  assumes "below 67108864 67108928 h" "below 67108864 67108864 r" "five (nats h) mod P1305 = a mod P1305"
  shows "below 67108864 67108928 (poly_blocks r m h) \<and>
    five (nats (poly_blocks r m h)) mod P1305 = poly_eval (five (nats r)) m a mod P1305"
  using assms
proof (induction r m h arbitrary: a rule: poly_blocks.induct)
  case (1 r m h)
  show ?case
  proof (cases "m = []")
    case True
    have "poly_blocks r m h = h" "poly_eval (five (nats r)) m a = a"
      by (subst poly_blocks.simps, simp add: True) (subst poly_eval.simps, simp add: True)
    then show ?thesis using "1.prems" by simp
  next
    case False
    define hb :: u32 where "hb = (if min (length m) 16 < 16 then 0 else push_bit 24 1)"
    define block where "block = poly_block (take 16 m)"
    define s where "s = poly_add block hb h"
    define b where "b = le (take 16 m) + 2 ^ (8 * length (take 16 m))"
    have hb: "hb = 0 \<or> hb = push_bit 24 1" by (simp only: hb_def split: if_splits) blast
    have blk: "length block = 16" "le block + unat hb * 2 ^ 104 = b"
      unfolding block_def hb_def b_def using poly_block_value [OF False] by simp_all
    have s: "below 134217792 134217792 s" "five (nats s) = five (nats h) + b"
      unfolding s_def using poly_add_value [OF "1.prems"(1) blk(1) hb] blk(2) by simp_all
    obtain d0 d1 d2 d3 d4 where d: "poly_mul s r = (d0, d1, d2, d3, d4)" by (cases "poly_mul s r") blast
    obtain s0 s1 s2 s3 s4 r0 r1 r2 r3 r4 where t: "s = (s0, s1, s2, s3, s4)" "r = (r0, r1, r2, r3, r4)"
      by (cases s; cases r) blast
    note bd = poly_mul_bounds [OF s(1) [unfolded t] "1.prems"(2) [unfolded t] d [unfolded t]]
    note c = poly_carry_value [OF bd]
    have "five (nats (poly_carry (poly_mul s r))) mod P1305 = (five (nats h) + b) * five (nats r) mod P1305"
      using c(2) poly_mul_value [OF s(1) "1.prems"(2)] unfolding d s(2) by simp
    also have "\<dots> = ((a + b) * five (nats r) mod P1305) mod P1305"
      using "1.prems"(3) by (metis mod_add_left_eq mod_mod_trivial mod_mult_left_eq)
    finally have v: "five (nats (poly_carry (poly_mul s r))) mod P1305 = ((a + b) * five (nats r) mod P1305) mod P1305" .
    have step: "poly_blocks r m h = poly_blocks r (drop (min (length m) 16) m) (poly_carry (poly_mul s r))"
      using False by (subst poly_blocks.simps) (simp add: Let_def s_def block_def hb_def min_def)
    have dr: "drop (min (length m) 16) m = drop 16 m" by (simp add: min_def)
    have ev: "poly_eval (five (nats r)) m a = poly_eval (five (nats r)) (drop 16 m) ((a + b) * five (nats r) mod P1305)"
      using False by (subst poly_eval.simps) (simp only: if_False Let_def b_def add.assoc)
    have bl: "below 67108864 67108928 (poly_carry (poly_mul s r))" using c(1) unfolding d .
    have sx: "s = poly_add (poly_block (take (min (length m) 16) m)) hb h"
      by (simp add: s_def block_def min_def)
    have "below 67108864 67108928 (poly_blocks r (drop (min (length m) 16) m) (poly_carry (poly_mul s r))) \<and>
      five (nats (poly_blocks r (drop (min (length m) 16) m) (poly_carry (poly_mul s r)))) mod P1305 =
      poly_eval (five (nats r)) (drop (min (length m) 16) m) ((a + b) * five (nats r) mod P1305) mod P1305"
      unfolding sx
      by (rule "1.IH" [OF False refl refl hb_def]) (use bl v "1.prems"(2) in \<open>simp_all only: sx\<close>)
    then show ?thesis unfolding step ev unfolding dr .
  qed
qed

section \<open>The last steps\<close>

lemma poly_carry_last_value:
  assumes "below 67108864 67108928 h"
  shows "below 67108864 67108864 (poly_carry_last h)"
    "five (nats (poly_carry_last h)) mod P1305 = five (nats h) mod P1305"
proof -
  obtain h0 h1 h2 h3 h4 where e: "h = (h0, h1, h2, h3, h4)" by (cases h) blast
  have b: "unat h0 < 67108864" "unat h1 < 67108928" "unat h2 < 67108864" "unat h3 < 67108864" "unat h4 < 67108864"
    using assms by (simp_all add: e below_def)
  define c1 where "c1 = drop_bit 26 h1"
  define e2 where "e2 = h2 + c1"
  define c2 where "c2 = drop_bit 26 e2"
  define e3 where "e3 = h3 + c2"
  define c3 where "c3 = drop_bit 26 e3"
  define e4 where "e4 = h4 + c3"
  define c4 where "c4 = drop_bit 26 e4"
  define g where "g = h0 + c4 * 5"
  define k where "k = drop_bit 26 g"
  define j where "j = (h1 AND 0x3FFFFFF) + k"
  have eq: "poly_carry_last h = (g AND 0x3FFFFFF, j, e2 AND 0x3FFFFFF, e3 AND 0x3FFFFFF, e4 AND 0x3FFFFFF)"
    unfolding poly_carry_last_def Let_def prod.case e
    by (simp only: c1_def [symmetric] e2_def [symmetric] c2_def [symmetric]
        e3_def [symmetric] c3_def [symmetric] e4_def [symmetric] c4_def [symmetric] g_def [symmetric] k_def [symmetric]
        j_def [symmetric])
  have c1: "unat c1 = unat h1 div 67108864" unfolding c1_def unat_shift by simp
  have c1b: "unat c1 \<le> 1" unfolding c1 using b by linarith
  have e2: "unat e2 = unat h2 + unat c1" unfolding e2_def by (rule unat_plus) (use b c1b in simp)
  have c2: "unat c2 = unat e2 div 67108864" unfolding c2_def unat_shift by simp
  have c2b: "unat c2 \<le> unat c1" unfolding c2 using b e2 c1b by linarith
  have e3: "unat e3 = unat h3 + unat c2" unfolding e3_def by (rule unat_plus) (use b c2b c1b in simp)
  have c3: "unat c3 = unat e3 div 67108864" unfolding c3_def unat_shift by simp
  have c3b: "unat c3 \<le> unat c2" unfolding c3 using b e3 c2b c1b by linarith
  have e4: "unat e4 = unat h4 + unat c3" unfolding e4_def by (rule unat_plus) (use b c3b c2b c1b in simp)
  have c4: "unat c4 = unat e4 div 67108864" unfolding c4_def unat_shift by simp
  have c4b: "unat c4 \<le> unat c3" unfolding c4 using b e4 c3b c2b c1b by linarith
  have c5: "unat (c4 * 5) = 5 * unat c4" by (rule unat_times5) (use c4b c3b c2b c1b in simp)
  have g: "unat g = unat h0 + 5 * unat c4"
    unfolding g_def by (subst unat_plus) (use b c5 c4b c3b c2b c1b in simp_all)
  have k: "unat k = unat g div 67108864" unfolding k_def unat_shift by simp
  have kb: "unat k \<le> unat c4" unfolding k using b g c4b c3b c2b c1b by linarith
  have j: "unat j = unat h1 mod 67108864 + unat k"
    unfolding j_def by (subst unat_plus) (use kb c4b c3b c2b c1b in \<open>simp_all add: unat_and26\<close>)
  have jb: "unat j < 67108864"
  proof (cases "unat c1 = 0")
    case True
    then show ?thesis using j kb c4b c3b c2b c1 b by linarith
  next
    case False
    then have "67108864 \<le> unat h1" using c1 by (metis div_less not_le)
    then have "unat h1 mod 67108864 < 64" using b by (simp add: le_mod_geq)
    then show ?thesis using j kb c4b c3b c2b c1b by linarith
  qed
  show "below 67108864 67108864 (poly_carry_last h)"
    unfolding eq below_def using jb by (simp add: unat_and26)
  have "five (nats (poly_carry_last h)) + P1305 * unat c4 = five (unat h0, unat h1, unat h2, unat h3, unat h4)"
    unfolding eq nats_def prod.case unat_and26 j
    by (rule carry_sum [where ?c0.0 = 0 and ?c1.0 = "unat c1" and ?c2.0 = "unat c2" and ?c3.0 = "unat c3" and ?m0.0 = "unat h0"])
       (simp_all only: c1 c2 c3 c4 k mult_div_mod_eq e2 [unfolded c1, symmetric] mult_0_right add_0_left add_0_right
          e3 [unfolded c2, symmetric] e4 [unfolded c3, symmetric] g [unfolded c4, symmetric])
  then have "five (nats (poly_carry_last h)) + P1305 * unat c4 = five (nats h)"
    by (simp only: e nats_def prod.case)
  then show "five (nats (poly_carry_last h)) mod P1305 = five (nats h) mod P1305"
    by (metis mod_mult_self2)
qed

lemma five_less:
  assumes "a < 67108864" "b < 67108864" "c < 67108864" "d < 67108864" "e < 67108864"
  shows "five (a, b, c, d, e) < 2 ^ 130"
  using assms by (simp add: five_def)

lemma five_carries:
  fixes h0 h1 h2 h3 h4 c0 c1 c2 c3 m0 m1 m2 m3 :: nat
  assumes "h0 + 5 = 67108864 * c0 + m0" "h1 + c0 = 67108864 * c1 + m1" "h2 + c1 = 67108864 * c2 + m2"
    "h3 + c2 = 67108864 * c3 + m3"
  shows "five (m0, m1, m2, m3, h4 + c3) = five (h0, h1, h2, h3, h4) + 5"
proof -
  have e: "int m0 = int h0 + 5 - 67108864 * int c0" "int m1 = int h1 + int c0 - 67108864 * int c1"
    "int m2 = int h2 + int c1 - 67108864 * int c2" "int m3 = int h3 + int c2 - 67108864 * int c3"
    using arg_cong [OF assms(1), of int] arg_cong [OF assms(2), of int] arg_cong [OF assms(3), of int]
      arg_cong [OF assms(4), of int] by simp_all
  have "int (five (m0, m1, m2, m3, h4 + c3)) = int (five (h0, h1, h2, h3, h4) + 5)"
    unfolding five_def prod.case of_nat_add of_nat_mult of_nat_numeral e by (simp add: algebra_simps)
  then show ?thesis by (rule of_nat_eq_iff [THEN iffD1])
qed

lemma poly_reduce_value:
  assumes "below 67108864 67108864 h"
  shows "below 67108864 67108864 (poly_reduce h)" "five (nats (poly_reduce h)) = five (nats h) mod P1305"
proof -
  obtain h0 h1 h2 h3 h4 where e: "h = (h0, h1, h2, h3, h4)" by (cases h) blast
  have b: "unat h0 < 67108864" "unat h1 < 67108864" "unat h2 < 67108864" "unat h3 < 67108864" "unat h4 < 67108864"
    using assms by (simp_all add: e below_def)
  define g0 where "g0 = h0 + 5"
  define c0 where "c0 = drop_bit 26 g0"
  define g1 where "g1 = h1 + c0"
  define c1 where "c1 = drop_bit 26 g1"
  define g2 where "g2 = h2 + c1"
  define c2 where "c2 = drop_bit 26 g2"
  define g3 where "g3 = h3 + c2"
  define c3 where "c3 = drop_bit 26 g3"
  define g4 where "g4 = h4 + c3 - push_bit 26 1"
  define k where "k = drop_bit 31 g4 - 1"
  have eq: "poly_reduce h = ((h0 AND NOT k) OR ((g0 AND 0x3FFFFFF) AND k), (h1 AND NOT k) OR ((g1 AND 0x3FFFFFF) AND k),
      (h2 AND NOT k) OR ((g2 AND 0x3FFFFFF) AND k), (h3 AND NOT k) OR ((g3 AND 0x3FFFFFF) AND k), (h4 AND NOT k) OR (g4 AND k))"
    unfolding poly_reduce_def Let_def prod.case e
    by (simp only: g0_def [symmetric] c0_def [symmetric] g1_def [symmetric] c1_def [symmetric] g2_def [symmetric]
        c2_def [symmetric] g3_def [symmetric] c3_def [symmetric] g4_def [symmetric] k_def [symmetric])
  have g0: "unat g0 = unat h0 + 5" unfolding g0_def by (subst unat_plus) (use b in simp_all)
  have c0: "unat c0 = unat g0 div 67108864" unfolding c0_def unat_shift by simp
  have c0b: "unat c0 \<le> 1" unfolding c0 using b g0 by linarith
  have g1: "unat g1 = unat h1 + unat c0" unfolding g1_def by (rule unat_plus) (use b c0b in simp)
  have c1: "unat c1 = unat g1 div 67108864" unfolding c1_def unat_shift by simp
  have c1b: "unat c1 \<le> 1" unfolding c1 using b g1 c0b by linarith
  have g2: "unat g2 = unat h2 + unat c1" unfolding g2_def by (rule unat_plus) (use b c1b in simp)
  have c2: "unat c2 = unat g2 div 67108864" unfolding c2_def unat_shift by simp
  have c2b: "unat c2 \<le> 1" unfolding c2 using b g2 c1b by linarith
  have g3: "unat g3 = unat h3 + unat c2" unfolding g3_def by (rule unat_plus) (use b c2b in simp)
  have c3: "unat c3 = unat g3 div 67108864" unfolding c3_def unat_shift by simp
  have c3b: "unat c3 \<le> 1" unfolding c3 using b g3 c2b by linarith
  let ?x = "unat h4 + unat c3"
  have x: "unat (h4 + c3) = ?x" by (rule unat_plus) (use b c3b in simp)
  have sum: "five (unat g0 mod 67108864, unat g1 mod 67108864, unat g2 mod 67108864, unat g3 mod 67108864, ?x) = five (nats h) + 5"
    unfolding e nats_def prod.case
    by (rule five_carries [where ?c0.0 = "unat c0" and ?c1.0 = "unat c1" and ?c2.0 = "unat c2"])
       (simp_all only: c0 c1 c2 c3 mult_div_mod_eq g0 [symmetric] g1 [unfolded c0, symmetric]
          g2 [unfolded c1, symmetric] g3 [unfolded c2, symmetric])
  show "below 67108864 67108864 (poly_reduce h)" "five (nats (poly_reduce h)) = five (nats h) mod P1305"
  proof (atomize (full), cases "?x < 67108864")
    case True
    have "- push_bit 26 1 = (4227858432 :: u32)" by simp
    then have "g4 = h4 + c3 + 4227858432" unfolding g4_def by (metis add_uminus_conv_diff)
    then have "unat g4 = ?x + 4227858432" using True by (simp only: x [symmetric]) (subst unat_plus, simp_all)
    then have "unat (drop_bit 31 g4) = 1" unfolding unat_shift using True by (simp add: div_nat_eqI)
    then have "drop_bit 31 g4 = 1" by (metis unsigned_1 word_unat_eq_iff)
    then have "k = 0" by (simp only: k_def) simp
    then have r: "poly_reduce h = h" unfolding eq by (simp add: e)
    have "five (nats h) + 5 < 2 ^ 130" unfolding sum [symmetric] by (rule five_less) (use True in simp_all)
    then show "below 67108864 67108864 (poly_reduce h) \<and> five (nats (poly_reduce h)) = five (nats h) mod P1305"
      using assms r by simp
  next
    case False
    then have "?x = 67108864" using b c3b by linarith
    then have "unat (h4 + c3) = unat (67108864 :: u32)" using x by simp
    then have "h4 + c3 = 67108864" by (simp only: word_unat_eq_iff)
    then have g4: "g4 = 0" by (simp add: g4_def)
    then have "k = - 1" by (simp add: k_def)
    then have r: "poly_reduce h = (g0 AND 0x3FFFFFF, g1 AND 0x3FFFFFF, g2 AND 0x3FFFFFF, g3 AND 0x3FFFFFF, 0)"
      unfolding eq by (simp add: g4)
    let ?g = "five (unat g0 mod 67108864, unat g1 mod 67108864, unat g2 mod 67108864, unat g3 mod 67108864, 0)"
    have "five (nats h) = ?g + P1305" using sum \<open>?x = 67108864\<close> by (simp add: five_def)
    moreover have "?g < P1305" by (simp add: five_def) 
    ultimately have "five (nats h) mod P1305 = ?g" by simp
    moreover have "nats (poly_reduce h) = (unat g0 mod 67108864, unat g1 mod 67108864, unat g2 mod 67108864, unat g3 mod 67108864, 0)"
      unfolding r nats_def prod.case unat_and26 by simp
    ultimately show "below 67108864 67108864 (poly_reduce h) \<and> five (nats (poly_reduce h)) = five (nats h) mod P1305"
      unfolding r below_def by (simp add: unat_and26)
  qed
qed

lemma digit_of_five:
  assumes "a < 67108864" "b < 67108864" "c < 67108864" "d < 67108864" "e < 67108864"
  defines "n \<equiv> five (a, b, c, d, e)"
  shows "a = take_bit 26 n" "b = take_bit 26 (drop_bit 26 n)" "c = take_bit 26 (drop_bit 52 n)"
    "d = take_bit 26 (drop_bit 78 n)" "e = take_bit 26 (drop_bit 104 n)"
proof -
  have n: "n = a + 67108864 * (b + 67108864 * (c + 67108864 * (d + 67108864 * e)))"
    by (simp add: n_def five_def algebra_simps)
  have s: "drop_bit 26 (x + 67108864 * y) = y" "take_bit 26 (x + 67108864 * y) = x" if "x < 67108864" for x y :: nat
    using that by (simp_all add: drop_bit_eq_div take_bit_eq_mod)
  have d: "drop_bit 52 m = drop_bit 26 (drop_bit 26 m)" "drop_bit 78 m = drop_bit 26 (drop_bit 26 (drop_bit 26 m))"
    "drop_bit 104 m = drop_bit 26 (drop_bit 26 (drop_bit 26 (drop_bit 26 m)))" for m :: nat
    by (simp_all add: drop_bit_drop_bit)
  show "a = take_bit 26 n" "b = take_bit 26 (drop_bit 26 n)" "c = take_bit 26 (drop_bit 52 n)"
    "d = take_bit 26 (drop_bit 78 n)" "e = take_bit 26 (drop_bit 104 n)"
    unfolding d n by (simp_all only: s assms) (use assms in \<open>simp add: take_bit_eq_mod\<close>)
qed

lemma tag_piece:
  assumes "unat x = take_bit 26 (drop_bit a n)" "unat y = take_bit 26 (drop_bit (a + 26) n)" "k + r = 26" "k \<le> 20"
  shows "unat ((ucast (drop_bit k x) OR push_bit r (ucast y)) AND 0xFFFFFFFF :: u64) = take_bit 32 (drop_bit (a + k) n)"
proof -
  have m: "(0xFFFFFFFF :: u64) = mask 32" by (simp add: mask_eq_exp_minus_1)
  have xb: "bit x j \<longleftrightarrow> j < 26 \<and> bit n (a + j)" for j
    using arg_cong [OF assms(1), of "\<lambda>z. bit z j"] by (auto simp: bit_simps)
  have yb: "bit y j \<longleftrightarrow> j < 26 \<and> bit n (a + 26 + j)" for j
    using arg_cong [OF assms(2), of "\<lambda>z. bit z j"] by (auto simp: bit_simps)
  show ?thesis
  proof (rule bit_eqI)
    fix j
    have ix: "a + (j + 26) - r = a + (j + k)" using assms(3) by simp
    have "bit ((ucast (drop_bit k x) OR push_bit r (ucast y)) AND 0xFFFFFFFF :: u64) j \<longleftrightarrow> j < 32 \<and> bit n (a + k + j)"
      unfolding m using assms(3,4)
      by (auto simp: bit_simps xb yb ac_simps ix)
    then show "bit (unat ((ucast (drop_bit k x) OR push_bit r (ucast y)) AND 0xFFFFFFFF :: u64)) j =
        bit (take_bit 32 (drop_bit (a + k) n)) j"
      by (auto simp: bit_simps)
  qed
qed

lemma le_store32: "le (store32 v) = unat v"
proof -
  have b: "unat (ucast (drop_bit k v) :: u8) = take_bit 8 (drop_bit k (unat v))" for k
    by (simp only: unsigned_ucast_eq unat_drop_bit_eq) simp
  have b0: "unat (ucast v :: u8) = take_bit 8 (unat v)" using b [of 0] by simp
  define x where "x = unat v"
  have x: "x < 2 ^ 32" using unat_u32_less [of v] by (simp add: x_def)
  have "take_bit 8 x + 256 * (take_bit 8 (drop_bit 8 x) + 256 * (take_bit 8 (drop_bit 16 x) + 256 * take_bit 8 (drop_bit 24 x))) = x"
  proof -
    have d: "drop_bit 16 x = drop_bit 8 (drop_bit 8 x)" "drop_bit 24 x = drop_bit 8 (drop_bit 8 (drop_bit 8 x))"
      by (simp_all add: drop_bit_drop_bit)
    have r: "take_bit 8 y + 256 * drop_bit 8 y = y" for y :: nat by (simp add: take_bit_eq_mod drop_bit_eq_div)
    have "drop_bit 8 (drop_bit 8 (drop_bit 8 x)) < 256" using x by (simp add: drop_bit_eq_div div_mult2_eq [symmetric])
    then have t: "take_bit 8 (drop_bit 8 (drop_bit 8 (drop_bit 8 x))) = drop_bit 8 (drop_bit 8 (drop_bit 8 x))"
      by (intro take_bit_nat_eq_self) simp
    show ?thesis unfolding d t r ..
  qed
  then show ?thesis by (simp only: store32_def le.simps b b0 x_def mult_0_right add_0_right)
qed

lemma length_store32 [simp]: "length (store32 v) = 4"
  by (simp add: store32_def)

lemma word_digits:
  "take_bit 32 a + 2 ^ 32 * (take_bit 32 (drop_bit 32 a) + 2 ^ 32 * (take_bit 32 (drop_bit 64 a) + 2 ^ 32 * take_bit 32 (drop_bit 96 a)))
     = take_bit 128 (a :: nat)"
proof -
  have r: "take_bit 32 y + 2 ^ 32 * take_bit k (drop_bit 32 y) = take_bit (32 + k) y" for k and y :: nat
  proof (rule bit_eqI)
    fix n
    have "take_bit 32 y + 2 ^ 32 * take_bit k (drop_bit 32 y) = take_bit 32 y + push_bit 32 (take_bit k (drop_bit 32 y))"
      by (simp add: push_bit_eq_mult)
    also have "\<dots> = take_bit 32 y OR push_bit 32 (take_bit k (drop_bit 32 y))"
      by (rule disjunctive_add) (auto simp: bit_simps)
    finally show "bit (take_bit 32 y + 2 ^ 32 * take_bit k (drop_bit 32 y)) n = bit (take_bit (32 + k) y) n"
      by (auto simp: bit_simps)
  qed
  have d: "drop_bit 64 a = drop_bit 32 (drop_bit 32 a)" "drop_bit 96 a = drop_bit 32 (drop_bit 32 (drop_bit 32 a))"
    by (simp_all add: drop_bit_drop_bit)
  show ?thesis unfolding d r by simp
qed

lemma words_of_sum:
  fixes f0 f1 f2 f3 a0 a1 a2 a3 :: nat
  assumes "f0 = a0" "f1 = a1 + f0 div 2 ^ 32" "f2 = a2 + f1 div 2 ^ 32" "f3 = a3 + f2 div 2 ^ 32"
  shows "f0 mod 2 ^ 32 + 2 ^ 32 * (f1 mod 2 ^ 32 + 2 ^ 32 * (f2 mod 2 ^ 32 + 2 ^ 32 * (f3 mod 2 ^ 32))) =
    (a0 + 2 ^ 32 * (a1 + 2 ^ 32 * (a2 + 2 ^ 32 * a3))) mod 2 ^ 128"
proof -
  have st: "(x + 2 ^ 32 * y) mod (2 ^ (32 + k)) = x mod 2 ^ 32 + 2 ^ 32 * ((y + x div 2 ^ 32) mod 2 ^ k)" for x y k :: nat
  proof -
    have m: "(u + 2 ^ 32 * v) mod 2 ^ (32 + k) = u + 2 ^ 32 * (v mod 2 ^ k)" if "u < 2 ^ 32" for u v :: nat
      using that by (simp add: power_add mod_mult2_eq)
    have e: "x + 2 ^ 32 * y = x mod 2 ^ 32 + 2 ^ 32 * (y + x div 2 ^ 32)" by (simp add: algebra_simps)
    show ?thesis by (subst e, rule m) simp
  qed
  have "(a0 + 2 ^ 32 * (a1 + 2 ^ 32 * (a2 + 2 ^ 32 * a3))) mod 2 ^ 128 =
      f0 mod 2 ^ 32 + 2 ^ 32 * ((f1 + 2 ^ 32 * (a2 + 2 ^ 32 * a3)) mod 2 ^ 96)"
    using st [of a0 "a1 + 2 ^ 32 * (a2 + 2 ^ 32 * a3)" 96] assms by (simp add: ac_simps)
  also have "(f1 + 2 ^ 32 * (a2 + 2 ^ 32 * a3)) mod 2 ^ 96 = f1 mod 2 ^ 32 + 2 ^ 32 * ((f2 + 2 ^ 32 * a3) mod 2 ^ 64)"
    using st [of f1 "a2 + 2 ^ 32 * a3" 64] assms by (simp add: ac_simps)
  also have "(f2 + 2 ^ 32 * a3) mod 2 ^ 64 = f2 mod 2 ^ 32 + 2 ^ 32 * (f3 mod 2 ^ 32)"
    using st [of f2 a3 32] assms by (simp add: ac_simps)
  finally show ?thesis by simp
qed

lemma poly_tag_value:
  assumes "below 67108864 67108864 h" "length key = 32"
  shows "le (poly_tag h key) = (five (nats h) + le (drop 16 key)) mod 2 ^ 128" "length (poly_tag h key) = 16"
proof -
  obtain h0 h1 h2 h3 h4 where e: "h = (h0, h1, h2, h3, h4)" by (cases h) blast
  have b: "unat h0 < 67108864" "unat h1 < 67108864" "unat h2 < 67108864" "unat h3 < 67108864" "unat h4 < 67108864"
    using assms(1) by (simp_all add: e below_def)
  define n where "n = five (unat h0, unat h1, unat h2, unat h3, unat h4)"
  note dg = digit_of_five [OF b, folded n_def]
  define p where "p = le (drop 16 key)"
  have pad: "unat (load32 key (16 + 4 * i)) = take_bit 32 (drop_bit (32 * i) p)" if "i < 4" for i
    using that assms(2) by (subst load32_le) (simp_all add: p_def le_drop drop_bit_eq_div div_mult2_eq [symmetric] power_add)
  define low :: u64 where "low = 0xFFFFFFFF"
  define f0 where "f0 = ((ucast h0 OR push_bit 26 (ucast h1)) AND low) + ucast (load32 key 16)"
  define f1 where "f1 = ((ucast (drop_bit 6 h1) OR push_bit 20 (ucast h2)) AND low) + ucast (load32 key 20) + drop_bit 32 f0"
  define f2 where "f2 = ((ucast (drop_bit 12 h2) OR push_bit 14 (ucast h3)) AND low) + ucast (load32 key 24) + drop_bit 32 f1"
  define f3 where "f3 = ((ucast (drop_bit 18 h3) OR push_bit 8 (ucast h4)) AND low) + ucast (load32 key 28) + drop_bit 32 f2"
  have eq: "poly_tag h key = store32 (ucast f0) @ store32 (ucast f1) @ store32 (ucast f2) @ store32 (ucast f3)"
    unfolding poly_tag_def Let_def prod.case e
    by (simp only: low_def [symmetric] f0_def [symmetric] f1_def [symmetric] f2_def [symmetric] f3_def [symmetric])
  show "length (poly_tag h key) = 16" unfolding eq by simp
  have lt: "take_bit 32 x < 4294967296" for x :: nat using take_bit_nat_less_exp [of 32 x] by simp
  let ?a = "\<lambda>i. take_bit 32 (drop_bit (32 * i) n)" and ?b = "\<lambda>i. take_bit 32 (drop_bit (32 * i) p)"
  have piece: "unat ((ucast h0 OR push_bit 26 (ucast h1)) AND low) = ?a 0"
    "unat ((ucast (drop_bit 6 h1) OR push_bit 20 (ucast h2)) AND low) = ?a 1"
    "unat ((ucast (drop_bit 12 h2) OR push_bit 14 (ucast h3)) AND low) = ?a 2"
    "unat ((ucast (drop_bit 18 h3) OR push_bit 8 (ucast h4)) AND low) = ?a 3"
    using tag_piece [of h0 0 n h1 0 26] tag_piece [of h1 26 n h2 6 20] tag_piece [of h2 52 n h3 12 14]
      tag_piece [of h3 78 n h4 18 8] dg by (simp_all add: low_def)
  have shift: "unat (drop_bit 32 f) = unat f div 2 ^ 32" for f :: u64 by (rule unat_shift)
  have f0: "unat f0 = ?a 0 + ?b 0" unfolding f0_def
    by (subst unat_plus) (use lt [of n] lt [of p] pad [of 0] piece in \<open>simp_all add: unat_widen\<close>)
  have add3: "unat (x + ucast y + z) = unat x + unat y + unat z" if "unat x < 4294967296" "unat z < 4294967296"
    for x z :: u64 and y :: u32
  proof -
    have "unat (x + ucast y) = unat x + unat y"
      using that unat_u32_less [of y] by (subst unat_plus) (simp_all add: unat_widen)
    then show ?thesis using that unat_u32_less [of y] by (subst unat_plus) simp_all
  qed
  have top: "unat f div 2 ^ 32 < 4294967296" for f :: u64
    using unsigned_less [where 'a = nat and w = f] by (simp add: less_mult_imp_div_less)
  have f1: "unat f1 = ?a 1 + ?b 1 + unat f0 div 2 ^ 32" unfolding f1_def
    by (subst add3) (use piece(2) lt top pad [of 1] in \<open>simp_all only: shift\<close>, simp_all)
  have f2: "unat f2 = ?a 2 + ?b 2 + unat f1 div 2 ^ 32" unfolding f2_def
    by (subst add3) (use piece(3) lt top pad [of 2] in \<open>simp_all only: shift\<close>, simp_all)
  have f3: "unat f3 = ?a 3 + ?b 3 + unat f2 div 2 ^ 32" unfolding f3_def
    by (subst add3) (use piece(4) lt top pad [of 3] in \<open>simp_all only: shift\<close>, simp_all)
  have lo: "unat (ucast f :: u32) = unat f mod 2 ^ 32" for f :: u64 by (simp add: unsigned_ucast_eq take_bit_eq_mod)
  have "p < 2 ^ 128" using le_less [of "drop 16 key"] assms(2) by (simp add: p_def)
  then have p: "take_bit 128 p = p" by (rule take_bit_nat_eq_self)
  have "le (poly_tag h key) = unat f0 mod 2 ^ 32 + 2 ^ 32 * (unat f1 mod 2 ^ 32 + 2 ^ 32 * (unat f2 mod 2 ^ 32 + 2 ^ 32 * (unat f3 mod 2 ^ 32)))"
    unfolding eq le_append le_store32 lo length_store32 by simp
  also have "\<dots> = (?a 0 + ?b 0 + 2 ^ 32 * (?a 1 + ?b 1 + 2 ^ 32 * (?a 2 + ?b 2 + 2 ^ 32 * (?a 3 + ?b 3)))) mod 2 ^ 128"
    by (rule words_of_sum [OF f0 f1 f2 f3])
  also have "?a 0 + ?b 0 + 2 ^ 32 * (?a 1 + ?b 1 + 2 ^ 32 * (?a 2 + ?b 2 + 2 ^ 32 * (?a 3 + ?b 3))) = take_bit 128 n + take_bit 128 p"
    unfolding word_digits [symmetric] by (simp add: algebra_simps)
  also have "(take_bit 128 n + take_bit 128 p) mod 2 ^ 128 = (n + p) mod 2 ^ 128"
    unfolding p by (simp only: take_bit_eq_mod mod_add_left_eq)
  finally show "le (poly_tag h key) = (five (nats h) + le (drop 16 key)) mod 2 ^ 128"
    by (simp only: n_def p_def e nats_def prod.case)
qed

text \<open>C5: \<open>poly1305_auth\<close>, with its 26-bit limbs, lazy carries and branch-free reduction,
  computes the authenticator of RFC 8439: the message, in blocks of 16 bytes with a one bit above each,
  is a polynomial that is evaluated at the clamped first half of the key modulo \<open>2 ^ 130 - 5\<close>; the second half
  of the key is added, and the low 128 bits of the sum are the tag, least significant byte first.\<close>

theorem poly1305_correct:
  assumes "length key = 32"
  shows "length (poly1305_auth m key) = 16 \<and>
    le (poly1305_auth m key) = (poly_eval (poly_r key) m 0 mod P1305 + le (drop 16 key)) mod 2 ^ 128"
proof -
  note k = poly_key_value [OF assms]
  have z: "below 67108864 67108928 (0, 0, 0, 0, 0)" "five (nats (0 :: u32, 0 :: u32, 0 :: u32, 0 :: u32, 0 :: u32)) mod P1305 = 0 mod P1305"
    by (simp_all add: below_def nats_def five_def)
  let ?h = "poly_blocks (poly_key key) m (0, 0, 0, 0, 0)"
  have h: "below 67108864 67108928 ?h" "five (nats ?h) mod P1305 = poly_eval (poly_r key) m 0 mod P1305"
    using poly_blocks_value [OF z(1) k(1) z(2), of m] unfolding k(2) by blast+
  note c = poly_carry_last_value [OF h(1)]
  note r = poly_reduce_value [OF c(1)]
  note t = poly_tag_value [OF r(1) assms]
  show ?thesis unfolding poly1305_auth_def t r(2) c(2) h(2) by simp
qed

text \<open>The example of RFC 8439, section 2.5.2.\<close>

definition rfc_poly_key :: "u8 list" where
  "rfc_poly_key = [0x85, 0xd6, 0xbe, 0x78, 0x57, 0x55, 0x6d, 0x33, 0x7f, 0x44, 0x52, 0xfe, 0x42, 0xd5, 0x06, 0xa8,
     0x01, 0x03, 0x80, 0x8a, 0xfb, 0x0d, 0xb2, 0xfd, 0x4a, 0xbf, 0xf6, 0xaf, 0x41, 0x49, 0xf5, 0x1b]"

theorem poly1305_correct_witness:
  "length (poly1305_auth [1, 2, 3] rfc_poly_key) = 16 \<and>
   le (poly1305_auth [1, 2, 3] rfc_poly_key) =
     (poly_eval (poly_r rfc_poly_key) [1, 2, 3] 0 mod P1305 + le (drop 16 rfc_poly_key)) mod 2 ^ 128"
  by (rule poly1305_correct) (simp add: rfc_poly_key_def)

section \<open>Verification\<close>

lemma fold_or_zero:
  fixes f :: "nat \<Rightarrow> u32"
  shows "fold (\<lambda>i d. d OR f i) is d = 0 \<longleftrightarrow> d = 0 \<and> (\<forall>i\<in>set is. f i = 0)"
proof (induction "is" arbitrary: d)
  case (Cons i "is")
  have "d OR f i = 0 \<longleftrightarrow> d = 0 \<and> f i = 0" by (simp add: or_eq_0_iff)
  then show ?case using Cons by auto
qed simp

lemma tag_length: "length (poly1305_auth m key) = 16"
proof -
  obtain h where "poly1305_auth m key = poly_tag h key" by (simp add: poly1305_auth_def)
  then show ?thesis by (cases h) (simp add: poly_tag_def Let_def)
qed

text \<open>C6: \<open>cpt_poly1305_verify\<close> accepts exactly the tag that \<open>cpt_poly1305_auth\<close> computes, although it
  goes through all bytes whether they differ or not.\<close>

theorem poly1305_verify_iff:
  assumes "length key = 32" "length tag = 16" "length src = n"
  shows "cpt_poly1305_verify (Some tag) (Some src) n (Some key) =
    (if cpt_poly1305_auth False (Some 16) (Some src) n (Some key) = conde_done tag then CONDE_OK else CONDE_DATA)"
proof -
  let ?e = "poly1305_auth src key"
  have l: "length ?e = 16" by (rule tag_length)
  have z: "ucast x = (0 :: u32) \<longleftrightarrow> x = 0" for x :: u8
  proof -
    have "unat x < 2 ^ 8" using unsigned_less [where 'a = nat and w = x] by simp
    then have "unat x < 2 ^ 32" by simp
    then show ?thesis by (simp add: word_unat_eq_iff unsigned_ucast_eq take_bit_nat_eq_self)
  qed
  have ball: "(\<forall>i\<in>{0..<16}. P i) \<longleftrightarrow> (\<forall>i<16. P i)" for P :: "nat \<Rightarrow> bool" by auto
  have xz: "x XOR y = 0 \<longleftrightarrow> x = y" for x y :: u8
    by (metis xor.assoc xor.right_neutral xor_self_eq xor.left_neutral)
  have "(\<forall>i<16. ?e ! i XOR tag ! i = 0) \<longleftrightarrow> ?e = tag"
    using l assms(2) xz by (simp add: list_eq_iff_nth_eq)
  then have "fold (\<lambda>i d. d OR ucast (?e ! i XOR tag ! i)) [0..<16] (0 :: u32) = 0 \<longleftrightarrow> ?e = tag"
    unfolding fold_or_zero by (simp add: z ball)
  moreover have "cpt_poly1305_auth False (Some 16) (Some src) n (Some key) = conde_done ?e"
    using assms(3) by (simp add: cpt_poly1305_auth_def null_bytes_def)
  moreover have "conde_done ?e = conde_done tag \<longleftrightarrow> ?e = tag" by (auto simp: conde_done_def)
  ultimately show ?thesis using assms(3) by (simp add: cpt_poly1305_verify_def null_bytes_def Let_def)
qed

theorem poly1305_verify_iff_witness:
  "cpt_poly1305_verify (Some (poly1305_auth [7] rfc_poly_key)) (Some [7]) 1 (Some rfc_poly_key) = CONDE_OK"
proof -
  have l: "length rfc_poly_key = 32" "length (poly1305_auth [7] rfc_poly_key) = 16"
    using tag_length [of "[7]"] by (simp_all add: rfc_poly_key_def)
  from poly1305_verify_iff [OF l, of "[7]" 1] show ?thesis
    by (simp add: cpt_poly1305_auth_def null_bytes_def)
qed

end
