(* ===== verification/Crypt_Checks.thy ===== *)
theory Crypt_Checks
  imports Poly1305
begin

text \<open>
  The examples of RFC 8439 that are small enough to be evaluated by the simplifier, as a check of the
  definitions of \<open>Crypt\<close>.
\<close>

text \<open>Section 2.5.2.\<close>

lemma rfc_poly_tag:
  "poly1305_auth (str ''Cryptographic Forum Research Group'') rfc_poly_key =
     [0xa8, 0x06, 0x1d, 0xc1, 0x30, 0x51, 0x36, 0xc6, 0xc2, 0x2b, 0x8b, 0xaf, 0x0c, 0x01, 0x27, 0xa9]"
  by code_simp

text \<open>The quarter round of RFC 8439, section 2.1.1.\<close>

lemma rfc_quarter_round:
  "QR 0 1 2 3 [0x11111111, 0x01020304, 0x9b8d6f43, 0x01234567] = [0xea2a92f4, 0xcb1cf8ce, 0x4581472e, 0x5881c4bb]"
  by code_simp

end
