(* ===== verification/Kernel_State.thy ===== *)
theory Kernel_State
  imports User_Mem
begin

text \<open>
  The state of the kernel (\<open>foundation/kernel/internal.h\<close>, \<open>foundation/kernel.h\<close> and the static
  variables of its files). Pointers to table entries are indices, \<open>None\<close> the null pointer; a table is
  a function of the index. The idle thread is entry \<open>IDLE\<close> of the thread table. The part
  of \<open>struct fnd_proc\<close> that the memory manager owns is in \<open>mprocs\<close> of \<open>mm\<close>.

  Device registers are outside the program. Their accesses are the list \<open>io\<close>, newest first, and
  what a read returns is a function of the accesses before it: \<open>mrd\<close> of the machine, an argument of
  every definition that reads a register. Nothing is assumed of it except where a lemma says so. The
  machine also has the facts of the build that the code can see: the addresses of the process
  records, whether the CPU has Extension V, whether two byte arrays happen to be word aligned, the drive
  that the kernel was started from, the tick hook (code outside the kernel) and the idle thread's
  stack and code addresses.
\<close>

section \<open>Constants\<close>

abbreviation MAX_PROCS :: nat where "MAX_PROCS \<equiv> 10"
abbreviation MAX_THREADS :: nat where "MAX_THREADS \<equiv> 16"
abbreviation IDLE :: nat where "IDLE \<equiv> MAX_THREADS"
abbreviation MAX_HANDLES :: nat where "MAX_HANDLES \<equiv> 63"
abbreviation MAX_PORTS :: nat where "MAX_PORTS \<equiv> 32"
abbreviation MAX_CHANNELS :: nat where "MAX_CHANNELS \<equiv> 128"
abbreviation MAX_SERVICES :: nat where "MAX_SERVICES \<equiv> 32"
abbreviation FND_REGIONS :: nat where "FND_REGIONS \<equiv> 8"
abbreviation FND_PROC_REGIONS :: nat where "FND_PROC_REGIONS \<equiv> 16"
abbreviation PRIORITIES :: nat where "PRIORITIES \<equiv> 3"
abbreviation PRIO_APP :: nat where "PRIO_APP \<equiv> 2"
abbreviation PRIO_IDLE :: nat where "PRIO_IDLE \<equiv> 3"
abbreviation SLICE_TICKS :: nat where "SLICE_TICKS \<equiv> 1"
abbreviation FND_FOREVER :: u32 where "FND_FOREVER \<equiv> 0xFFFFFFFF"
abbreviation STATUS_PIE :: u32 where "STATUS_PIE \<equiv> 0x02"
abbreviation STATUS_PU :: u32 where "STATUS_PU \<equiv> 0x08"
abbreviation CAP_PRIO :: u32 where "CAP_PRIO \<equiv> 1"
abbreviation CAP_IRQ :: u32 where "CAP_IRQ \<equiv> 2"
abbreviation CAP_DISK :: u32 where "CAP_DISK \<equiv> 4"
abbreviation CAP_SVC :: u32 where "CAP_SVC \<equiv> 8"
abbreviation CAP_MMIO :: u32 where "CAP_MMIO \<equiv> 16"
abbreviation CAP_ALL :: u32 where "CAP_ALL \<equiv> 31"

section \<open>The machine\<close>

datatype io_event = Rd u32 | Wr8 u32 u8 | Wr16 u32 u16 | Wr32 u32 u32

record machine =
  mrd :: "io_event list \<Rightarrow> u32 \<Rightarrow> u32"
  proc_addr :: "nat \<Rightarrow> u32"
  feature_v :: bool
  saved_text_aligned :: bool
  saved_clut_aligned :: bool
  boot_drive :: u32
  tick_hook :: "(u32 \<Rightarrow> u32) option"
  idle_stack :: u32
  idle_code :: u32

section \<open>Threads, processes and objects\<close>

datatype tstate = T_FREE | T_READY | T_RUNNING | T_BLOCKED | T_DEAD
datatype reason = B_NONE | B_SEND | B_REPLY | B_RECV | B_SLEEP | B_WAIT | B_BLK_IO | B_PEC_READ
datatype pstate = PROC_FREE | PROC_LIVE | PROC_EXITED

record ctx_frame =
  regs :: "nat \<Rightarrow> u32"
  epc :: u32
  cstatus :: u32

record msg =
  m_op :: u32
  m_flags :: u32
  m_a0 :: u32
  m_a1 :: u32
  m_a2 :: u32
  m_a3 :: u32
  m_buf :: u32
  m_len :: u32

record thread =
  frame :: ctx_frame
  tstate :: tstate
  reason :: reason
  timed :: bool
  wake_tick :: u32
  priority :: nat
  slice :: nat
  tproc :: nat
  tnext :: "nat option"
  tport :: "nat option"
  seq :: u32
  gen :: u32
  badge :: u32
  req :: msg
  rep :: u32
  rep_buf :: u32
  rep_cap :: u32
  rcv :: u32
  wait_proc :: "nat option"
  wait_thread :: "nat option"
  code_ptr :: u32
  trefs :: nat
  texit_code :: int

text \<open>A handle table entry: its kind with the object it points to.\<close>

datatype handle = H_NONE | H_PORT nat | H_CHANNEL nat | H_PROCESS nat | H_THREAD nat

record proc =
  pstate :: pstate
  pid :: u32
  parent :: u32
  ppriority :: nat
  caps :: u32
  nthreads :: nat
  prefs :: nat
  exit_code :: int
  fault_epc :: u32
  cpu_cycles :: u32
  heap_start :: u32
  heap_end :: u32
  heap_limit :: u32
  heap_region :: nat
  startup_len :: nat
  handles :: "nat \<Rightarrow> handle"
  pname :: "u8 list"

record port =
  pused :: bool
  port_refs :: nat
  gone_head :: "nat option"
  gone_tail :: "nat option"

record chan =
  cused :: bool
  chan_refs :: nat
  cport :: "nat option"
  cbadge :: u32
  gone_next :: "nat option"
  kernel_kind :: nat

record service =
  svc_port :: "nat option"
  svc_name :: "u8 list"

record irq_binding =
  irq_owner :: "nat option"
  irq_port :: "nat option"
  irq_pending :: bool
  irq_delivered :: bool

section \<open>Drivers\<close>

record fb_state =
  fb_opened :: bool
  fb_flags :: u32
  fb_position :: u32
  fb_format :: u32
  saved_enable :: u8
  saved_display :: u8
  saved_format :: u8
  saved_overlay :: u8
  saved_clut :: "u8 list"
  saved_text :: "u8 list"

record sgu_state =
  sgu_opened :: bool
  sgu_rights :: u32
  sgu_position :: u32
  dac_channels :: nat

record sgc_state =
  sgc_opened :: bool
  sgc_rights :: u32
  saved_control :: u32
  saved_sat :: u32
  saved_count :: u32
  saved_gp :: u32

record blk_req =
  br_thread :: nat
  br_drive :: u32
  br_op :: u32
  br_lba :: u32
  br_count :: u32
  br_buf :: u32

section \<open>The kernel\<close>

record kstate =
  mm :: mm_state
  io :: "io_event list"
  threads :: "nat \<Rightarrow> thread"
  current :: nat
  queue_head :: "nat \<Rightarrow> nat option"
  queue_tail :: "nat \<Rightarrow> nat option"
  ticks :: u32
  switches :: u32
  need_resched :: bool
  cpu_last :: u32
  cpu_origin :: u32
  cpu_kernel :: u32
  cpu_idle :: u32
  procs :: "nat \<Rightarrow> proc"
  next_pid :: u32
  startup_blocks :: "nat \<Rightarrow> u8 list"
  ports :: "nat \<Rightarrow> port"
  channels :: "nat \<Rightarrow> chan"
  services :: "nat \<Rightarrow> service"
  next_seq :: u32
  next_lookup_badge :: u32
  irqs :: "nat \<Rightarrow> irq_binding"
  irq_pending_mask :: u32
  send_blocked :: u32
  irqc_enable :: u16
  fb :: fb_state
  sgu :: sgu_state
  sgc :: sgc_state
  blk_queue :: "blk_req list"
  blk_running :: bool
  stop_code :: u32
  panic_entered :: bool

section \<open>Updates of one table entry\<close>

definition upd_thread :: "nat \<Rightarrow> (thread \<Rightarrow> thread) \<Rightarrow> kstate \<Rightarrow> kstate" where
  "upd_thread t f s = s\<lparr>threads := (threads s)(t := f (threads s t))\<rparr>"

definition upd_proc :: "nat \<Rightarrow> (proc \<Rightarrow> proc) \<Rightarrow> kstate \<Rightarrow> kstate" where
  "upd_proc p f s = s\<lparr>procs := (procs s)(p := f (procs s p))\<rparr>"

definition upd_port :: "nat \<Rightarrow> (port \<Rightarrow> port) \<Rightarrow> kstate \<Rightarrow> kstate" where
  "upd_port q f s = s\<lparr>ports := (ports s)(q := f (ports s q))\<rparr>"

definition upd_chan :: "nat \<Rightarrow> (chan \<Rightarrow> chan) \<Rightarrow> kstate \<Rightarrow> kstate" where
  "upd_chan c f s = s\<lparr>channels := (channels s)(c := f (channels s c))\<rparr>"

definition upd_irq :: "nat \<Rightarrow> (irq_binding \<Rightarrow> irq_binding) \<Rightarrow> kstate \<Rightarrow> kstate" where
  "upd_irq n f s = s\<lparr>irqs := (irqs s)(n := f (irqs s n))\<rparr>"

definition upd_mm :: "(mm_state \<Rightarrow> mm_state) \<Rightarrow> kstate \<Rightarrow> kstate" where
  "upd_mm f s = s\<lparr>mm := f (mm s)\<rparr>"

lemmas upd_defs = upd_thread_def upd_proc_def upd_port_def upd_chan_def upd_irq_def upd_mm_def

section \<open>Register accesses\<close>

definition io_write :: "io_event \<Rightarrow> kstate \<Rightarrow> kstate" where
  "io_write e s = s\<lparr>io := e # io s\<rparr>"

definition io_read :: "machine \<Rightarrow> u32 \<Rightarrow> kstate \<Rightarrow> u32 \<times> kstate" where
  "io_read M a s = (mrd M (io s) a, s\<lparr>io := Rd a # io s\<rparr>)"

definition io_read8 :: "machine \<Rightarrow> u32 \<Rightarrow> kstate \<Rightarrow> u8 \<times> kstate" where
  "io_read8 M a s = (case io_read M a s of (v, s) \<Rightarrow> (ucast v, s))"

abbreviation IRQC_PENDING :: u32 where "IRQC_PENDING \<equiv> 0xFFFF0040"
abbreviation IRQC_ENABLE :: u32 where "IRQC_ENABLE \<equiv> 0xFFFF0044"
abbreviation IRQ_TIMER :: nat where "IRQ_TIMER \<equiv> 4"
abbreviation IRQ_IDC :: nat where "IRQ_IDC \<equiv> 2"

text \<open>The mask register of the interrupt controller, which only the kernel writes, is a variable.\<close>

definition irqc_mask :: "nat \<Rightarrow> kstate \<Rightarrow> kstate" where
  "irqc_mask n s = s\<lparr>irqc_enable := irqc_enable s AND NOT (push_bit n 1)\<rparr>"

definition irqc_unmask :: "nat \<Rightarrow> kstate \<Rightarrow> kstate" where
  "irqc_unmask n s = s\<lparr>irqc_enable := irqc_enable s OR push_bit n 1\<rparr>"

definition irqc_ack :: "nat \<Rightarrow> kstate \<Rightarrow> kstate" where
  "irqc_ack n s = io_write (Wr16 IRQC_PENDING (push_bit n 1)) s"

end
