(* ===== verification/Linked_Queue.thy ===== *)
theory Linked_Queue
  imports Main
begin

text \<open>
  First-in first-out queues as an interface, and the intrusive singly linked list with a head and a
  tail pointer that the kernel uses for its ready queues and for the pending CLIENT_GONE
  notifications. The links are a function from an element to the next one.
\<close>

section \<open>The interface\<close>

text \<open>\<open>rep s xs\<close>: the queue in state \<open>s\<close> holds \<open>xs\<close>, oldest first. \<open>fits s xs x\<close>: \<open>x\<close> may be put.\<close>

locale fifo =
  fixes rep :: "'s \<Rightarrow> 'a list \<Rightarrow> bool"
    and fits :: "'a list \<Rightarrow> 'a \<Rightarrow> bool"
    and put :: "'a \<Rightarrow> 's \<Rightarrow> 's"
    and get :: "'s \<Rightarrow> ('a \<times> 's) option"
  assumes rep_put: "rep s xs \<Longrightarrow> fits xs x \<Longrightarrow> rep (put x s) (xs @ [x])"
    and get_empty: "rep s [] \<Longrightarrow> get s = None"
    and get_first: "rep s (x # xs) \<Longrightarrow> \<exists>s'. get s = Some (x, s') \<and> rep s' xs"
begin

fun put_all :: "'a list \<Rightarrow> 's \<Rightarrow> 's" where
  "put_all [] s = s"
| "put_all (x # xs) s = put_all xs (put x s)"

fun take_out :: "nat \<Rightarrow> 's \<Rightarrow> 'a list" where
  "take_out 0 s = []"
| "take_out (Suc n) s = (case get s of None \<Rightarrow> [] | Some (x, s') \<Rightarrow> x # take_out n s')"

fun all_fit :: "'a list \<Rightarrow> 'a list \<Rightarrow> bool" where
  "all_fit xs [] = True"
| "all_fit xs (y # ys) = (fits xs y \<and> all_fit (xs @ [y]) ys)"

lemma rep_put_all: "rep s xs \<Longrightarrow> all_fit xs ys \<Longrightarrow> rep (put_all ys s) (xs @ ys)"
proof (induction ys arbitrary: xs s)
  case (Cons y ys)
  have "rep (put_all ys (put y s)) ((xs @ [y]) @ ys)"
    using Cons.prems by (intro Cons.IH rep_put) simp_all
  then show ?case by simp
qed simp

lemma take_out_rep: "rep s xs \<Longrightarrow> take_out n s = take n xs"
proof (induction n arbitrary: s xs)
  case (Suc n)
  show ?case
  proof (cases xs)
    case Nil
    then show ?thesis using Suc.prems by (simp add: get_empty)
  next
    case (Cons x ys)
    then obtain s' where "get s = Some (x, s')" "rep s' ys" using get_first Suc.prems by blast
    then show ?thesis using Suc.IH Cons by simp
  qed
qed simp

text \<open>What goes in comes out, all of it, once, in the same order.\<close>

lemma fifo_order:
  assumes "rep s xs" "all_fit xs ys"
  shows "take_out n (put_all ys s) = take n (xs @ ys)"
  by (rule take_out_rep [OF rep_put_all [OF assms]])

end

section \<open>Linked lists with a tail pointer\<close>

fun linked :: "('a \<Rightarrow> 'a option) \<Rightarrow> 'a option \<Rightarrow> 'a list \<Rightarrow> bool" where
  "linked nx h [] \<longleftrightarrow> h = None"
| "linked nx h (x # xs) \<longleftrightarrow> h = Some x \<and> linked nx (nx x) xs"

definition queue_rep :: "('a \<Rightarrow> 'a option) \<Rightarrow> 'a option \<Rightarrow> 'a option \<Rightarrow> 'a list \<Rightarrow> bool" where
  "queue_rep nx h last_p xs \<longleftrightarrow> linked nx h xs \<and> distinct xs \<and> last_p = (if xs = [] then None else Some (last xs))"

lemma linked_cong: "(\<And>x. x \<in> set xs \<Longrightarrow> nx x = nx' x) \<Longrightarrow> linked nx h xs = linked nx' h xs"
  by (induction xs arbitrary: h) simp_all

lemma linked_upd [simp]: "x \<notin> set xs \<Longrightarrow> linked (nx(x := v)) h xs = linked nx h xs"
  by (rule linked_cong) auto

lemma linked_unique: "linked nx h xs \<Longrightarrow> linked nx h ys \<Longrightarrow> xs = ys"
proof (induction xs arbitrary: h ys)
  case Nil
  then show ?case by (cases ys) auto
next
  case (Cons x xs)
  then show ?case by (cases ys) auto
qed

lemma linked_last_None: "linked nx h xs \<Longrightarrow> xs \<noteq> [] \<Longrightarrow> nx (last xs) = None"
  by (induction xs arbitrary: h) (auto split: if_splits)

lemma queue_rep_unique: "queue_rep nx h last_p xs \<Longrightarrow> queue_rep nx h last_p' ys \<Longrightarrow> xs = ys"
  using linked_unique by (auto simp: queue_rep_def)

lemma queue_rep_cong:
  "(\<And>x. x \<in> set xs \<Longrightarrow> nx x = nx' x) \<Longrightarrow> queue_rep nx h last_p xs = queue_rep nx' h last_p xs"
  by (simp add: queue_rep_def cong: linked_cong)

lemma queue_rep_empty [simp]: "queue_rep nx h last_p [] \<longleftrightarrow> h = None \<and> last_p = None"
  by (simp add: queue_rep_def)

lemma linked_extend:
  assumes "linked nx h xs" "distinct xs" "xs \<noteq> []" "x \<notin> set xs"
  shows "linked (nx(x := None, last xs := Some x)) h (xs @ [x])"
  using assms
proof (induction xs arbitrary: h)
  case (Cons y ys)
  show ?case
  proof (cases "ys = []")
    case False
    have "linked (nx(x := None, last ys := Some x)) (nx y) (ys @ [x])"
      by (rule Cons.IH) (use Cons.prems False in auto)
    moreover have "y \<noteq> last ys" "y \<noteq> x" using Cons.prems False by auto
    ultimately show ?thesis using Cons.prems False by (simp add: fun_upd_def)
  qed (use Cons.prems in auto)
qed simp

lemma queue_put:
  assumes "queue_rep nx h last_p xs" "x \<notin> set xs"
  shows "queue_rep (case last_p of Some l \<Rightarrow> nx(x := None, l := Some x) | None \<Rightarrow> nx(x := None))
     (case last_p of Some l \<Rightarrow> h | None \<Rightarrow> Some x) (Some x) (xs @ [x])"
proof (cases "xs = []")
  case True
  then show ?thesis using assms by (simp add: queue_rep_def)
next
  case False
  then show ?thesis using assms linked_extend [of nx h xs x] by (simp add: queue_rep_def)
qed

lemma queue_push:
  assumes "queue_rep nx h last_p xs" "x \<notin> set xs"
  shows "queue_rep (nx(x := h)) (Some x) (case last_p of None \<Rightarrow> Some x | Some l \<Rightarrow> last_p) (x # xs)"
  using assms by (auto simp: queue_rep_def)

lemma queue_get:
  assumes "queue_rep nx h last_p (x # xs)"
  shows "h = Some x" "queue_rep (nx(x := None)) (nx x) (if nx x = None then None else last_p) xs"
proof -
  show "h = Some x" using assms by (simp add: queue_rep_def)
  have "nx x = None \<longleftrightarrow> xs = []" using assms by (cases xs) (auto simp: queue_rep_def)
  then show "queue_rep (nx(x := None)) (nx x) (if nx x = None then None else last_p) xs"
    using assms by (auto simp: queue_rep_def)
qed

text \<open>The list as a queue on its own: links, head and tail.\<close>

definition list_put :: "'a \<Rightarrow> ('a \<Rightarrow> 'a option) \<times> 'a option \<times> 'a option \<Rightarrow> ('a \<Rightarrow> 'a option) \<times> 'a option \<times> 'a option"
  where
  "list_put x q = (case q of (nx, h, last_p) \<Rightarrow>
     (case last_p of Some l \<Rightarrow> nx(x := None, l := Some x) | None \<Rightarrow> nx(x := None),
      case last_p of Some l \<Rightarrow> h | None \<Rightarrow> Some x, Some x))"

definition list_get :: "('a \<Rightarrow> 'a option) \<times> 'a option \<times> 'a option
    \<Rightarrow> ('a \<times> ('a \<Rightarrow> 'a option) \<times> 'a option \<times> 'a option) option" where
  "list_get q = (case q of (nx, h, last_p) \<Rightarrow> (case h of None \<Rightarrow> None
     | Some x \<Rightarrow> Some (x, nx(x := None), nx x, if nx x = None then None else last_p)))"

interpretation links: fifo "\<lambda>(nx, h, last_p). queue_rep nx h last_p" "\<lambda>xs x. x \<notin> set xs" list_put list_get
proof (unfold_locales, goal_cases)
  case (1 s xs x)
  then show ?case by (cases s) (use queue_put in \<open>simp add: list_put_def\<close>)
next
  case (2 s)
  then show ?case by (cases s) (simp add: list_get_def)
next
  case (3 s x xs)
  obtain nx h l where s: "s = (nx, h, l)" by (cases s)
  then have "queue_rep nx h l (x # xs)" using 3 by simp
  from queue_get [OF this] show ?case by (auto simp: s list_get_def)
qed

end
