(* ===== verification/Sched.thy ===== *)
theory Sched
  imports Kernel_State Linked_Queue
begin

text \<open>
  The scheduler (\<open>foundation/kernel/sched.c\<close>): three queued priorities with linked ready
  queues, round robin inside each, a time slice of one tick, and the accounting clock.
  \<open>sched_tick\<close>, which calls into IPC, is in \<open>Ipc\<close>.
\<close>

section \<open>The accounting clock\<close>

abbreviation CPU_CLOCK_LO :: u32 where "CPU_CLOCK_LO \<equiv> 0x80040448"
abbreviation TIMER0_CTRL :: u32 where "TIMER0_CTRL \<equiv> 0x80040400"
abbreviation TIMER_ACK :: u32 where "TIMER_ACK \<equiv> 0x8004018C"
abbreviation TIMER_ENABLE :: u32 where "TIMER_ENABLE \<equiv> 0x80040184"
abbreviation TICK_CYCLES :: u32 where "TICK_CYCLES \<equiv> 480000"

definition sched_cpu_enter :: "machine \<Rightarrow> kstate \<Rightarrow> kstate" where
  "sched_cpu_enter M s =
     (let (now, s) = io_read M CPU_CLOCK_LO s; elapsed = now - cpu_last s;
          s = (if current s = IDLE then s\<lparr>cpu_idle := cpu_idle s + elapsed\<rparr>
               else upd_proc (tproc (threads s (current s))) (\<lambda>q. q\<lparr>cpu_cycles := cpu_cycles q + elapsed\<rparr>) s)
      in s\<lparr>cpu_last := now\<rparr>)"

definition sched_cpu_leave :: "machine \<Rightarrow> kstate \<Rightarrow> kstate" where
  "sched_cpu_leave M s =
     (let (now, s) = io_read M CPU_CLOCK_LO s in
      s\<lparr>cpu_kernel := cpu_kernel s + (now - cpu_last s), cpu_last := now\<rparr>)"

definition sched_cpu_snapshot :: "machine \<Rightarrow> kstate \<Rightarrow> u32 list \<times> kstate" where
  "sched_cpu_snapshot M s =
     (let s = sched_cpu_leave M s in
      ([cpu_last s - cpu_origin s, cpu_kernel s, cpu_idle s, 48000000], s))"

text \<open>One pair of performance counters; the retry on a rollover may go on as long as the hardware
  makes it, so that it is a partial function.\<close>

partial_function (option) perf_pair :: "machine \<Rightarrow> u32 \<Rightarrow> kstate \<Rightarrow> ((u32 \<times> u32) \<times> kstate) option" where
  "perf_pair M a s =
     (case io_read M (a + 4) s of (hi_before, s) \<Rightarrow>
      case io_read M a s of (lo, s) \<Rightarrow>
      case io_read M (a + 4) s of (hi_after, s) \<Rightarrow>
        if hi_before \<noteq> hi_after then perf_pair M a s else Some ((lo, hi_after), s))"

fun perf_pairs :: "machine \<Rightarrow> u32 list \<Rightarrow> kstate \<Rightarrow> (u32 list \<times> kstate) option" where
  "perf_pairs M [] s = Some ([], s)"
| "perf_pairs M (a # as) s =
     (case perf_pair M a s of None \<Rightarrow> None | Some ((lo, hi), s) \<Rightarrow>
       (case perf_pairs M as s of None \<Rightarrow> None | Some (ws, s) \<Rightarrow> Some (lo # hi # ws, s)))"

definition sched_perf_snapshot :: "machine \<Rightarrow> kstate \<Rightarrow> (u32 list \<times> kstate) option" where
  "sched_perf_snapshot M s =
     perf_pairs M (map (\<lambda>i. 0xFFFF02A0 + 8 * of_nat i) [0..<8]) s"

section \<open>Threads\<close>

definition init_idle :: "u32 \<Rightarrow> u32 \<Rightarrow> kstate \<Rightarrow> kstate" where
  "init_idle idle_stack_end idle_loop s =
     (upd_thread IDLE (\<lambda>t. t\<lparr>frame := \<lparr>regs = (\<lambda>_. 0)(28 := idle_stack_end), epc = idle_loop,
        cstatus = STATUS_PIE\<rparr>, priority := PRIO_IDLE, tstate := T_RUNNING\<rparr>) s)\<lparr>current := IDLE\<rparr>"

definition thread_reusable :: "kstate \<Rightarrow> nat \<Rightarrow> bool" where
  "thread_reusable s t \<longleftrightarrow>
     (tstate (threads s t) = T_FREE \<or> tstate (threads s t) = T_DEAD) \<and> t \<noteq> current s \<and> trefs (threads s t) = 0"

definition sched_alloc_thread :: "kstate \<Rightarrow> nat option \<times> kstate" where
  "sched_alloc_thread s =
     (case find (thread_reusable s) [0..<MAX_THREADS] of
        None \<Rightarrow> (None, s)
      | Some t \<Rightarrow>
          (Some t, upd_thread t (\<lambda>x. x\<lparr>tstate := T_FREE, wait_proc := None, wait_thread := None,
             reason := B_NONE, timed := False, tnext := None, slice := SLICE_TICKS\<rparr>) s))"

section \<open>The ready queues\<close>

definition enqueue :: "nat \<Rightarrow> bool \<Rightarrow> kstate \<Rightarrow> kstate" where
  "enqueue t at_head s =
     (let p = priority (threads s t); s = upd_thread t (\<lambda>x. x\<lparr>tstate := T_READY\<rparr>) s in
      if at_head then
        let s = upd_thread t (\<lambda>x. x\<lparr>tnext := queue_head s p\<rparr>) s;
            s = s\<lparr>queue_head := (queue_head s)(p := Some t)\<rparr>
        in (if queue_tail s p = None then s\<lparr>queue_tail := (queue_tail s)(p := Some t)\<rparr> else s)
      else
        let s = upd_thread t (\<lambda>x. x\<lparr>tnext := None\<rparr>) s;
            s = (case queue_tail s p of
                   Some l \<Rightarrow> upd_thread l (\<lambda>x. x\<lparr>tnext := Some t\<rparr>) s
                 | None \<Rightarrow> s\<lparr>queue_head := (queue_head s)(p := Some t)\<rparr>)
        in s\<lparr>queue_tail := (queue_tail s)(p := Some t)\<rparr>)"

text \<open>One round of the loop of \<open>dequeue\<close>: the head of queue \<open>p\<close> is unlinked.\<close>

definition unlink_head :: "nat \<Rightarrow> nat \<Rightarrow> kstate \<Rightarrow> kstate" where
  "unlink_head p t s =
     (let s = s\<lparr>queue_head := (queue_head s)(p := tnext (threads s t))\<rparr>;
          s = (if queue_head s p = None then s\<lparr>queue_tail := (queue_tail s)(p := None)\<rparr> else s)
      in upd_thread t (\<lambda>x. x\<lparr>tnext := None\<rparr>) s)"

text \<open>The inner loop of \<open>dequeue\<close> on one priority. A cyclic link would keep it busy for ever, so that
  it is a partial function; the queue invariant gives its termination (\<open>dequeue_at_queue\<close>).\<close>

partial_function (option) dequeue_at :: "nat \<Rightarrow> kstate \<Rightarrow> (nat option \<times> kstate) option" where
  "dequeue_at p s =
     (case queue_head s p of
        None \<Rightarrow> Some (None, s)
      | Some t \<Rightarrow>
          if tstate (threads (unlink_head p t s) t) = T_READY then Some (Some t, unlink_head p t s)
          else dequeue_at p (unlink_head p t s))"

fun dequeue_from :: "nat list \<Rightarrow> kstate \<Rightarrow> (nat option \<times> kstate) option" where
  "dequeue_from [] s = Some (None, s)"
| "dequeue_from (p # ps) s =
     (case dequeue_at p s of
        None \<Rightarrow> None
      | Some (Some t, s) \<Rightarrow> Some (Some t, s)
      | Some (None, s) \<Rightarrow> dequeue_from ps s)"

definition dequeue :: "kstate \<Rightarrow> (nat option \<times> kstate) option" where
  "dequeue s = dequeue_from [0..<PRIORITIES] s"

definition urge :: "nat \<Rightarrow> kstate \<Rightarrow> kstate" where
  "urge t s = (if priority (threads s t) < priority (threads s (current s)) then s\<lparr>need_resched := True\<rparr> else s)"

definition sched_wake :: "nat \<Rightarrow> int \<Rightarrow> kstate \<Rightarrow> kstate" where
  "sched_wake t result s =
     urge t (enqueue t False (upd_thread t (\<lambda>x. x\<lparr>
       frame := (frame x)\<lparr>regs := (regs (frame x))(1 := word_of_int result)\<rparr>,
       reason := B_NONE, timed := False\<rparr>) s))"

definition sched_make_ready :: "nat \<Rightarrow> kstate \<Rightarrow> kstate" where
  "sched_make_ready t s =
     urge t (enqueue t False
       (if PRIORITIES \<le> priority (threads s t) then upd_thread t (\<lambda>x. x\<lparr>priority := PRIO_APP\<rparr>) s else s))"

definition sched_timer_start :: "machine \<Rightarrow> u32 \<Rightarrow> u32 \<Rightarrow> bool \<Rightarrow> kstate \<Rightarrow> kstate" where
  "sched_timer_start M idle_stack_end idle_loop has_current s =
     (let s = (if has_current then s else init_idle idle_stack_end idle_loop s);
          s = fold io_write
            [Wr32 TIMER0_CTRL 0x10, Wr32 0x80040420 0, Wr32 0x80040414 0, Wr32 0x80040410 TICK_CYCLES,
             Wr32 0x8004041C 0, Wr32 0x80040418 TICK_CYCLES, Wr32 TIMER_ACK 1, Wr32 TIMER0_CTRL 0x0D,
             Wr32 0x80040440 0x10, Wr32 0x80040460 0, Wr32 0x80040440 6, Wr32 TIMER_ENABLE 3] s;
          (now, s) = io_read M CPU_CLOCK_LO s;
          s = s\<lparr>cpu_last := now, cpu_origin := now\<rparr>
      in (irqc_ack IRQ_TIMER s)\<lparr>irqc_enable := push_bit IRQ_TIMER 1\<rparr>)"

definition sched_timer_stop :: "kstate \<Rightarrow> kstate" where
  "sched_timer_stop s =
     irqc_ack IRQ_TIMER (fold io_write [Wr32 TIMER0_CTRL 0, Wr32 TIMER_ENABLE 0, Wr32 TIMER_ACK 1]
       (s\<lparr>irqc_enable := 0\<rparr>))"

definition sched_yield :: "kstate \<Rightarrow> kstate" where
  "sched_yield s = (upd_thread (current s) (\<lambda>x. x\<lparr>slice := 0\<rparr>) s)\<lparr>need_resched := True\<rparr>"

definition sched_block :: "nat \<Rightarrow> reason \<Rightarrow> u32 \<Rightarrow> kstate \<Rightarrow> kstate" where
  "sched_block t why timeout s =
     upd_thread t (\<lambda>x. x\<lparr>tstate := T_BLOCKED, reason := why, timed := timeout \<noteq> FND_FOREVER,
       wake_tick := ticks s + timeout,
       frame := (frame x)\<lparr>regs := (regs (frame x))(1 := word_of_int FND_OK)\<rparr>\<rparr>) s"

definition sched_sleep :: "u32 \<Rightarrow> kstate \<Rightarrow> kstate" where
  "sched_sleep count s = (if count = 0 then sched_yield s else sched_block (current s) B_SLEEP count s)"

definition sched_kill_proc :: "nat \<Rightarrow> kstate \<Rightarrow> kstate" where
  "sched_kill_proc p s =
     s\<lparr>threads := (\<lambda>t. if t < MAX_THREADS \<and> tproc (threads s t) = p \<and> tstate (threads s t) \<noteq> T_FREE
                       then (threads s t)\<lparr>tstate := T_DEAD\<rparr> else threads s t)\<rparr>"

definition sched_proc_runnable :: "kstate \<Rightarrow> nat \<Rightarrow> bool" where
  "sched_proc_runnable s p =
     list_ex (\<lambda>t. tproc (threads s t) = p \<and> (tstate (threads s t) = T_READY \<or> tstate (threads s t) = T_RUNNING))
       [0..<MAX_THREADS]"

section \<open>Choosing the next thread\<close>

text \<open>The first half of \<open>sched_next\<close>: whether the current thread goes on, else the
  state with it back in its queue.\<close>

definition requeue_current :: "kstate \<Rightarrow> bool \<times> kstate" where
  "requeue_current s =
     (let c = current s in
      if tstate (threads s c) \<noteq> T_RUNNING then (False, s)
      else if c = IDLE then (False, s\<lparr>need_resched := True\<rparr>)
      else if \<not> need_resched s then (True, s)
      else if slice (threads s c) = 0 then
        (False, enqueue c False (upd_thread c (\<lambda>x. x\<lparr>slice := SLICE_TICKS\<rparr>) s))
      else (False, enqueue c True s))"

definition switch_to :: "nat \<Rightarrow> kstate \<Rightarrow> kstate" where
  "switch_to n s =
     (let s = upd_thread n (\<lambda>x. x\<lparr>tstate := T_RUNNING\<rparr>) s;
          s = (if n \<noteq> current s then s\<lparr>switches := switches s + 1\<rparr> else s);
          s = (if n \<noteq> IDLE then upd_mm (proc_activate (tproc (threads s n))) s else s)
      in s\<lparr>current := n\<rparr>)"

text \<open>\<open>sched_next\<close> returns the thread whose frame is resumed.\<close>

definition sched_next :: "kstate \<Rightarrow> (nat \<times> kstate) option" where
  "sched_next s =
     (case requeue_current s of (stay, s) \<Rightarrow>
        if stay then Some (current s, s)
        else (case dequeue (s\<lparr>need_resched := False\<rparr>) of
            None \<Rightarrow> None
          | Some (next, s) \<Rightarrow>
              let n = (case next of Some t \<Rightarrow> t | None \<Rightarrow> IDLE) in Some (n, switch_to n s)))"

section \<open>Links and the rest of a thread\<close>

text \<open>The queue operations change links, heads and tails only: \<open>relink\<close> is their common form.\<close>

definition nexts :: "kstate \<Rightarrow> nat \<Rightarrow> nat option" where
  "nexts s = (\<lambda>t. tnext (threads s t))"

definition relink :: "(nat \<Rightarrow> nat option) \<Rightarrow> (nat \<Rightarrow> nat option) \<Rightarrow> (nat \<Rightarrow> nat option) \<Rightarrow> kstate \<Rightarrow> kstate" where
  "relink nx h l s = s\<lparr>threads := (\<lambda>t. (threads s t)\<lparr>tnext := nx t\<rparr>), queue_head := h, queue_tail := l\<rparr>"

definition ready_rep :: "kstate \<Rightarrow> nat \<Rightarrow> nat list \<Rightarrow> bool" where
  "ready_rep s p xs = queue_rep (nexts s) (queue_head s p) (queue_tail s p) xs"

lemma relink_simps [simp]:
  "nexts (relink nx h l s) = nx" "queue_head (relink nx h l s) = h" "queue_tail (relink nx h l s) = l"
  "threads (relink nx h l s) t = (threads s t)\<lparr>tnext := nx t\<rparr>" "current (relink nx h l s) = current s"
  "need_resched (relink nx h l s) = need_resched s" "relink nx h l (relink nx' h' l' s) = relink nx h l s"
  by (simp_all add: relink_def nexts_def fun_eq_iff)

lemma relink_self: "relink (nexts s) (queue_head s) (queue_tail s) s = s"
  by (simp add: relink_def nexts_def)

lemma unlink_head_relink:
  "unlink_head p t s = relink ((nexts s)(t := None)) ((queue_head s)(p := nexts s t))
     (if nexts s t = None then (queue_tail s)(p := None) else queue_tail s) s"
  by (simp add: unlink_head_def relink_def nexts_def upd_thread_def Let_def fun_eq_iff)

lemma enqueue_relink:
  "enqueue t at_head s =
     (let p = priority (threads s t); u = upd_thread t (\<lambda>x. x\<lparr>tstate := T_READY\<rparr>) s in
      if at_head then relink ((nexts s)(t := queue_head s p)) ((queue_head s)(p := Some t))
        (if queue_tail s p = None then (queue_tail s)(p := Some t) else queue_tail s) u
      else relink (case queue_tail s p of Some l \<Rightarrow> (nexts s)(t := None, l := Some t) | None \<Rightarrow> (nexts s)(t := None))
        (case queue_tail s p of Some l \<Rightarrow> queue_head s | None \<Rightarrow> (queue_head s)(p := Some t))
        ((queue_tail s)(p := Some t)) u)"
  by (auto simp: enqueue_def relink_def nexts_def upd_thread_def Let_def fun_eq_iff split: option.splits)

lemma ready_rep_relink [simp]: "ready_rep (relink nx h l s) p xs = queue_rep nx (h p) (l p) xs"
  by (simp add: ready_rep_def)

section \<open>The scheduler's invariant\<close>

text \<open>\<open>qs p\<close> is the contents of ready queue \<open>p\<close>, first thread first. A queued thread is ready, or
  was killed after it was queued (\<open>dequeue\<close> skips it); every ready thread is queued at its priority.\<close>

definition links_ok :: "kstate \<Rightarrow> (nat \<Rightarrow> nat list) \<Rightarrow> bool" where
  "links_ok s qs \<longleftrightarrow> (\<forall>p<PRIORITIES. ready_rep s p (qs p)) \<and>
     (\<forall>p<PRIORITIES. \<forall>q<PRIORITIES. p \<noteq> q \<longrightarrow> set (qs p) \<inter> set (qs q) = {})"

definition view_ok :: "(nat \<Rightarrow> tstate) \<Rightarrow> (nat \<Rightarrow> nat) \<Rightarrow> nat \<Rightarrow> (nat \<Rightarrow> nat list) \<Rightarrow> bool" where
  "view_ok st pr cur qs \<longleftrightarrow>
     (\<forall>p<PRIORITIES. \<forall>t\<in>set (qs p). t < MAX_THREADS \<and> (st t = T_READY \<and> pr t = p \<or> st t = T_DEAD)) \<and>
     (\<forall>t. st t = T_READY \<longrightarrow> pr t < PRIORITIES \<and> t \<in> set (qs (pr t))) \<and>
     (\<forall>t<MAX_THREADS. st t = T_RUNNING \<longrightarrow> t = cur) \<and>
     (cur = IDLE \<or> cur < MAX_THREADS \<and> pr cur < PRIORITIES)"

definition states :: "kstate \<Rightarrow> nat \<Rightarrow> tstate" where "states s = (\<lambda>t. tstate (threads s t))"
definition prios :: "kstate \<Rightarrow> nat \<Rightarrow> nat" where "prios s = (\<lambda>t. priority (threads s t))"

definition sched_ok :: "kstate \<Rightarrow> (nat \<Rightarrow> nat list) \<Rightarrow> bool" where
  "sched_ok s qs \<longleftrightarrow> links_ok s qs \<and> view_ok (states s) (prios s) (current s) qs"

definition queued :: "(nat \<Rightarrow> nat list) \<Rightarrow> nat \<Rightarrow> bool" where
  "queued qs t \<longleftrightarrow> (\<exists>p<PRIORITIES. t \<in> set (qs p))"

lemma relink_view [simp]: "states (relink nx h l s) = states s" "prios (relink nx h l s) = prios s"
  by (simp_all add: states_def prios_def)

lemma queue_rep_other:
  assumes "queue_rep nx h l xs" "t \<notin> set xs" "\<And>x. x \<noteq> t \<Longrightarrow> nx' x = nx x"
  shows "queue_rep nx' h l xs"
  using assms queue_rep_cong [of xs nx' nx h l] by metis

text \<open>Putting an unqueued thread at the end or at the front of the queue of its priority.\<close>

lemma enqueue_tail_links:
  "nexts (enqueue t False s) = (case queue_tail s (priority (threads s t)) of
     Some l \<Rightarrow> (nexts s)(t := None, l := Some t) | None \<Rightarrow> (nexts s)(t := None))"
  "queue_head (enqueue t False s) = (case queue_tail s (priority (threads s t)) of
     Some l \<Rightarrow> queue_head s | None \<Rightarrow> (queue_head s)(priority (threads s t) := Some t))"
  "queue_tail (enqueue t False s) = (queue_tail s)(priority (threads s t) := Some t)"
  unfolding enqueue_relink Let_def by simp_all

lemma enqueue_head_links:
  "nexts (enqueue t True s) = (nexts s)(t := queue_head s (priority (threads s t)))"
  "queue_head (enqueue t True s) = (queue_head s)(priority (threads s t) := Some t)"
  "queue_tail (enqueue t True s) = (if queue_tail s (priority (threads s t)) = None
     then (queue_tail s)(priority (threads s t) := Some t) else queue_tail s)"
  unfolding enqueue_relink Let_def by simp_all

lemma links_okI:
  assumes "links_ok s qs" "p < PRIORITIES" "t \<notin> \<Union> (set ` qs ` {..<PRIORITIES})" "set xs = insert t (set (qs p))"
    "queue_rep (nexts s') (queue_head s' p) (queue_tail s' p) xs"
    "\<And>x. x \<noteq> t \<Longrightarrow> x \<notin> set (qs p) \<Longrightarrow> nexts s' x = nexts s x"
    "\<And>q. q \<noteq> p \<Longrightarrow> queue_head s' q = queue_head s q \<and> queue_tail s' q = queue_tail s q"
  shows "links_ok s' (qs(p := xs))"
proof -
  have dj: "\<And>q r. q < PRIORITIES \<Longrightarrow> r < PRIORITIES \<Longrightarrow> q \<noteq> r \<Longrightarrow> set (qs q) \<inter> set (qs r) = {}"
    and rep: "\<And>q. q < PRIORITIES \<Longrightarrow> queue_rep (nexts s) (queue_head s q) (queue_tail s q) (qs q)"
    using assms(1) by (auto simp: links_ok_def ready_rep_def)
  have nt: "\<And>q. q < PRIORITIES \<Longrightarrow> t \<notin> set (qs q)" using assms(3) by auto
  have other: "queue_rep (nexts s') (queue_head s' q) (queue_tail s' q) (qs q)" if q: "q < PRIORITIES" "q \<noteq> p" for q
  proof -
    have "nexts s' x = nexts s x" if "x \<in> set (qs q)" for x
      by (rule assms(6)) (use that nt [OF q(1)] dj [OF q(1) assms(2) q(2)] in auto)
    then have "queue_rep (nexts s') (queue_head s q) (queue_tail s q) (qs q)"
      using rep [OF q(1)] by (subst queue_rep_cong)
    then show ?thesis using assms(7) [OF q(2)] by simp
  qed
  have "ready_rep s' q ((qs(p := xs)) q)" if "q < PRIORITIES" for q
    using that assms(5) other by (cases "q = p") (simp_all add: ready_rep_def)
  moreover have "set ((qs(p := xs)) q) \<inter> set ((qs(p := xs)) r) = {}" if "q < PRIORITIES" "r < PRIORITIES" "q \<noteq> r" for q r
    using dj [OF that] dj [OF that(1) assms(2)] dj [OF assms(2) that(2)] nt [OF that(1)] nt [OF that(2)] assms(4) that(3)
    by (cases "q = p"; cases "r = p") auto
  ultimately show ?thesis unfolding links_ok_def by blast
qed

lemma enqueue_links:
  assumes ok: "links_ok s qs" and t: "\<not> queued qs t" "priority (threads s t) < PRIORITIES"
  defines "p \<equiv> priority (threads s t)"
  shows "links_ok (enqueue t at_head s) (qs(p := if at_head then t # qs p else qs p @ [t]))"
proof (rule links_okI [OF ok, of p t])
  have rep: "queue_rep (nexts s) (queue_head s p) (queue_tail s p) (qs p)"
    using ok t by (simp add: links_ok_def ready_rep_def p_def)
  have last: "queue_tail s p = (if qs p = [] then None else Some (last (qs p)))"
    using rep by (simp add: queue_rep_def)
  have nt: "t \<notin> set (qs p)" using t by (auto simp: queued_def p_def)
  show "p < PRIORITIES" using t(2) by (simp add: p_def)
  show "t \<notin> \<Union> (set ` qs ` {..<PRIORITIES})" using t(1) by (auto simp: queued_def)
  show "set (if at_head then t # qs p else qs p @ [t]) = insert t (set (qs p))" by simp
  show "queue_rep (nexts (enqueue t at_head s)) (queue_head (enqueue t at_head s) p)
      (queue_tail (enqueue t at_head s) p) (if at_head then t # qs p else qs p @ [t])"
  proof (cases at_head)
    case True
    show ?thesis using queue_push [OF rep nt] True
      by (cases "queue_tail s p") (simp_all add: enqueue_head_links p_def)
  next
    case False
    then show ?thesis using queue_put [OF rep nt]
      by (cases "queue_tail s p") (simp_all add: enqueue_tail_links p_def)
  qed
  show "nexts (enqueue t at_head s) x = nexts s x" if "x \<noteq> t" "x \<notin> set (qs p)" for x
    using that last
    by (cases at_head) (auto simp: enqueue_head_links enqueue_tail_links p_def [symmetric] split: option.splits if_splits)
  show "queue_head (enqueue t at_head s) q = queue_head s q \<and> queue_tail (enqueue t at_head s) q = queue_tail s q"
    if "q \<noteq> p" for q
    using that
    by (cases at_head) (auto simp: enqueue_head_links enqueue_tail_links p_def [symmetric] split: option.splits)
qed

lemma enqueue_view [simp]:
  "states (enqueue t at_head s) = (states s)(t := T_READY)" "prios (enqueue t at_head s) = prios s"
  "current (enqueue t at_head s) = current s" "need_resched (enqueue t at_head s) = need_resched s"
  by (simp_all add: enqueue_relink Let_def) (auto simp: states_def prios_def upd_thread_def)

lemma view_okI:
  assumes "\<And>p t. p < PRIORITIES \<Longrightarrow> t \<in> set (qs p) \<Longrightarrow>
      t < MAX_THREADS \<and> (st t = T_READY \<and> pr t = p \<or> st t = T_DEAD)"
    "\<And>t. st t = T_READY \<Longrightarrow> pr t < PRIORITIES \<and> t \<in> set (qs (pr t))"
    "\<And>t. t < MAX_THREADS \<Longrightarrow> st t = T_RUNNING \<Longrightarrow> t = cur"
    "cur = IDLE \<or> cur < MAX_THREADS \<and> pr cur < PRIORITIES"
  shows "view_ok st pr cur qs"
  using assms unfolding view_ok_def by blast

lemma view_okD:
  assumes "view_ok st pr cur qs"
  shows "\<And>p t. p < PRIORITIES \<Longrightarrow> t \<in> set (qs p) \<Longrightarrow> t < MAX_THREADS"
    "\<And>p t. p < PRIORITIES \<Longrightarrow> t \<in> set (qs p) \<Longrightarrow> st t = T_READY \<and> pr t = p \<or> st t = T_DEAD"
    "\<And>t. st t = T_READY \<Longrightarrow> pr t < PRIORITIES" "\<And>t. st t = T_READY \<Longrightarrow> t \<in> set (qs (pr t))"
    "\<And>t. t < MAX_THREADS \<Longrightarrow> st t = T_RUNNING \<Longrightarrow> t = cur"
    "cur = IDLE \<or> cur < MAX_THREADS \<and> pr cur < PRIORITIES"
  using assms unfolding view_ok_def by blast+

lemma enqueue_view_ok:
  assumes "view_ok st pr cur qs" "\<not> queued qs t" "t < MAX_THREADS" "pr t < PRIORITIES"
    "set xs = insert t (set (qs (pr t)))"
  shows "view_ok (st(t := T_READY)) pr cur (qs(pr t := xs))"
proof (rule view_okI)
  fix p u assume p: "p < PRIORITIES" and u: "u \<in> set ((qs(pr t := xs)) p)"
  show "u < MAX_THREADS \<and> ((st(t := T_READY)) u = T_READY \<and> pr u = p \<or> (st(t := T_READY)) u = T_DEAD)"
  proof (cases "u = t")
    case True
    then have "p = pr t" using u p assms(2) by (auto simp: queued_def split: if_splits)
    then show ?thesis using True assms(3) by simp
  next
    case False
    then have m: "u \<in> set (qs p)" using u assms(5) by (auto split: if_splits)
    show ?thesis using view_okD(1) [OF assms(1) p m] view_okD(2) [OF assms(1) p m] False by simp
  qed
next
  fix u assume "(st(t := T_READY)) u = T_READY"
  then show "pr u < PRIORITIES \<and> u \<in> set ((qs(pr t := xs)) (pr u))"
    using view_okD(3) [OF assms(1), of u] view_okD(4) [OF assms(1), of u] assms(4,5)
    by (cases "u = t"; cases "pr u = pr t") simp_all
next
  fix u assume "u < MAX_THREADS" "(st(t := T_READY)) u = T_RUNNING"
  then show "u = cur" using view_okD(5) [OF assms(1)] by (cases "u = t") auto
next
  show "cur = IDLE \<or> cur < MAX_THREADS \<and> pr cur < PRIORITIES" by (rule view_okD(6) [OF assms(1)])
qed

lemma enqueue_ok:
  assumes "sched_ok s qs" "\<not> queued qs t" "t < MAX_THREADS" "priority (threads s t) < PRIORITIES"
  shows "sched_ok (enqueue t at_head s) (qs(priority (threads s t) :=
     if at_head then t # qs (priority (threads s t)) else qs (priority (threads s t)) @ [t]))"
proof -
  have p: "prios s t = priority (threads s t)" by (simp add: prios_def)
  have "view_ok ((states s)(t := T_READY)) (prios s) (current s) (qs(prios s t :=
      if at_head then t # qs (prios s t) else qs (prios s t) @ [t]))"
    by (rule enqueue_view_ok) (use assms in \<open>auto simp: sched_ok_def prios_def\<close>)
  moreover have "links_ok s qs" using assms(1) by (simp add: sched_ok_def)
  ultimately show ?thesis
    unfolding sched_ok_def enqueue_view p by (intro conjI enqueue_links [OF _ assms(2,4)])
qed

section \<open>Taking the next thread out\<close>

lemma unlink_head_ok:
  assumes "links_ok s qs" "p < PRIORITIES" "qs p = t # xs"
  shows "links_ok (unlink_head p t s) (qs(p := xs))"
proof -
  have dj: "\<And>q r. q < PRIORITIES \<Longrightarrow> r < PRIORITIES \<Longrightarrow> q \<noteq> r \<Longrightarrow> set (qs q) \<inter> set (qs r) = {}"
    and rep: "\<And>q. q < PRIORITIES \<Longrightarrow> queue_rep (nexts s) (queue_head s q) (queue_tail s q) (qs q)"
    using assms(1) by (auto simp: links_ok_def ready_rep_def)
  have r: "queue_rep (nexts s) (queue_head s p) (queue_tail s p) (t # xs)" using rep [OF assms(2)] assms(3) by simp
  have "ready_rep (unlink_head p t s) q ((qs(p := xs)) q)" if q: "q < PRIORITIES" for q
  proof (cases "q = p")
    case True
    then show ?thesis using queue_get(2) [OF r] by (cases "nexts s t") (simp_all add: unlink_head_relink)
  next
    case False
    have "t \<notin> set (qs q)" using dj [OF q assms(2) False] assms(3) by auto
    then have "queue_rep ((nexts s)(t := None)) (queue_head s q) (queue_tail s q) (qs q)"
      by (intro queue_rep_other [OF rep [OF q], of t]) auto
    then show ?thesis using False by (simp add: unlink_head_relink)
  qed
  moreover have "set ((qs(p := xs)) q) \<inter> set ((qs(p := xs)) r) = {}" if "q < PRIORITIES" "r < PRIORITIES" "q \<noteq> r" for q r
    using dj [OF that] dj [OF that(1) assms(2)] dj [OF assms(2) that(2)] assms(3) that(3)
    by (cases "q = p"; cases "r = p") auto
  ultimately show ?thesis unfolding links_ok_def by blast
qed

lemma unlink_head_frame [simp]:
  "states (unlink_head p t s) = states s" "prios (unlink_head p t s) = prios s"
  "current (unlink_head p t s) = current s" "tstate (threads (unlink_head p t s) u) = tstate (threads s u)"
  "priority (threads (unlink_head p t s) u) = priority (threads s u)"
  "need_resched (unlink_head p t s) = need_resched s"
  by (simp_all add: unlink_head_relink)

lemma head_of: "links_ok s qs \<Longrightarrow> p < PRIORITIES \<Longrightarrow> queue_head s p = (case qs p of [] \<Rightarrow> None | t # _ \<Rightarrow> Some t)"
  by (auto simp: links_ok_def ready_rep_def queue_rep_def split: list.split)

text \<open>\<open>dequeue_at\<close> terminates on a well-formed queue: it drops the dead threads in front and returns
  the first ready one.\<close>

definition ready :: "kstate \<Rightarrow> nat \<Rightarrow> bool" where
  "ready s t \<longleftrightarrow> tstate (threads s t) = T_READY"

lemma dequeue_at_queue:
  assumes "links_ok s qs" "p < PRIORITIES"
  shows "\<exists>nx h l. links_ok (relink nx h l s) (qs(p := tl (dropWhile (\<lambda>t. \<not> ready s t) (qs p)))) \<and>
     dequeue_at p s = Some (find (ready s) (qs p), relink nx h l s)"
  using assms
proof (induction "qs p" arbitrary: s qs)
  case Nil
  have "qs(p := tl (dropWhile (\<lambda>t. \<not> ready s t) (qs p))) = qs"
    using Nil.hyps by (auto simp: fun_eq_iff)
  moreover have "dequeue_at p s = Some (None, s)"
    using Nil head_of [OF Nil.prems] by (subst dequeue_at.simps) simp
  ultimately show ?case using Nil by (metis find.simps(1) relink_self)
next
  case (Cons t xs)
  let ?u = "unlink_head p t s"
  have q: "qs p = t # xs" using Cons.hyps(2) by simp
  have h: "queue_head s p = Some t" using head_of [OF Cons.prems] q by simp
  have u: "links_ok ?u (qs(p := xs))" by (rule unlink_head_ok [OF Cons.prems q])
  have r: "ready ?u = ready s" by (simp add: ready_def fun_eq_iff)
  obtain a b c where rl: "?u = relink a b c s" using unlink_head_relink by blast
  show ?case
  proof (cases "ready s t")
    case True
    then have "dequeue_at p s = Some (Some t, ?u)"
      using h by (subst dequeue_at.simps) (simp add: ready_def)
    then show ?thesis using True q u by (auto simp: rl)
  next
    case False
    then have d: "dequeue_at p s = dequeue_at p ?u"
      using h by (subst dequeue_at.simps) (simp add: ready_def)
    have "xs = (qs(p := xs)) p" by simp
    from Cons.hyps(1) [OF this u Cons.prems(2)] obtain nx hd' l' where
      "links_ok (relink nx hd' l' ?u) ((qs(p := xs))(p := tl (dropWhile (\<lambda>t. \<not> ready ?u t) xs)))"
      "dequeue_at p ?u = Some (find (ready ?u) xs, relink nx hd' l' ?u)" by auto
    then have "links_ok (relink nx hd' l' s) (qs(p := tl (dropWhile (\<lambda>t. \<not> ready s t) (qs p))))"
      "dequeue_at p s = Some (find (ready s) (qs p), relink nx hd' l' s)"
      using False q d r by (simp_all add: rl)
    then show ?thesis by blast
  qed
qed

text \<open>What is left of the queues after \<open>dequeue\<close>, for the predicate \<open>R\<close> of the ready threads.\<close>

fun drain :: "(nat \<Rightarrow> bool) \<Rightarrow> nat list \<Rightarrow> (nat \<Rightarrow> nat list) \<Rightarrow> nat \<Rightarrow> nat list" where
  "drain R [] qs = qs"
| "drain R (p # ps) qs =
     (let qs' = qs(p := tl (dropWhile (\<lambda>t. \<not> R t) (qs p))) in
      if find R (qs p) = None then drain R ps qs' else qs')"

lemma find_append: "find R (xs @ ys) = (case find R xs of None \<Rightarrow> find R ys | Some x \<Rightarrow> Some x)"
  by (induction xs) simp_all

lemma dequeue_from_queue:
  assumes "links_ok s qs" "set ps \<subseteq> {..<PRIORITIES}" "distinct ps"
  shows "\<exists>nx h l. links_ok (relink nx h l s) (drain (ready s) ps qs) \<and>
     dequeue_from ps s = Some (find (ready s) (concat (map qs ps)), relink nx h l s)"
  using assms
proof (induction ps arbitrary: s qs)
  case Nil
  then show ?case by (metis concat.simps(1) dequeue_from.simps(1) drain.simps(1) find.simps(1) list.simps(8) relink_self)
next
  case (Cons p ps)
  have p: "p < PRIORITIES" using Cons.prems(2) by simp
  define qs' where "qs' = qs(p := tl (dropWhile (\<lambda>t. \<not> ready s t) (qs p)))"
  obtain nx h l where d: "links_ok (relink nx h l s) qs'"
    "dequeue_at p s = Some (find (ready s) (qs p), relink nx h l s)"
    using dequeue_at_queue [OF Cons.prems(1) p] unfolding qs'_def by blast
  show ?case
  proof (cases "find (ready s) (qs p)")
    case None
    let ?u = "relink nx h l s"
    have r: "ready ?u = ready s" by (simp add: ready_def fun_eq_iff)
    have e: "map qs' ps = map qs ps" using Cons.prems(3) by (auto simp: qs'_def)
    obtain a b c where "links_ok (relink a b c ?u) (drain (ready ?u) ps qs')"
      "dequeue_from ps ?u = Some (find (ready ?u) (concat (map qs' ps)), relink a b c ?u)"
      using Cons.IH [OF d(1)] Cons.prems(2,3) by auto
    then have "links_ok (relink a b c s) (drain (ready s) (p # ps) qs) \<and>
        dequeue_from (p # ps) s = Some (find (ready s) (concat (map qs (p # ps))), relink a b c s)"
      using None d(2) r e by (simp add: find_append qs'_def [symmetric])
    then show ?thesis by blast
  next
    case (Some t)
    then have "links_ok (relink nx h l s) (drain (ready s) (p # ps) qs) \<and>
        dequeue_from (p # ps) s = Some (find (ready s) (concat (map qs (p # ps))), relink nx h l s)"
      using d by (simp add: find_append qs'_def [symmetric])
    then show ?thesis by blast
  qed
qed

lemma set_tl_dropWhile: "set (tl (dropWhile P xs)) \<subseteq> set xs"
  by (metis list.set_sel(2) set_dropWhileD subsetI tl_Nil)

lemma drain_subset: "set (drain R ps qs q) \<subseteq> set (qs q)"
proof (induction ps arbitrary: qs)
  case (Cons p ps)
  let ?qs = "qs(p := tl (dropWhile (\<lambda>t. \<not> R t) (qs p)))"
  have s: "set (?qs q) \<subseteq> set (qs q)" using set_tl_dropWhile [of _ "qs p"] by (cases "q = p") simp_all
  show ?case
  proof (cases "find R (qs p) = None")
    case True
    then have "drain R (p # ps) qs = drain R ps ?qs" by simp
    then show ?thesis using Cons.IH [of ?qs] s by (metis order.trans)
  next
    case False
    then obtain y where "find R (qs p) = Some y" by blast
    then show ?thesis using s by (simp add: Let_def)
  qed
qed simp

lemma tl_dropWhile_find:
  assumes "x \<in> set xs" "R x" "find R xs \<noteq> Some x"
  shows "x \<in> set (tl (dropWhile (\<lambda>t. \<not> R t) xs))"
  using assms by (induction xs) (auto split: if_splits)

lemma find_notin_tl:
  assumes "find R xs = Some x" "distinct xs"
  shows "x \<notin> set (tl (dropWhile (\<lambda>t. \<not> R t) xs))"
  using assms by (induction xs) (auto split: if_splits)

lemma drain_keeps:
  assumes "x \<in> set (qs q)" "R x" "find R (concat (map qs ps)) \<noteq> Some x" "distinct ps"
  shows "x \<in> set (drain R ps qs q)"
  using assms
proof (induction ps arbitrary: qs)
  case (Cons p ps)
  let ?qs = "qs(p := tl (dropWhile (\<lambda>t. \<not> R t) (qs p)))"
  have nf: "find R (qs p) \<noteq> Some x" using Cons.prems(3) by (auto simp: find_append)
  have m: "x \<in> set (?qs q)" using tl_dropWhile_find [OF _ Cons.prems(2) nf] Cons.prems(1) by auto
  show ?case
  proof (cases "find R (qs p)")
    case None
    have "map ?qs ps = map qs ps" using Cons.prems(4) by auto
    then have "find R (concat (map ?qs ps)) \<noteq> Some x"
      using Cons.prems(3) None by (simp only: find_append list.map concat.simps option.case) simp
    then have "x \<in> set (drain R ps ?qs q)"
      by (intro Cons.IH [where qs = ?qs]) (use m Cons.prems(2,4) in \<open>simp_all only: distinct.simps simp_thms\<close>)
    then show ?thesis using None by simp
  next
    case (Some y)
    then show ?thesis using m by simp
  qed
qed simp

lemma drain_removes:
  assumes "find R (concat (map qs ps)) = Some x" "\<And>q. q \<in> S \<Longrightarrow> distinct (qs q)"
    "\<And>q r. q \<in> S \<Longrightarrow> r \<in> S \<Longrightarrow> x \<in> set (qs q) \<Longrightarrow> x \<in> set (qs r) \<Longrightarrow> q = r"
    "distinct ps" "set ps \<subseteq> S" "r \<in> S"
  shows "x \<notin> set (drain R ps qs r)"
  using assms(1-5)
proof (induction ps arbitrary: qs)
  case (Cons p ps)
  let ?qs = "qs(p := tl (dropWhile (\<lambda>t. \<not> R t) (qs p)))"
  have sub: "set (?qs q) \<subseteq> set (qs q)" for q using set_tl_dropWhile [of _ "qs p"] by (cases "q = p") simp_all
  show ?case
  proof (cases "find R (qs p)")
    case None
    have e: "map ?qs ps = map qs ps" using Cons.prems(4) by auto
    have "x \<notin> set (drain R ps ?qs r)"
    proof (rule Cons.IH [where qs = ?qs])
      show "find R (concat (map ?qs ps)) = Some x"
        using Cons.prems(1) None unfolding e by (simp add: find_append)
      show "distinct (?qs q)" if "q \<in> S" for q
        using Cons.prems(2) [OF that] by (auto intro: distinct_tl distinct_dropWhile)
      show "q = t" if "q \<in> S" "t \<in> S" "x \<in> set (?qs q)" "x \<in> set (?qs t)" for q t
        using Cons.prems(3) [OF that(1,2)] sub that(3,4) by blast
    qed (use Cons.prems(4,5) in auto)
    then show ?thesis using None by simp
  next
    case (Some y)
    then have y: "y = x" using Cons.prems(1) by (simp add: find_append)
    have p: "p \<in> S" using Cons.prems(5) by simp
    have xp: "x \<in> set (qs p)" using Some y by (auto simp: find_Some_iff)
    have "x \<notin> set (?qs r)"
    proof (cases "r = p")
      case True
      then show ?thesis using find_notin_tl [of R "qs p" x] Some y Cons.prems(2) [OF p] by simp
    next
      case False
      then show ?thesis using Cons.prems(3) [OF p assms(6) xp] by auto
    qed
    then show ?thesis using Some by simp
  qed
qed simp

lemma dequeue_queue:
  assumes "links_ok s qs"
  shows "\<exists>nx h l. links_ok (relink nx h l s) (drain (ready s) [0, 1, 2] qs) \<and>
     dequeue s = Some (find (ready s) (qs 0 @ qs 1 @ qs 2), relink nx h l s)"
proof -
  have "[0..<PRIORITIES] = [0, 1, 2]" by (simp add: upt_rec)
  then show ?thesis using dequeue_from_queue [OF assms, of "[0, 1, 2]"] by (simp add: dequeue_def)
qed

text \<open>The queues once the current thread is back in its own (\<open>requeue_current\<close>).\<close>

definition keeps_running :: "kstate \<Rightarrow> bool" where
  "keeps_running s \<longleftrightarrow> tstate (threads s (current s)) = T_RUNNING \<and> current s \<noteq> IDLE \<and> \<not> need_resched s"

definition requeued :: "kstate \<Rightarrow> (nat \<Rightarrow> nat list) \<Rightarrow> nat \<Rightarrow> nat list" where
  "requeued s qs =
     (let c = current s; p = priority (threads s c) in
      if tstate (threads s c) = T_RUNNING \<and> c \<noteq> IDLE
      then qs(p := if slice (threads s c) = 0 then qs p @ [c] else c # qs p) else qs)"

lemma upd_slice_ok:
  "sched_ok (upd_thread c (\<lambda>x. x\<lparr>slice := k\<rparr>) s) qs = sched_ok s qs"
proof -
  have "nexts (upd_thread c (\<lambda>x. x\<lparr>slice := k\<rparr>) s) = nexts s" "states (upd_thread c (\<lambda>x. x\<lparr>slice := k\<rparr>) s) = states s"
    "prios (upd_thread c (\<lambda>x. x\<lparr>slice := k\<rparr>) s) = prios s"
    by (simp_all add: nexts_def states_def prios_def upd_thread_def fun_eq_iff)
  then show ?thesis by (simp add: sched_ok_def links_ok_def ready_rep_def) (simp add: upd_thread_def)
qed

lemma current_not_queued:
  assumes "sched_ok s qs" "tstate (threads s (current s)) = T_RUNNING"
  shows "\<not> queued qs (current s)"
proof
  assume "queued qs (current s)"
  then obtain p where "p < PRIORITIES" "current s \<in> set (qs p)" by (auto simp: queued_def)
  then show False
    using view_okD(2) [of "states s" "prios s" "current s" qs p "current s"] assms
    by (auto simp: sched_ok_def states_def)
qed

lemma requeue_current_ok:
  assumes "sched_ok s qs"
  shows "case requeue_current s of (stay, s') \<Rightarrow> stay = keeps_running s \<and> current s' = current s \<and>
     (if stay then s' = s else sched_ok s' (requeued s qs) \<and>
        (tstate (threads s' (current s)) \<noteq> T_RUNNING \<or> current s = IDLE) \<and>
        states s' = (if tstate (threads s (current s)) = T_RUNNING \<and> current s \<noteq> IDLE
                     then (states s)(current s := T_READY) else states s))"
proof -
  let ?c = "current s"
  consider "tstate (threads s ?c) \<noteq> T_RUNNING" | "tstate (threads s ?c) = T_RUNNING" "?c = IDLE"
    | "tstate (threads s ?c) = T_RUNNING" "?c \<noteq> IDLE" "\<not> need_resched s"
    | "tstate (threads s ?c) = T_RUNNING" "?c \<noteq> IDLE" "need_resched s" by blast
  then show ?thesis
  proof cases
    case 1
    then show ?thesis using assms by (simp add: requeue_current_def keeps_running_def requeued_def Let_def)
  next
    case 2
    have "sched_ok (s\<lparr>need_resched := True\<rparr>) qs"
      using assms by (simp add: sched_ok_def links_ok_def ready_rep_def nexts_def states_def prios_def)
    then show ?thesis using 2 by (simp add: requeue_current_def keeps_running_def requeued_def Let_def states_def)
  next
    case 3
    then show ?thesis by (simp add: requeue_current_def keeps_running_def Let_def)
  next
    case 4
    have nq: "\<not> queued qs ?c" by (rule current_not_queued [OF assms 4(1)])
    have c: "?c < MAX_THREADS" "priority (threads s ?c) < PRIORITIES"
      using view_okD(6) [of "states s" "prios s" ?c qs] assms 4(2) by (auto simp: sched_ok_def prios_def)
    have e: "tstate (threads (enqueue ?c h u) ?c) = T_READY" for h u
      using fun_cong [OF enqueue_view(1) [of ?c h u], of ?c] by (simp add: states_def)
    let ?u = "upd_thread ?c (\<lambda>x. x\<lparr>slice := SLICE_TICKS\<rparr>) s"
    have u: "priority (threads ?u ?c) = priority (threads s ?c)" "current ?u = ?c" by (simp_all add: upd_thread_def)
    have "sched_ok (enqueue ?c False ?u) (qs(priority (threads s ?c) := qs (priority (threads s ?c)) @ [?c]))"
      using enqueue_ok [of ?u qs ?c False] assms nq c u by (simp add: upd_slice_ok)
    moreover have "sched_ok (enqueue ?c True s) (qs(priority (threads s ?c) := ?c # qs (priority (threads s ?c))))"
      using enqueue_ok [of s qs ?c True] assms nq c by simp
    moreover have "states ?u = states s" by (simp add: states_def upd_thread_def fun_eq_iff)
    ultimately show ?thesis
      using 4 e u by (simp add: requeue_current_def keeps_running_def requeued_def Let_def)
  qed
qed

definition runnable :: "kstate \<Rightarrow> nat \<Rightarrow> bool" where
  "runnable s t \<longleftrightarrow> tstate (threads s t) = T_READY \<or>
     t = current s \<and> tstate (threads s t) = T_RUNNING \<and> t \<noteq> IDLE"

definition next_thread :: "(nat \<Rightarrow> bool) \<Rightarrow> (nat \<Rightarrow> nat list) \<Rightarrow> nat" where
  "next_thread R qs = (case find R (qs 0 @ qs 1 @ qs 2) of Some t \<Rightarrow> t | None \<Rightarrow> IDLE)"

lemma less3: "(p::nat) < PRIORITIES \<longleftrightarrow> p = 0 \<or> p = 1 \<or> p = 2"
  by auto

lemma drained_view_ok:
  assumes ok: "links_ok s qs" "view_ok st pr cur qs" and nr: "\<And>t. t < MAX_THREADS \<Longrightarrow> st t \<noteq> T_RUNNING"
    and R: "R = (\<lambda>t. st t = T_READY)" and n: "n = next_thread R qs"
  shows "view_ok (st(n := T_RUNNING)) pr n (drain R [0, 1, 2] qs)"
proof (rule view_okI)
  let ?d = "drain R [0, 1, 2] qs" and ?all = "concat (map qs [0, 1, 2])"
  have dist: "\<And>q. q < PRIORITIES \<Longrightarrow> distinct (qs q)"
    and dj: "\<And>q r. q < PRIORITIES \<Longrightarrow> r < PRIORITIES \<Longrightarrow> q \<noteq> r \<Longrightarrow> set (qs q) \<inter> set (qs r) = {}"
    using ok(1) by (auto simp: links_ok_def ready_rep_def queue_rep_def)
  have all: "find R ?all = find R (qs 0 @ qs 1 @ qs 2)" by simp
  have out: "n \<notin> set (?d p)" if p: "p < PRIORITIES" for p
  proof (cases "find R ?all")
    case None
    then have "n = IDLE" using n all by (simp add: next_thread_def)
    moreover have "set (?d p) \<subseteq> set (qs p)" by (rule drain_subset)
    ultimately show ?thesis using view_okD(1) [OF ok(2) p, of n] by auto
  next
    case (Some x)
    then have "n = x" using n all by (simp add: next_thread_def)
    moreover have "x \<notin> set (?d p)"
    proof (rule drain_removes [OF Some, of "{..<PRIORITIES}"])
      show "distinct (qs q)" if "q \<in> {..<PRIORITIES}" for q using dist that by simp
      show "q = r" if "q \<in> {..<PRIORITIES}" "r \<in> {..<PRIORITIES}" "x \<in> set (qs q)" "x \<in> set (qs r)" for q r
        using dj [of q r] that by auto
    qed (use p in auto)
    ultimately show ?thesis by simp
  qed
  show "t < MAX_THREADS \<and> ((st(n := T_RUNNING)) t = T_READY \<and> pr t = p \<or> (st(n := T_RUNNING)) t = T_DEAD)"
    if p: "p < PRIORITIES" and t: "t \<in> set (?d p)" for p t
  proof -
    have m: "t \<in> set (qs p)" using t drain_subset [of R "[0, 1, 2]" qs p] by blast
    have "t \<noteq> n" using out [OF p] t by blast
    then show ?thesis using view_okD(1) [OF ok(2) p m] view_okD(2) [OF ok(2) p m] by simp
  qed
  show "pr t < PRIORITIES \<and> t \<in> set (?d (pr t))" if t: "(st(n := T_RUNNING)) t = T_READY" for t
  proof -
    have r: "st t = T_READY" "t \<noteq> n" using t by (auto split: if_splits)
    have "find R ?all \<noteq> Some t" using r n all by (auto simp: next_thread_def)
    then show ?thesis
      using view_okD(3) [OF ok(2) r(1)] drain_keeps [of t qs "pr t" R "[0, 1, 2]"] view_okD(4) [OF ok(2) r(1)] r R
      by simp
  qed
  show "t = n" if "t < MAX_THREADS" "(st(n := T_RUNNING)) t = T_RUNNING" for t
    using that nr [OF that(1)] by (auto split: if_splits)
  show "n = IDLE \<or> n < MAX_THREADS \<and> pr n < PRIORITIES"
  proof (cases "find R ?all")
    case None
    then show ?thesis using n all by (simp add: next_thread_def)
  next
    case (Some x)
    then have "R x" by (auto simp: find_Some_iff)
    then have x: "n = x" "st x = T_READY" using Some n all R by (simp_all add: next_thread_def)
    show ?thesis using x view_okD(3) [OF ok(2) x(2)] view_okD(1) [OF ok(2) _ view_okD(4) [OF ok(2) x(2)]] by simp
  qed
qed

lemma switch_to_simps [simp]:
  "nexts (switch_to n s) = nexts s" "queue_head (switch_to n s) = queue_head s"
  "queue_tail (switch_to n s) = queue_tail s" "states (switch_to n s) = (states s)(n := T_RUNNING)"
  "prios (switch_to n s) = prios s" "current (switch_to n s) = n" "need_resched (switch_to n s) = need_resched s"
  by (auto simp: switch_to_def Let_def upd_defs nexts_def states_def prios_def fun_eq_iff)

lemma find_first_queue:
  assumes "find R (concat (map qs ps)) = Some n"
  shows "\<exists>us p vs. ps = us @ p # vs \<and> n \<in> set (qs p) \<and> R n \<and> (\<forall>q\<in>set us. \<forall>t\<in>set (qs q). \<not> R t)"
  using assms
proof (induction ps)
  case (Cons p ps)
  show ?case
  proof (cases "find R (qs p)")
    case None
    then obtain us q vs where "ps = us @ q # vs" "n \<in> set (qs q)" "R n" "\<forall>q\<in>set us. \<forall>t\<in>set (qs q). \<not> R t"
      using Cons by (auto simp: find_append)
    moreover have "\<forall>t\<in>set (qs p). \<not> R t" using None by (auto simp: find_None_iff)
    ultimately show ?thesis by (intro exI [of _ "p # us"] exI [of _ q] exI [of _ vs]) simp
  next
    case (Some y)
    then have "y = n" using Cons.prems by (simp add: find_append)
    then show ?thesis using Some by (intro exI [of _ "[]"]) (auto simp: find_Some_iff)
  qed
qed simp

lemma requeue_current_prios: "prios (snd (requeue_current s)) = prios s"
proof -
  have "prios (upd_thread c (\<lambda>x. x\<lparr>slice := k\<rparr>) s) = prios s" for c k
    by (simp add: prios_def upd_thread_def fun_eq_iff)
  moreover have "prios (s\<lparr>need_resched := True\<rparr>) = prios s" by (simp add: prios_def)
  ultimately show ?thesis by (simp add: requeue_current_def Let_def)
qed

lemma sched_next_view:
  assumes "sched_ok s qs" "\<not> keeps_running s"
  defines "n \<equiv> next_thread (runnable s) (requeued s qs)"
  shows "\<exists>s'. sched_next s = Some (n, s') \<and> sched_ok s' (drain (runnable s) [0, 1, 2] (requeued s qs)) \<and>
     current s' = n \<and> \<not> need_resched s' \<and> prios s' = prios s \<and>
     states s' = (if tstate (threads s (current s)) = T_RUNNING \<and> current s \<noteq> IDLE
                  then (states s)(current s := T_READY) else states s)(n := T_RUNNING)"
proof -
  obtain u where u: "requeue_current s = (False, u)" "current u = current s" "sched_ok u (requeued s qs)"
    "tstate (threads u (current s)) \<noteq> T_RUNNING \<or> current s = IDLE"
    "states u = (if tstate (threads s (current s)) = T_RUNNING \<and> current s \<noteq> IDLE
                 then (states s)(current s := T_READY) else states s)" "prios u = prios s"
    using requeue_current_ok [OF assms(1)] assms(2) requeue_current_prios [of s] by (cases "requeue_current s") auto
  let ?u = "u\<lparr>need_resched := False\<rparr>" and ?qs = "requeued s qs"
  have v: "nexts ?u = nexts u" "states ?u = states u" "prios ?u = prios u"
    by (simp_all add: nexts_def states_def prios_def)
  have lo: "links_ok ?u ?qs" using u(3) v by (simp add: sched_ok_def links_ok_def ready_rep_def)
  have vo: "view_ok (states u) (prios u) (current u) ?qs" using u(3) by (simp add: sched_ok_def)
  have R: "ready ?u = runnable s"
  proof
    fix t
    have "ready ?u t \<longleftrightarrow> states u t = T_READY" by (simp add: ready_def states_def)
    then show "ready ?u t = runnable s t" unfolding u(5) by (auto simp: runnable_def states_def)
  qed
  obtain nx h l where d: "links_ok (relink nx h l ?u) (drain (ready ?u) [0, 1, 2] ?qs)"
    "dequeue ?u = Some (find (ready ?u) (?qs 0 @ ?qs 1 @ ?qs 2), relink nx h l ?u)"
    using dequeue_queue [OF lo] by blast
  let ?n = "next_thread (runnable s) ?qs" and ?s = "switch_to (next_thread (runnable s) ?qs) (relink nx h l ?u)"
  have e: "sched_next s = Some (?n, ?s)"
    unfolding sched_next_def u(1) using d(2) by (simp add: R next_thread_def Let_def split: option.split)
  have nr: "states u t \<noteq> T_RUNNING" if "t < MAX_THREADS" for t
    using view_okD(5) [OF vo that] u(2,4) that by (auto simp: states_def)
  have "view_ok ((states u)(?n := T_RUNNING)) (prios u) ?n (drain (runnable s) [0, 1, 2] ?qs)"
    by (rule drained_view_ok [OF lo vo nr]) (simp_all add: R [symmetric] ready_def states_def fun_eq_iff)
  then have "sched_ok ?s (drain (runnable s) [0, 1, 2] ?qs)"
    using d(1) unfolding sched_ok_def links_ok_def ready_rep_def R by (simp add: v)
  moreover have "states ?s = (states u)(?n := T_RUNNING)" "prios ?s = prios s" "\<not> need_resched ?s"
    by (simp_all add: v u(6))
  ultimately show ?thesis using e unfolding n_def u(5) by (intro exI [of _ ?s]) simp
qed

lemma sched_next_result:
  assumes "sched_ok s qs" "\<not> keeps_running s"
  shows "\<exists>s' qs'. sched_next s = Some (next_thread (runnable s) (requeued s qs), s') \<and> sched_ok s' qs' \<and>
     current s' = next_thread (runnable s) (requeued s qs) \<and> \<not> need_resched s' \<and>
     tstate (threads s' (current s')) = T_RUNNING"
proof -
  let ?n = "next_thread (runnable s) (requeued s qs)"
  obtain s' where s': "sched_next s = Some (?n, s')" "sched_ok s' (drain (runnable s) [0, 1, 2] (requeued s qs))"
    "current s' = ?n" "\<not> need_resched s'"
    "states s' = (if tstate (threads s (current s)) = T_RUNNING \<and> current s \<noteq> IDLE
                  then (states s)(current s := T_READY) else states s)(?n := T_RUNNING)"
    using sched_next_view [OF assms] by blast
  have "tstate (threads s' ?n) = T_RUNNING" using fun_cong [OF s'(5), of ?n] by (simp add: states_def)
  then show ?thesis using s' by auto
qed

section \<open>Correctness of the scheduler\<close>

lemma next_thread_urgent:
  assumes "sched_ok s qs" "\<not> keeps_running s" "runnable s t"
  defines "n \<equiv> next_thread (runnable s) (requeued s qs)"
  shows "n \<noteq> IDLE \<and> priority (threads s n) \<le> priority (threads s t)"
proof -
  let ?qs = "requeued s qs"
  obtain u where u: "current u = current s" "sched_ok u ?qs" "prios u = prios s"
    and st: "states u = (if tstate (threads s (current s)) = T_RUNNING \<and> current s \<noteq> IDLE
                 then (states s)(current s := T_READY) else states s)"
  proof -
    obtain stay u where r: "requeue_current s = (stay, u)" by (cases "requeue_current s")
    then have "prios u = prios s" using requeue_current_prios [of s] by simp
    moreover have "\<not> stay" using requeue_current_ok [OF assms(1)] r assms(2) by simp
    moreover note requeue_current_ok [OF assms(1), unfolded r prod.case]
    ultimately show ?thesis by (intro that [of u]) simp_all
  qed
  have vo: "view_ok (states u) (prios u) (current u) ?qs" using u(2) by (simp add: sched_ok_def)
  have run: "runnable s x \<longleftrightarrow> states u x = T_READY" for x
    unfolding st by (auto simp: runnable_def states_def)
  have pu: "prios u x = priority (threads s x)" for x by (simp only: u(3)) (simp add: prios_def)
  have rt: "states u t = T_READY" using assms(3) run by blast
  have t: "priority (threads s t) < PRIORITIES" "t \<in> set (?qs (priority (threads s t)))"
    using view_okD(3) [OF vo rt] view_okD(4) [OF vo rt] by (simp_all only: pu)
  have "t \<in> set (concat (map ?qs [0, 1, 2]))" using t(2) t(1) [unfolded less3] by auto
  then have "find (runnable s) (concat (map ?qs [0, 1, 2])) \<noteq> None"
    using assms(3) unfolding find_None_iff by blast
  then obtain x where f: "find (runnable s) (concat (map ?qs [0, 1, 2])) = Some x" by blast
  then have n: "n = x" by (simp add: n_def next_thread_def)
  from find_first_queue [OF f] obtain us p vs where
    p: "[0, 1, 2] = us @ p # vs" "x \<in> set (?qs p)" "runnable s x" "\<forall>q\<in>set us. \<forall>y\<in>set (?qs q). \<not> runnable s y"
    by blast
  have ps: "p = 0 \<and> us = [] \<or> p = 1 \<and> us = [0] \<or> p = 2 \<and> us = [0, 1]"
    using p(1) by (auto simp: Cons_eq_append_conv)
  then have p3: "p < PRIORITIES" by auto
  have "states u x = T_READY" using p(3) run by blast
  then have px: "priority (threads s x) = p" using view_okD(2) [OF vo p3 p(2)] pu by simp
  have "priority (threads s t) \<notin> set us" using p(4) t(2) assms(3) by blast
  then have "p \<le> priority (threads s t)" using ps by auto
  moreover have "x \<noteq> IDLE" using view_okD(1) [OF vo p3 p(2)] by simp
  ultimately show ?thesis using n px by simp
qed

text \<open>C9: \<open>sched_next\<close> always returns, keeps the ready queues well formed, and
  chooses well: the current thread goes on when nothing asked for a switch; otherwise, with the current
  thread back in its queue (at the end once its slice is used up, else at the front), the thread that
  has waited longest at the most urgent priority that has a ready thread, and the idle thread only if
  nothing can run.\<close>

theorem sched_next_fair:
  assumes "sched_ok s qs"
  shows "\<exists>n s' qs'. sched_next s = Some (n, s') \<and> sched_ok s' qs' \<and> current s' = n \<and>
     (if keeps_running s then n = current s \<and> s' = s
      else n = next_thread (runnable s) (requeued s qs) \<and> \<not> need_resched s' \<and> tstate (threads s' n) = T_RUNNING \<and>
        (\<forall>t. runnable s t \<longrightarrow> n \<noteq> IDLE \<and> priority (threads s n) \<le> priority (threads s t)))"
proof (cases "keeps_running s")
  case True
  then have "sched_next s = Some (current s, s)"
    using requeue_current_ok [OF assms] by (cases "requeue_current s") (auto simp: sched_next_def)
  then show ?thesis using True assms by auto
next
  case False
  then show ?thesis using sched_next_result [OF assms False] next_thread_urgent [OF assms False] by fastforce
qed

section \<open>The other operations keep the queues\<close>

lemma sched_ok_cong:
  assumes "sched_ok s qs" "nexts u = nexts s" "queue_head u = queue_head s" "queue_tail u = queue_tail s"
    "states u = states s" "prios u = prios s" "current u = current s"
  shows "sched_ok u qs"
  using assms by (simp add: sched_ok_def links_ok_def ready_rep_def)

lemma urge_ok: "sched_ok s qs \<Longrightarrow> sched_ok (urge t s) qs"
  by (rule sched_ok_cong [of s]) (simp_all add: urge_def nexts_def states_def prios_def)

lemma queued_states: "sched_ok s qs \<Longrightarrow> queued qs t \<Longrightarrow> tstate (threads s t) = T_READY \<or> tstate (threads s t) = T_DEAD"
  using view_okD(2) [of "states s" "prios s" "current s" qs] by (auto simp: sched_ok_def states_def queued_def)

lemma wake_queued:
  assumes "sched_ok s qs" "t < MAX_THREADS" "tstate (threads s t) = T_BLOCKED" "priority (threads s t) < PRIORITIES"
  shows "sched_ok (sched_wake t result s) (qs(priority (threads s t) := qs (priority (threads s t)) @ [t]))"
proof -
  let ?u = "upd_thread t (\<lambda>x. x\<lparr>frame := (frame x)\<lparr>regs := (regs (frame x))(1 := word_of_int result)\<rparr>,
       reason := B_NONE, timed := False\<rparr>) s"
  have u: "sched_ok ?u qs"
    by (rule sched_ok_cong [OF assms(1)]) (auto simp: nexts_def states_def prios_def upd_thread_def fun_eq_iff)
  have nq: "\<not> queued qs t" using queued_states [OF assms(1), of t] assms(3) by auto
  have "sched_ok (enqueue t False ?u) (qs(priority (threads ?u t) := qs (priority (threads ?u t)) @ [t]))"
    using enqueue_ok [OF u nq assms(2), of False] assms(4) by (simp add: upd_thread_def)
  then show ?thesis by (simp add: sched_wake_def urge_ok upd_thread_def)
qed

text \<open>Waking a blocked thread puts it at the end of the queue of its priority, behind every
  thread that was there, and keeps the queues well formed.\<close>

theorem sched_wake_ok:
  assumes "sched_ok s qs" "t < MAX_THREADS" "tstate (threads s t) = T_BLOCKED" "priority (threads s t) < PRIORITIES"
  shows "sched_ok (sched_wake t result s) (qs(priority (threads s t) := qs (priority (threads s t)) @ [t]))"
  by (rule wake_queued [OF assms])

lemma sched_make_ready_ok:
  assumes "sched_ok s qs" "t < MAX_THREADS" "\<not> queued qs t" "t \<noteq> current s"
  defines "p \<equiv> (if PRIORITIES \<le> priority (threads s t) then PRIO_APP else priority (threads s t))"
  shows "sched_ok (sched_make_ready t s) (qs(p := qs p @ [t]))"
proof -
  let ?u = "if PRIORITIES \<le> priority (threads s t) then upd_thread t (\<lambda>x. x\<lparr>priority := PRIO_APP\<rparr>) s else s"
  have pt: "priority (threads ?u t) = p" "current ?u = current s" by (auto simp: p_def upd_thread_def)
  have ns: "tstate (threads s t) = T_READY \<Longrightarrow> False"
    using view_okD(3,4) [of "states s" "prios s" "current s" qs t] assms(1,3)
    by (auto simp: sched_ok_def states_def prios_def queued_def)
  have u: "sched_ok ?u qs"
  proof (cases "PRIORITIES \<le> priority (threads s t)")
    case True
    have "nexts ?u = nexts s" "queue_head ?u = queue_head s" "queue_tail ?u = queue_tail s"
      by (auto simp: nexts_def upd_thread_def fun_eq_iff)
    then have l: "links_ok ?u qs" using assms(1) by (simp add: sched_ok_def links_ok_def ready_rep_def)
    have st: "states ?u = states s" "prios ?u = (prios s)(t := PRIO_APP)" "current ?u = current s"
      using True by (auto simp: states_def prios_def upd_thread_def fun_eq_iff)
    have vo: "view_ok (states s) (prios s) (current s) qs" using assms(1) by (simp add: sched_ok_def)
    have "view_ok (states s) ((prios s)(t := PRIO_APP)) (current s) qs"
    proof (rule view_okI)
      show "x < MAX_THREADS \<and> (states s x = T_READY \<and> ((prios s)(t := PRIO_APP)) x = q \<or> states s x = T_DEAD)"
        if "q < PRIORITIES" "x \<in> set (qs q)" for q x
        using view_okD(1) [OF vo that] view_okD(2) [OF vo that] assms(3) that by (auto simp: queued_def)
      show "((prios s)(t := PRIO_APP)) x < PRIORITIES \<and> x \<in> set (qs (((prios s)(t := PRIO_APP)) x))"
        if "states s x = T_READY" for x
        using view_okD(3) [OF vo that] view_okD(4) [OF vo that] ns that by (auto simp: states_def)
      show "x = current s" if "x < MAX_THREADS" "states s x = T_RUNNING" for x by (rule view_okD(5) [OF vo that])
      show "current s = IDLE \<or> current s < MAX_THREADS \<and> ((prios s)(t := PRIO_APP)) (current s) < PRIORITIES"
        using view_okD(6) [OF vo] assms(4) by simp
    qed
    then show ?thesis using l unfolding sched_ok_def st by simp
  qed (simp add: assms(1))
  have "sched_ok (enqueue t False ?u) (qs(p := qs p @ [t]))"
    using enqueue_ok [OF u assms(3,2), of False] pt by (auto simp: p_def)
  then show ?thesis unfolding sched_make_ready_def by (rule urge_ok)
qed

lemma view_ok_step:
  assumes "view_ok st pr cur qs"
    "\<And>t. st' t = st t \<or> st' t = T_DEAD \<or> \<not> queued qs t \<and> st' t \<noteq> T_READY \<and> st' t \<noteq> T_RUNNING"
  shows "view_ok st' pr cur qs"
proof (rule view_okI)
  show "t < MAX_THREADS \<and> (st' t = T_READY \<and> pr t = p \<or> st' t = T_DEAD)" if "p < PRIORITIES" "t \<in> set (qs p)" for p t
    using view_okD(1) [OF assms(1) that] view_okD(2) [OF assms(1) that] assms(2) [of t] that
    by (auto simp: queued_def)
  show "pr t < PRIORITIES \<and> t \<in> set (qs (pr t))" if "st' t = T_READY" for t
  proof -
    have "st t = T_READY" using assms(2) [of t] that by auto
    then show ?thesis using view_okD(3) [OF assms(1)] view_okD(4) [OF assms(1)] by blast
  qed
  show "t = cur" if "t < MAX_THREADS" "st' t = T_RUNNING" for t
  proof -
    have "st t = T_RUNNING" using assms(2) [of t] that by auto
    then show ?thesis using view_okD(5) [OF assms(1) that(1)] by blast
  qed
  show "cur = IDLE \<or> cur < MAX_THREADS \<and> pr cur < PRIORITIES" by (rule view_okD(6) [OF assms(1)])
qed

lemma sched_ok_step:
  assumes "sched_ok s qs" "nexts u = nexts s" "queue_head u = queue_head s" "queue_tail u = queue_tail s"
    "prios u = prios s" "current u = current s"
    "\<And>t. states u t = states s t \<or> states u t = T_DEAD \<or>
       \<not> queued qs t \<and> states u t \<noteq> T_READY \<and> states u t \<noteq> T_RUNNING"
  shows "sched_ok u qs"
proof -
  have "view_ok (states u) (prios s) (current s) qs"
    by (rule view_ok_step [of "states s"]) (use assms(1,7) in \<open>auto simp: sched_ok_def\<close>)
  then show ?thesis using assms(1-6) by (simp add: sched_ok_def links_ok_def ready_rep_def)
qed

lemma sched_kill_proc_ok: "sched_ok s qs \<Longrightarrow> sched_ok (sched_kill_proc p s) qs"
  by (rule sched_ok_step [of s]) (auto simp: sched_kill_proc_def nexts_def states_def prios_def fun_eq_iff)

lemma sched_block_ok:
  assumes "sched_ok s qs" "\<not> queued qs t"
  shows "sched_ok (sched_block t why timeout s) qs"
  by (rule sched_ok_step [OF assms(1)])
     (use assms(2) in \<open>auto simp: sched_block_def nexts_def states_def prios_def upd_thread_def fun_eq_iff\<close>)

definition fresh_thread :: "thread \<Rightarrow> thread" where
  "fresh_thread x = x\<lparr>tstate := T_FREE, wait_proc := None, wait_thread := None,
     reason := B_NONE, timed := False, tnext := None, slice := SLICE_TICKS\<rparr>"

lemma fresh_thread_simps [simp]:
  "tstate (fresh_thread x) = T_FREE" "priority (fresh_thread x) = priority x" "trefs (fresh_thread x) = trefs x"
  by (simp_all add: fresh_thread_def)

lemma sched_alloc_thread_Some:
  assumes "sched_alloc_thread s = (Some t, s')"
  shows "t < MAX_THREADS" "thread_reusable s t" "s' = upd_thread t fresh_thread s"
proof -
  have f: "find (thread_reusable s) [0..<MAX_THREADS] = Some t" and s': "s' = upd_thread t fresh_thread s"
    using assms unfolding sched_alloc_thread_def fresh_thread_def [abs_def] by (auto split: option.splits)
  show "t < MAX_THREADS" "thread_reusable s t" using find_SomeD [OF f] by simp_all
  show "s' = upd_thread t fresh_thread s" by (rule s')
qed

lemma fresh_links:
  assumes "links_ok s qs" "\<not> queued qs t"
  shows "links_ok (upd_thread t fresh_thread s) qs"
proof -
  let ?u = "upd_thread t fresh_thread s"
  have nx: "nexts ?u x = nexts s x" if "x \<noteq> t" for x using that by (simp add: nexts_def upd_thread_def)
  have h: "queue_head ?u = queue_head s" "queue_tail ?u = queue_tail s" by (simp_all add: upd_thread_def)
  have "ready_rep ?u p (qs p)" if p: "p < PRIORITIES" for p
  proof -
    have r: "queue_rep (nexts s) (queue_head s p) (queue_tail s p) (qs p)"
      using assms(1) p by (simp add: links_ok_def ready_rep_def)
    have "t \<notin> set (qs p)" using assms(2) p by (auto simp: queued_def)
    from queue_rep_other [OF r this nx]
    have "queue_rep (nexts ?u) (queue_head s p) (queue_tail s p) (qs p)" .
    then show ?thesis by (simp only: ready_rep_def h)
  qed
  then show ?thesis using assms(1) by (simp add: links_ok_def)
qed

lemma fresh_view:
  "states (upd_thread t fresh_thread s) = (states s)(t := T_FREE)" "prios (upd_thread t fresh_thread s) = prios s"
  "current (upd_thread t fresh_thread s) = current s" "trefs (threads (upd_thread t fresh_thread s) t) = trefs (threads s t)"
  by (auto simp: states_def prios_def upd_thread_def fun_eq_iff)

lemma alloc_queued:
  assumes "sched_ok s qs" "sched_alloc_thread s = (Some t, s')" "\<not> queued qs t"
  shows "sched_ok s' qs"
proof -
  note a = sched_alloc_thread_Some [OF assms(2)]
  have "view_ok ((states s)(t := T_FREE)) (prios s) (current s) qs"
    by (rule view_ok_step [of "states s"]) (use assms(1,3) in \<open>simp_all add: sched_ok_def\<close>)
  then show ?thesis using fresh_links [OF _ assms(3)] assms(1) unfolding sched_ok_def a(3) fresh_view by blast
qed

text \<open>Handing out a thread slot keeps the ready queues well formed when the slot found is in none
  of them. \<open>sched_alloc_thread\<close> does not check that; \<open>lost_thread\<close> shows what happens otherwise.\<close>

theorem sched_alloc_thread_ok:
  assumes "sched_ok s qs" "sched_alloc_thread s = (Some t, s')" "\<not> queued qs t"
  shows "sched_ok s' qs \<and> t < MAX_THREADS \<and> t \<noteq> current s' \<and> trefs (threads s' t) = 0 \<and>
     tstate (threads s t) \<in> {T_FREE, T_DEAD} \<and> tstate (threads s' t) = T_FREE"
proof -
  note a = sched_alloc_thread_Some [OF assms(2)]
  have "sched_ok s' qs" by (rule alloc_queued [OF assms])
  moreover have "tstate (threads s' t) = T_FREE" using fresh_view(1) [of t s] by (simp add: a(3) upd_thread_def)
  moreover have "t \<noteq> current s'" "trefs (threads s' t) = 0" "tstate (threads s t) \<in> {T_FREE, T_DEAD}"
    using a(2) fresh_view(3,4) [of t s] by (auto simp: a(3) thread_reusable_def)
  ultimately show ?thesis using a(1) by blast
qed

section \<open>A ready thread that is never run\<close>

text \<open>Thread 0 runs (process 0, priority 1); threads 1 and 2 (processes 1 and 2) are
  ready behind each other at priority 2.\<close>

definition sched_sample :: kstate where
  "sched_sample = undefined\<lparr>
     threads := (\<lambda>t. undefined\<lparr>
       tstate := if t = 0 then T_RUNNING else if t = 1 \<or> t = 2 then T_READY else T_FREE,
       priority := if t = 0 then 1 else if t = IDLE then PRIO_IDLE else 2, tproc := t,
       tnext := if t = 1 then Some 2 else None, trefs := 0, slice := 1, reason := B_NONE\<rparr>),
     current := 0, queue_head := (\<lambda>p. if p = 2 then Some 1 else None),
     queue_tail := (\<lambda>p. if p = 2 then Some 2 else None), need_resched := False\<rparr>"

definition sample_qs :: "nat \<Rightarrow> nat list" where
  "sample_qs p = (if p = 2 then [1, 2] else [])"

lemma sched_sample_ok: "sched_ok sched_sample sample_qs"
proof -
  have "links_ok sched_sample sample_qs"
    by (auto simp: links_ok_def ready_rep_def queue_rep_def sched_sample_def sample_qs_def nexts_def)
  moreover have "view_ok (states sched_sample) (prios sched_sample) (current sched_sample) sample_qs"
    by (rule view_okI)
       (auto simp: sched_sample_def sample_qs_def states_def prios_def split: if_splits)
  ultimately show ?thesis by (simp add: sched_ok_def)
qed

theorem sched_next_fair_witness:
  "\<exists>s qs. sched_ok s qs \<and> \<not> keeps_running s \<and> next_thread (runnable s) (requeued s qs) = 1 \<and>
     (\<exists>n s' qs'. sched_next s = Some (n, s') \<and> sched_ok s' qs' \<and> current s' = n \<and> n = 1)"
proof -
  let ?s = "sched_block 0 B_SLEEP 1 sched_sample"
  have "\<not> queued sample_qs 0" by (auto simp: queued_def sample_qs_def)
  then have ok: "sched_ok ?s sample_qs" by (rule sched_block_ok [OF sched_sample_ok])
  have k: "\<not> keeps_running ?s" by (simp add: keeps_running_def sched_block_def upd_thread_def sched_sample_def)
  have n: "next_thread (runnable ?s) (requeued ?s sample_qs) = 1"
    by (simp add: next_thread_def runnable_def requeued_def sched_block_def upd_thread_def sched_sample_def
        sample_qs_def)
  from sched_next_fair [OF ok] k n show ?thesis using ok by (metis (full_types))
qed

theorem sched_wake_ok_witness:
  "\<exists>s qs. sched_ok s qs \<and> tstate (threads s 0) = T_BLOCKED \<and>
     sched_ok (sched_wake 0 0 s) (qs(priority (threads s 0) := qs (priority (threads s 0)) @ [0]))"
proof -
  let ?s = "sched_block 0 B_SLEEP 1 sched_sample"
  have "\<not> queued sample_qs 0" by (auto simp: queued_def sample_qs_def)
  then have ok: "sched_ok ?s sample_qs" by (rule sched_block_ok [OF sched_sample_ok])
  have b: "tstate (threads ?s 0) = T_BLOCKED" "priority (threads ?s 0) < PRIORITIES"
    by (simp_all add: sched_block_def upd_thread_def sched_sample_def)
  have "sched_ok (sched_wake 0 0 ?s) (sample_qs(priority (threads ?s 0) := sample_qs (priority (threads ?s 0)) @ [0]))"
    by (rule sched_wake_ok [OF ok _ b]) simp
  then show ?thesis using ok b(1) by blast
qed

lemma sched_sample_simps:
  "queue_head sched_sample p = (if p = 2 then Some 1 else None)"
  "queue_tail sched_sample p = (if p = 2 then Some 2 else None)"
  "tnext (threads sched_sample t) = (if t = 1 then Some 2 else None)" "trefs (threads sched_sample t) = 0"
  "tstate (threads sched_sample t) = (if t = 0 then T_RUNNING else if t = 1 \<or> t = 2 then T_READY else T_FREE)"
  "priority (threads sched_sample t) = (if t = 0 then 1 else if t = IDLE then PRIO_IDLE else 2)"
  "current sched_sample = 0" "need_resched sched_sample = False" "tproc (threads sched_sample t) = t"
  by (simp_all add: sched_sample_def)

lemma sample_alloc: "find (thread_reusable sched_sample) [0..<MAX_THREADS] = Some 3"
  by (rule find_upt) (simp_all add: thread_reusable_def sched_sample_simps del: One_nat_def)

theorem sched_alloc_thread_ok_witness:
  "\<exists>s qs t s'. sched_ok s qs \<and> sched_alloc_thread s = (Some t, s') \<and> \<not> queued qs t \<and> sched_ok s' qs"
proof -
  obtain s' where a: "sched_alloc_thread sched_sample = (Some 3, s')"
    by (simp add: sched_alloc_thread_def sample_alloc)
  have "\<not> queued sample_qs 3" by (auto simp: queued_def sample_qs_def)
  then show ?thesis
    using sched_alloc_thread_ok [OF sched_sample_ok a] sched_sample_ok a by blast
qed

text \<open>Process 1 killed, its slot handed out, and the new thread made ready.\<close>

definition sched_killed :: kstate where
  "sched_killed = sched_kill_proc 1 sched_sample"

definition sched_reused :: kstate where
  "sched_reused = sched_make_ready 1 (upd_thread 1 fresh_thread sched_killed)"

lemma sched_killed_simps:
  "queue_head sched_killed = queue_head sched_sample" "queue_tail sched_killed = queue_tail sched_sample"
  "tnext (threads sched_killed t) = tnext (threads sched_sample t)" "trefs (threads sched_killed t) = 0"
  "tstate (threads sched_killed t) = (if t = 0 then T_RUNNING else if t = 1 then T_DEAD else if t = 2 then T_READY else T_FREE)"
  "priority (threads sched_killed t) = priority (threads sched_sample t)"
  "current sched_killed = 0" "need_resched sched_killed = False"
  by (auto simp: sched_killed_def sched_kill_proc_def sched_sample_simps)

lemma killed_alloc: "sched_alloc_thread sched_killed = (Some 1, upd_thread 1 fresh_thread sched_killed)"
proof -
  have "find (thread_reusable sched_killed) [0..<MAX_THREADS] = Some 1"
    by (rule find_upt) (simp_all add: thread_reusable_def sched_killed_simps del: One_nat_def)
  then show ?thesis by (simp add: sched_alloc_thread_def fresh_thread_def [abs_def])
qed

lemma fresh_killed_simps:
  "queue_head (upd_thread 1 fresh_thread sched_killed) = queue_head sched_sample"
  "queue_tail (upd_thread 1 fresh_thread sched_killed) = queue_tail sched_sample"
  "nexts (upd_thread 1 fresh_thread sched_killed) = (\<lambda>t. None)"
  "states (upd_thread 1 fresh_thread sched_killed) = (states sched_killed)(1 := T_FREE)"
  "priority (threads (upd_thread 1 fresh_thread sched_killed) t) = priority (threads sched_sample t)"
  "current (upd_thread 1 fresh_thread sched_killed) = 0" "need_resched (upd_thread 1 fresh_thread sched_killed) = False"
  by (auto simp: upd_thread_def sched_killed_simps sched_sample_simps nexts_def states_def fun_eq_iff fresh_thread_def)

lemma sched_reused_eq: "sched_reused = enqueue 1 False (upd_thread 1 fresh_thread sched_killed)"
proof -
  let ?u = "upd_thread 1 fresh_thread sched_killed"
  have "priority (threads (enqueue 1 False ?u) t) = priority (threads sched_sample t)" for t
    using fun_cong [OF enqueue_view(2) [of 1 False ?u], of t] fresh_killed_simps(5) [of t] by (simp add: prios_def)
  then show ?thesis
    by (simp add: sched_reused_def sched_make_ready_def urge_def fresh_killed_simps(5,6) sched_sample_simps
        del: One_nat_def)
qed

lemma killed_states:
  "states sched_killed t = (if t = 0 then T_RUNNING else if t = 1 then T_DEAD else if t = 2 then T_READY else T_FREE)"
  by (simp add: states_def sched_killed_simps)

lemma sched_reused_simps:
  "queue_head sched_reused p = (if p = 2 then Some 1 else None)"
  "nexts sched_reused t = (if t = 2 then Some 1 else None)"
  "states sched_reused t = (if t = 0 then T_RUNNING else if t = 1 \<or> t = 2 then T_READY else T_FREE)"
  "current sched_reused = 0" "need_resched sched_reused = False"
  unfolding sched_reused_eq
  by (auto simp: enqueue_tail_links fresh_killed_simps sched_sample_simps killed_states simp del: One_nat_def)

lemma sched_block_simps:
  "queue_head (sched_block t w k s) = queue_head s"
  "nexts (sched_block t w k s) = nexts s" "states (sched_block t w k s) = (states s)(t := T_BLOCKED)"
  "current (sched_block t w k s) = current s" "need_resched (sched_block t w k s) = need_resched s"
  by (auto simp: sched_block_def upd_thread_def nexts_def states_def fun_eq_iff)

lemma resched_simps:
  "queue_head (s\<lparr>need_resched := b\<rparr>) = queue_head s" "nexts (s\<lparr>need_resched := b\<rparr>) = nexts s"
  "states (s\<lparr>need_resched := b\<rparr>) = states s"
  by (simp_all add: nexts_def states_def)

lemma requeue_blocked:
  "requeue_current (sched_block (current s) w k s) = (False, sched_block (current s) w k s)"
  using fun_cong [OF sched_block_simps(3) [of "current s" w k s], of "current s"]
  by (simp add: requeue_current_def sched_block_simps states_def Let_def)

lemma dequeue_lone:
  assumes "queue_head s = (\<lambda>p. if p = 2 then Some t else None)" "states s t = T_READY"
  shows "dequeue s = Some (Some t, unlink_head 2 t s)"
proof -
  have "[0..<PRIORITIES] = [0, 1, 2]" by (simp add: upt_rec)
  moreover have "dequeue_at p s = Some (None, s)" if "p \<noteq> 2" for p
    using that by (subst dequeue_at.simps) (simp add: assms(1))
  moreover have "dequeue_at 2 s = Some (Some t, unlink_head 2 t s)"
    using assms(2) by (subst dequeue_at.simps) (simp add: assms(1) states_def)
  ultimately show ?thesis by (simp add: dequeue_def)
qed

lemma dequeue_empty:
  assumes "queue_head s = (\<lambda>p. None)"
  shows "dequeue s = Some (None, s)"
proof -
  have "[0..<PRIORITIES] = [0, 1, 2]" by (simp add: upt_rec)
  moreover have "dequeue_at p s = Some (None, s)" for p
    by (subst dequeue_at.simps) (simp add: assms)
  ultimately show ?thesis by (simp add: dequeue_def)
qed

text \<open>C13: The scheduler can lose a ready thread. Killing a process leaves its ready threads linked in
  the ready queue (\<open>dequeue\<close> is to skip them), but \<open>sched_alloc_thread\<close> hands out such a slot with its link
  cleared, which cuts the queue behind it. From a well-formed state with threads 1 and 2 ready in
  that order, killing process 1 and starting a thread in the freed slot leaves thread 2 ready but in
  no queue: once 0 and 1 block, \<open>sched_next\<close> chooses the idle thread and 2 is never run.\<close>

theorem lost_thread:
  "\<exists>s t s' r s1 s2. sched_ok s sample_qs \<and> sample_qs 2 = [1, 2] \<and> current s = 0 \<and>
     sched_alloc_thread (sched_kill_proc 1 s) = (Some t, s') \<and> r = sched_make_ready t s' \<and>
     tstate (threads r 2) = T_READY \<and> \<not> (\<exists>p xs. ready_rep r p xs \<and> 2 \<in> set xs) \<and>
     sched_next (sched_block 0 B_SLEEP 1 r) = Some (1, s1) \<and>
     sched_next (sched_block 1 B_SLEEP 1 s1) = Some (IDLE, s2) \<and> tstate (threads s2 2) = T_READY"
proof -
  let ?r = sched_reused
  let ?b = "(sched_block 0 B_SLEEP 1 ?r)\<lparr>need_resched := False\<rparr>"
  let ?s1 = "switch_to 1 (unlink_head 2 1 ?b)"
  let ?c = "(sched_block 1 B_SLEEP 1 ?s1)\<lparr>need_resched := False\<rparr>"
  have "dequeue ?b = Some (Some 1, unlink_head 2 1 ?b)"
    by (rule dequeue_lone) (simp_all add: resched_simps sched_block_simps sched_reused_simps fun_eq_iff del: One_nat_def)
  then have n1: "sched_next (sched_block 0 B_SLEEP 1 ?r) = Some (1, ?s1)"
    using requeue_blocked [of ?r B_SLEEP 1] by (simp add: sched_next_def Let_def sched_reused_simps(4))
  have q1: "queue_head ?s1 = (\<lambda>p. None)"
    by (simp add: unlink_head_relink sched_block_simps resched_simps sched_reused_simps fun_eq_iff del: One_nat_def)
  have "dequeue ?c = Some (None, ?c)"
    by (rule dequeue_empty) (simp only: resched_simps sched_block_simps q1)
  then have n2: "sched_next (sched_block 1 B_SLEEP 1 ?s1) = Some (IDLE, switch_to IDLE ?c)"
    using requeue_blocked [of ?s1 B_SLEEP 1] by (simp add: sched_next_def Let_def)
  have "states (switch_to IDLE ?c) 2 = T_READY"
    by (simp add: resched_simps sched_block_simps sched_reused_simps)
  then have st: "tstate (threads (switch_to IDLE ?c) 2) = T_READY" by (simp only: states_def)
  have out: "2 \<notin> set xs" if "ready_rep ?r p xs" for p xs
  proof -
    have "linked (nexts ?r) (queue_head ?r p) (if p = 2 then [1] else [])"
      by (simp add: sched_reused_simps)
    moreover have "linked (nexts ?r) (queue_head ?r p) xs" using that by (simp add: ready_rep_def queue_rep_def)
    ultimately have "xs = (if p = 2 then [1] else [])" using linked_unique by metis
    then show ?thesis by simp
  qed
  have "states ?r 2 = T_READY" by (simp add: sched_reused_simps)
  then have r2: "tstate (threads ?r 2) = T_READY" by (simp only: states_def)
  have qs2: "sample_qs 2 = [1, 2]" "current sched_sample = 0" by (simp_all add: sample_qs_def sched_sample_simps)
  show ?thesis
    using out by (intro exI conjI)
      (rule sched_sample_ok qs2 killed_alloc [unfolded sched_killed_def] sched_reused_def [unfolded sched_killed_def]
        r2 n1 n2 st | blast)+
qed

end
