(* ===== verification/Simulation.thy ===== *)
theory Simulation
  imports Main
begin

text \<open>
  Traces of labelled steps and forward simulations between them: the contract by which a component's
  detailed steps implement an abstract specification of it.
\<close>

section \<open>Traces\<close>

inductive trace :: "('s \<Rightarrow> 'e \<Rightarrow> 's \<Rightarrow> bool) \<Rightarrow> 's \<Rightarrow> 'e list \<Rightarrow> 's \<Rightarrow> bool" for step where
  trace_stop: "trace step s [] s"
| trace_step: "step s e s' \<Longrightarrow> trace step s' es t \<Longrightarrow> trace step s (e # es) t"

inductive_simps trace_simps [simp]: "trace step s [] t" "trace step s (e # es) t"

lemma trace_append: "trace step s (es @ fs) t \<longleftrightarrow> (\<exists>u. trace step s es u \<and> trace step u fs t)"
  by (induction es arbitrary: s) auto

lemma trace_invariant:
  assumes "trace step s es t" "I s" "\<And>s e t. step s e t \<Longrightarrow> I s \<Longrightarrow> I t"
  shows "I t"
  using assms by (induction rule: trace.induct) blast+

section \<open>Forward simulation\<close>

locale simulation =
  fixes cstep :: "'c \<Rightarrow> 'e \<Rightarrow> 'c \<Rightarrow> bool"
    and astep :: "'a \<Rightarrow> 'e \<Rightarrow> 'a \<Rightarrow> bool"
    and related :: "'c \<Rightarrow> 'a \<Rightarrow> bool"
  assumes step_related: "cstep c e d \<Longrightarrow> related c a \<Longrightarrow> \<exists>b. astep a e b \<and> related d b"
begin

lemma trace_related:
  assumes "trace cstep c es d" "related c a"
  shows "\<exists>b. trace astep a es b \<and> related d b"
  using assms
proof (induction arbitrary: a rule: trace.induct)
  case (trace_step s e s' es t)
  from step_related [OF trace_step.hyps(1) trace_step.prems] obtain b where b: "astep a e b" "related s' b" by blast
  from trace_step.IH [OF b(2)] b(1) show ?case by (meson trace.trace_step)
qed auto

text \<open>What holds of every state the specification can get into holds, through the relation, of every
  state the implementation can get into.\<close>

lemma abstract_invariant:
  assumes "trace cstep c es d" "related c a" "I a" "\<And>a e b. astep a e b \<Longrightarrow> I a \<Longrightarrow> I b"
  shows "\<exists>b. related d b \<and> I b"
proof -
  obtain b where "trace astep a es b" "related d b" using trace_related [OF assms(1,2)] by blast
  then show ?thesis using trace_invariant [of astep a es b I] assms(3,4) by blast
qed

end

end
