(* ===== verification/Sched_Runs.thy ===== *)
theory Sched_Runs
  imports Sched Simulation
begin

text \<open>
  The scheduler as a state machine: the calls the kernel makes of \<open>foundation/kernel/sched.c\<close> as
  labelled steps, the specification they implement (one first-in first-out lane of ready threads for each
  priority), the states that can be reached from start-up, and the round robin.
\<close>

section \<open>The specification\<close>

text \<open>The thread on the CPU (none: the idle thread, or a thread that has just blocked or died),
  the ready threads of each priority, oldest first, and the priority of each thread.\<close>

record rq =
  on_cpu :: "nat option"
  lanes :: "nat \<Rightarrow> nat list"
  lane_of :: "nat \<Rightarrow> nat"








section \<open>The steps of the code\<close>


definition on_core :: "kstate \<Rightarrow> bool" where
  "on_core s \<longleftrightarrow> tstate (threads s (current s)) = T_RUNNING \<and> current s \<noteq> IDLE"


text \<open>The abstraction: the ready threads of the queues, without those killed while they waited.\<close>

definition rq_of :: "kstate \<Rightarrow> (nat \<Rightarrow> nat list) \<Rightarrow> rq" where
  "rq_of s qs = \<lparr>on_cpu = (if on_core s then Some (current s) else None),
     lanes = (\<lambda>p. if p < PRIORITIES then filter (ready s) (qs p) else []), lane_of = prios s\<rparr>"

lemma rq_of_simps [simp]:
  "on_cpu (rq_of s qs) = (if on_core s then Some (current s) else None)"
  "lanes (rq_of s qs) p = (if p < PRIORITIES then filter (ready s) (qs p) else [])"
  "lane_of (rq_of s qs) = prios s"
  by (simp_all add: rq_of_def)





section \<open>Every step of the code is a step of the specification\<close>











lemma urge_view [simp]: "states (urge t s) = states s" "prios (urge t s) = prios s" "current (urge t s) = current s"
  by (simp_all add: urge_def states_def prios_def)















section \<open>From start-up\<close>





section \<open>Round robin\<close>









section \<open>Samples\<close>










end
