(* ===== verification/Wax_Image.thy ===== *)
theory Wax_Image
  imports Prelude
begin

text \<open>
  The executable format (\<open>foundation/kernel/wax.c\<close>, first half): strings and signatures, blocks,
  file ranges, and the validation of WAX v2 and WAX/WAL v3 images. A file is the list of its bytes;
  its reads are by 32-bit offset, and a read past the end gives 0 (the parser's checks keep every
  read inside the file). A C string in the file is the list of its bytes up to the NUL.
\<close>

section \<open>Reading a file\<close>

datatype wax_error = WAX_OK | WAX_E_FORMAT | WAX_E_UNSUPPORTED | WAX_E_DEPENDENCY_MISSING | WAX_E_ABI_MISMATCH
  | WAX_E_DEPENDENCY_CONFLICT | WAX_E_DEPENDENCY_CYCLE | WAX_E_SYMBOL_MISSING | WAX_E_SYMBOL_MISMATCH
  | WAX_E_REGION_LIMIT | WAX_E_RESOURCE_LIMIT

abbreviation WAX_MAX_IMAGES :: nat where "WAX_MAX_IMAGES \<equiv> 8"
abbreviation WAX_MAX_BLOCKS :: u32 where "WAX_MAX_BLOCKS \<equiv> 32"
abbreviation WAX_MAX_DEPS :: u32 where "WAX_MAX_DEPS \<equiv> 8"
abbreviation WAX_REGIONS :: nat where "WAX_REGIONS \<equiv> 8"
abbreviation HEADER_V2 :: u32 where "HEADER_V2 \<equiv> 64"
abbreviation HEADER_V3 :: u32 where "HEADER_V3 \<equiv> 160"
abbreviation TYPE_WAX :: u32 where "TYPE_WAX \<equiv> 1"
abbreviation TYPE_WAL :: u32 where "TYPE_WAL \<equiv> 2"
abbreviation FLAG_DEBUG :: u32 where "FLAG_DEBUG \<equiv> 1"
abbreviation FLAG_PROTECTED :: u32 where "FLAG_PROTECTED \<equiv> 2"
abbreviation FLAG_RELOCATABLE :: u32 where "FLAG_RELOCATABLE \<equiv> 4"
abbreviation WPERM_R :: u32 where "WPERM_R \<equiv> 1"
abbreviation WPERM_RW :: u32 where "WPERM_RW \<equiv> 3"
abbreviation WPERM_RX :: u32 where "WPERM_RX \<equiv> 5"
abbreviation KIND_FUNCTION :: u32 where "KIND_FUNCTION \<equiv> 1"
abbreviation KIND_OBJECT :: u32 where "KIND_OBJECT \<equiv> 2"
abbreviation CPU_RESERVED :: u32 where "CPU_RESERVED \<equiv> 0xFFFF0000"
abbreviation NAME_MAX :: nat where "NAME_MAX \<equiv> 127"

definition rd8 :: "u8 list \<Rightarrow> u32 \<Rightarrow> u8" where
  "rd8 d i = (if unat i < length d then d ! unat i else 0)"

definition rd16 :: "u8 list \<Rightarrow> u32 \<Rightarrow> u32" where
  "rd16 d i = push_bit 8 (ucast (rd8 d i)) OR ucast (rd8 d (i + 1))"

definition rd32 :: "u8 list \<Rightarrow> u32 \<Rightarrow> u32" where
  "rd32 d i = be32 (rd8 d i) (rd8 d (i + 1)) (rd8 d (i + 2)) (rd8 d (i + 3))"

record wax_image =
  w_data :: "u8 list"
  w_at :: u32
  w_size :: u32
  w_version :: u32
  w_type :: u32
  w_base :: u32
  w_origin :: u32
  w_span :: u32
  w_align :: u32
  w_entry_offset :: u32
  w_stack_top :: u32
  w_stack_size :: u32
  w_relocatable :: bool
  w_reloc_table :: u32
  w_reloc_count :: u32
  w_heap_hint :: u32
  w_block_count :: u32
  w_block_table :: u32
  w_block_entry_size :: u32
  w_dep_count :: u32
  w_dep_table :: u32
  w_export_count :: u32
  w_export_table :: u32
  w_import_count :: u32
  w_import_table :: u32
  w_strings :: u32
  w_string_size :: u32
  w_image_id :: u32
  w_abi_major :: u32
  w_abi_minor :: u32
  w_dep_image :: "nat \<Rightarrow> nat"

text \<open>\<open>w_data\<close> and \<open>w_at\<close> are the two sides of the pointer \<open>data\<close>: the bytes and their address, which
  only the alignment tests of the loader use. \<open>no_image\<close> is the record cleared to zero.\<close>

definition no_image :: wax_image where
  "no_image = \<lparr>w_data = [], w_at = 0, w_size = 0, w_version = 0, w_type = 0, w_base = 0, w_origin = 0, w_span = 0,
     w_align = 0, w_entry_offset = 0, w_stack_top = 0, w_stack_size = 0, w_relocatable = False, w_reloc_table = 0,
     w_reloc_count = 0, w_heap_hint = 0, w_block_count = 0, w_block_table = 0, w_block_entry_size = 0,
     w_dep_count = 0, w_dep_table = 0, w_export_count = 0, w_export_table = 0, w_import_count = 0,
     w_import_table = 0, w_strings = 0, w_string_size = 0, w_image_id = 0, w_abi_major = 0, w_abi_minor = 0,
     w_dep_image = (\<lambda>_. 0)\<rparr>"

definition word :: "wax_image \<Rightarrow> u32 \<Rightarrow> u32" where
  "word im i = rd32 (w_data im) i"

section \<open>Strings\<close>

text \<open>The order of exports: the first difference, the end of a string being 0.\<close>

fun str_cmp :: "u8 list \<Rightarrow> u8 list \<Rightarrow> int" where
  "str_cmp [] [] = 0"
| "str_cmp [] (b # bs) = - uint b"
| "str_cmp (a # as) [] = uint a"
| "str_cmp (a # as) (b # bs) = (if a = b then str_cmp as bs else uint a - uint b)"

definition c_string :: "u8 list \<Rightarrow> u32 \<Rightarrow> u8 list" where
  "c_string d i = takeWhile (\<lambda>b. b \<noteq> 0) (drop (unat i) d)"

definition str_at :: "wax_image \<Rightarrow> u32 \<Rightarrow> u8 list option" where
  "str_at im i =
     (let table = w_strings im; d = w_data im in
      if i = 0 \<or> w_string_size im \<le> i \<or> rd8 d (table + (i - 1)) \<noteq> 0 \<or> rd8 d (table + i) = 0 then None
      else Some (c_string d (table + i)))"

definition is_alpha :: "u8 \<Rightarrow> bool" where
  "is_alpha c \<longleftrightarrow> is_lower c \<or> 0x41 \<le> c \<and> c \<le> 0x5A"

text \<open>\<open>id_rest True\<close>: at the start of a component; \<open>id_rest False\<close>: inside one.\<close>

fun id_rest :: "bool \<Rightarrow> u8 list \<Rightarrow> bool" where
  "id_rest True [] = False"
| "id_rest True (c # cs) = (is_lower c \<and> id_rest False cs)"
| "id_rest False [] = True"
| "id_rest False (c # cs) =
     (if is_lower c \<or> is_digit c \<or> c = 0x5F then id_rest False cs else c = 0x2E \<and> id_rest True cs)"

definition is_id :: "u8 list option \<Rightarrow> bool" where
  "is_id s = (case s of None \<Rightarrow> False | Some s \<Rightarrow> id_rest True s \<and> length s \<le> NAME_MAX)"

definition is_symbol :: "u8 list option \<Rightarrow> bool" where
  "is_symbol s = (case s of Some (c # cs) \<Rightarrow>
       (is_alpha c \<or> c = 0x5F) \<and> list_all (\<lambda>c. is_alpha c \<or> is_digit c \<or> c = 0x5F) cs \<and> length cs < NAME_MAX
     | _ \<Rightarrow> False)"

definition prefix_len :: "u8 list \<Rightarrow> u8 list \<Rightarrow> nat" where
  "prefix_len s p = (if take (length p) s = p then length p else 0)"

definition sig_type :: "u8 list \<Rightarrow> bool \<Rightarrow> nat" where
  "sig_type s result =
     (case find (\<lambda>t. prefix_len s t \<noteq> 0) (map str [''u32'', ''i32'', ''u64'', ''i64'', ''ptr'', ''fnptr'']) of
        Some t \<Rightarrow> prefix_len s t
      | None \<Rightarrow> if result then prefix_len s (str ''void'') else 0)"

lemma sig_type_shortens: "sig_type s r \<noteq> 0 \<Longrightarrow> 0 < length s"
  by (cases s) (auto simp: sig_type_def prefix_len_def str_def split: option.splits if_splits)

text \<open>The argument list after \<open>fn(\<close>: what follows its last type.\<close>

function sig_args :: "u8 list \<Rightarrow> u8 list option" where
  "sig_args s =
     (let n = sig_type s False; rest = drop n s in
      if n = 0 then None
      else if rest \<noteq> [] \<and> hd rest = 0x2C then sig_args (tl rest) else Some rest)"
  by pat_completeness auto
termination
  by (relation "measure length") (auto dest!: sig_type_shortens)

declare sig_args.simps [simp del]

definition is_signature :: "u8 list option \<Rightarrow> bool" where
  "is_signature s =
     (case s of None \<Rightarrow> False | Some s \<Rightarrow>
        let n = prefix_len s (str ''fn(''); s = drop n s in
        n \<noteq> 0 \<and>
        (case (if s = [] \<or> hd s \<noteq> 0x29 then sig_args s else Some s) of None \<Rightarrow> False | Some s \<Rightarrow>
           let n = prefix_len s (str '')->''); s = drop n s; k = sig_type s True in
           n \<noteq> 0 \<and> k \<noteq> 0 \<and> drop k s = []))"

section \<open>Blocks\<close>

record block =
  b_address :: u32
  b_file_offset :: u32
  b_file_size :: u32
  b_memory_size :: u32
  b_perm :: u32
  b_align :: u32

definition get_block :: "wax_image \<Rightarrow> u32 \<Rightarrow> block" where
  "get_block im i =
     (let e = w_block_table im + i * w_block_entry_size im; d = w_data im in
      if w_version im = 2
      then \<lparr>b_address = rd32 d e, b_file_offset = rd32 d (e + 4), b_file_size = rd32 d (e + 8),
            b_memory_size = rd32 d (e + 8), b_perm = rd32 d (e + 12), b_align = 1\<rparr>
      else \<lparr>b_address = rd32 d e, b_file_offset = rd32 d (e + 4), b_file_size = rd32 d (e + 8),
            b_memory_size = rd32 d (e + 12), b_perm = rd32 d (e + 16), b_align = rd32 d (e + 20)\<rparr>)"

definition blocks :: "wax_image \<Rightarrow> block list" where
  "blocks im = map (\<lambda>i. get_block im (of_nat i)) [0..<unat (w_block_count im)]"

datatype need = NEED_EXEC | NEED_DATA | NEED_RW

fun need_perm :: "need \<Rightarrow> u32 \<Rightarrow> bool" where
  "need_perm NEED_EXEC p \<longleftrightarrow> p = WPERM_RX"
| "need_perm NEED_RW p \<longleftrightarrow> p = WPERM_RW"
| "need_perm NEED_DATA p \<longleftrightarrow> p = WPERM_R \<or> p = WPERM_RW"

definition in_block :: "wax_image \<Rightarrow> u32 \<Rightarrow> u32 \<Rightarrow> need \<Rightarrow> bool" where
  "in_block im off len need \<longleftrightarrow>
     \<not> 0xFFFFFFFF - off < len \<and>
     list_ex (\<lambda>b. let rel = b_address b - w_base im;
                      bytes = (if need = NEED_EXEC then b_file_size b else b_memory_size b)
                  in need_perm need (b_perm b) \<and> rel \<le> off \<and> off - rel \<le> bytes \<and> len \<le> bytes - (off - rel))
       (blocks im)"

definition initial_byte :: "wax_image \<Rightarrow> u32 \<Rightarrow> u8" where
  "initial_byte im off =
     (case find (\<lambda>b. b_address b - w_base im \<le> off \<and> off - (b_address b - w_base im) < b_file_size b) (blocks im) of
        Some b \<Rightarrow> rd8 (w_data im) (b_file_offset b + (off - (b_address b - w_base im)))
      | None \<Rightarrow> 0)"

section \<open>File ranges\<close>

text \<open>The ranges recorded so far as pairs of start and end, sorted by start: a new one goes in
  behind the last that does not start later.\<close>

type_synonym span = "u32 \<times> u32"

definition insert_span :: "u32 \<Rightarrow> u32 \<Rightarrow> span list \<Rightarrow> span list" where
  "insert_span off len s =
     (let later = (\<lambda>(start, _). off < start) in
      rev (takeWhile later (rev s) @ (off, off + len) # dropWhile later (rev s)))"

definition add_span :: "u32 \<Rightarrow> u32 \<Rightarrow> u32 \<Rightarrow> span list \<Rightarrow> span list option" where
  "add_span off len fsize s =
     (if fsize < off \<or> fsize - off < len then None
      else if len = 0 then Some s else Some (insert_span off len s))"

definition all_zero :: "u8 list \<Rightarrow> u32 \<Rightarrow> u32 \<Rightarrow> bool" where
  "all_zero d a b \<longleftrightarrow> list_all (\<lambda>i. rd8 d (of_nat i) = 0) [unat a..<unat b]"

fun spans_from :: "u32 \<Rightarrow> span list \<Rightarrow> u8 list \<Rightarrow> u32 \<Rightarrow> bool \<Rightarrow> bool" where
  "spans_from at [] d fsize zero_gaps = (\<not> fsize < at \<and> (zero_gaps \<longrightarrow> all_zero d at fsize))"
| "spans_from at ((start, stop) # s) d fsize zero_gaps =
     (\<not> start < at \<and> (zero_gaps \<longrightarrow> all_zero d at start) \<and> spans_from stop s d fsize zero_gaps)"

definition spans_ok :: "span list \<Rightarrow> u8 list \<Rightarrow> u32 \<Rightarrow> bool \<Rightarrow> bool" where
  "spans_ok s d fsize zero_gaps = spans_from 0 s d fsize zero_gaps"

definition add_table :: "u32 \<Rightarrow> u32 \<Rightarrow> u32 \<Rightarrow> u32 \<Rightarrow> span list \<Rightarrow> span list option" where
  "add_table off count entry_size fsize s =
     (if count = 0 then if off = 0 then Some s else None
      else if off AND 3 \<noteq> 0 \<or> fsize div entry_size < count then None
      else add_span off (count * entry_size) fsize s)"

end
