(* ===== verification/Wax_Parse.thy ===== *)
theory Wax_Parse
  imports Wax_Image
begin

text \<open>
  Validation of executables and libraries (\<open>foundation/kernel/wax.c\<close>, \<open>parse_v2\<close>, \<open>parse_v3\<close>,
  \<open>parse\<close>, \<open>wax_inspect\<close>, \<open>wax_base_addr\<close>). A parser returns the filled image record or the error; the
  record of a rejected file is not used by any caller. The loops over a table are recursions on the
  list of its entries.
\<close>

section \<open>Version 2\<close>

fun v2_blocks :: "wax_image \<Rightarrow> u32 \<Rightarrow> bool \<Rightarrow> u32 \<Rightarrow> span list \<Rightarrow> block list \<Rightarrow> (span list \<times> u32) option" where
  "v2_blocks im table_end first stop spans [] = Some (spans, stop)"
| "v2_blocks im table_end first stop spans (b # bs) =
     (if b_file_size b = 0 \<or> b_perm b = 0 \<or> b_perm b AND NOT 7 \<noteq> 0 \<or> b_file_offset b AND 3 \<noteq> 0 \<or>
         b_file_offset b < table_end then None
      else case add_span (b_file_offset b) (b_file_size b) (w_size im) spans of None \<Rightarrow> None
        | Some spans \<Rightarrow>
            if CPU_RESERVED - b_address b < b_file_size b \<or>
               (if first then b_address b \<noteq> w_base im else b_address b < stop) then None
            else v2_blocks im table_end False (b_address b + b_file_size b) spans bs)"

definition v2_fields :: "wax_image \<Rightarrow> wax_image" where
  "v2_fields im =
     im\<lparr>w_type := rd16 (w_data im) 6, w_base := word im 16, w_entry_offset := word im 20,
        w_block_table := word im 24, w_block_count := word im 28, w_block_entry_size := word im 32,
        w_stack_top := word im 48, w_stack_size := word im 52\<rparr>"

definition debug_bad :: "u32 \<Rightarrow> u32 \<Rightarrow> u32 \<Rightarrow> bool" where
  "debug_bad flags off len \<longleftrightarrow>
     (flags AND FLAG_DEBUG = 0) \<noteq> (len = 0) \<or> len = 0 \<and> off \<noteq> 0"

definition parse_v2 :: "wax_image \<Rightarrow> wax_error + wax_image" where
  "parse_v2 im =
     (let d = w_data im; fsize = w_size im; type = rd16 d 6; flags = rd16 d 10 in
      if fsize < HEADER_V2 then Inl WAX_E_FORMAT
      else if rd16 d 8 \<noteq> 1 \<or> type < TYPE_WAX \<or> TYPE_WAL < type \<or> flags AND NOT 3 \<noteq> 0 then Inl WAX_E_UNSUPPORTED
      else if type \<noteq> TYPE_WAX \<or> flags AND FLAG_PROTECTED = 0 then Inl WAX_E_FORMAT
      else
        let im = v2_fields im; debug_offset = word im 36; debug_size = word im 40;
            table_end = w_block_table im + w_block_count im * 16 in
        if word im 12 \<noteq> HEADER_V2 \<or> word im 44 \<noteq> fsize \<or> word im 56 \<noteq> 0 \<or> word im 60 \<noteq> 0 then Inl WAX_E_FORMAT
        else if w_block_entry_size im \<noteq> 16 \<or> w_block_count im = 0 \<or> 7 < w_block_count im then Inl WAX_E_FORMAT
        else if w_block_table im AND 3 \<noteq> 0 \<or> w_block_table im < HEADER_V2 \<or> fsize < w_block_table im \<or>
                fsize - w_block_table im < w_block_count im * 16 then Inl WAX_E_FORMAT
        else if debug_bad flags debug_offset debug_size then Inl WAX_E_FORMAT
        else case Option.bind (add_span debug_offset debug_size fsize [])
                    (\<lambda>spans. v2_blocks im table_end True 0 spans (blocks im)) of
          None \<Rightarrow> Inl WAX_E_FORMAT
        | Some (spans, stop) \<Rightarrow>
            let im = im\<lparr>w_span := stop - w_base im, w_align := 1\<rparr>;
                top = w_stack_top im; stack = w_stack_size im; entry = w_base im + w_entry_offset im in
            if \<not> spans_ok spans d fsize False then Inl WAX_E_FORMAT
            else if stack = 0 \<or> stack AND 3 \<noteq> 0 \<or> top AND 3 \<noteq> 0 \<or> top < stack \<or> CPU_RESERVED < top
            then Inl WAX_E_FORMAT
            else if list_ex (\<lambda>b. top - stack < b_address b + b_file_size b \<and> b_address b < top) (blocks im)
            then Inl WAX_E_FORMAT
            else if entry < w_base im then Inl WAX_E_FORMAT
            else if list_ex (\<lambda>b. b_perm b AND 4 \<noteq> 0 \<and> b_address b \<le> entry \<and> entry - b_address b < b_file_size b)
                      (blocks im) then Inr im
            else Inl WAX_E_FORMAT)"

section \<open>Version 3\<close>

definition v3_fields :: "wax_image \<Rightarrow> wax_image" where
  "v3_fields im =
     im\<lparr>w_relocatable := rd16 (w_data im) 10 AND FLAG_RELOCATABLE \<noteq> 0,
        w_reloc_table := word im 128, w_reloc_count := word im 132, w_heap_hint := word im 136,
        w_type := rd16 (w_data im) 6, w_base := word im 24, w_entry_offset := word im 28,
        w_stack_top := word im 32, w_stack_size := word im 36, w_block_table := word im 40,
        w_block_count := word im 44, w_block_entry_size := 24, w_dep_table := word im 52,
        w_dep_count := word im 56, w_export_table := word im 64, w_export_count := word im 68,
        w_import_table := word im 76, w_import_count := word im 80, w_strings := word im 88,
        w_string_size := word im 92, w_image_id := word im 96, w_abi_major := word im 100,
        w_abi_minor := word im 104\<rparr>"

text \<open>The header checks: the error, or \<open>WAX_OK\<close> and the fields are usable.\<close>

definition v3_header :: "wax_image \<Rightarrow> wax_error" where
  "v3_header im =
     (let d = w_data im; fsize = w_size im; type = rd16 d 6; flags = rd16 d 10;
          debug_offset = word im 120; debug_size = word im 124 in
      if fsize < HEADER_V3 then WAX_E_FORMAT
      else if rd16 d 8 \<noteq> 1 \<or> type < TYPE_WAX \<or> TYPE_WAL < type \<or> flags AND NOT 7 \<noteq> 0 \<or> word im 20 \<noteq> 1
      then WAX_E_UNSUPPORTED
      else if flags AND FLAG_PROTECTED = 0 \<or> word im 12 \<noteq> HEADER_V3 \<or> word im 16 \<noteq> fsize then WAX_E_FORMAT
      else if list_ex (\<lambda>off. word im off \<noteq> 0) [140, 144, 148, 152, 156] then WAX_E_FORMAT
      else
        let im = v3_fields im in
        if (if w_relocatable im then type \<noteq> TYPE_WAX \<or> w_reloc_count im = 0 \<or> w_heap_hint im AND 7 \<noteq> 0
            else w_reloc_table im \<noteq> 0 \<or> w_reloc_count im \<noteq> 0 \<or> w_heap_hint im \<noteq> 0) then WAX_E_FORMAT
        else if word im 48 \<noteq> 24 \<or> word im 60 \<noteq> 16 \<or> word im 72 \<noteq> 24 \<or> word im 84 \<noteq> 24 then WAX_E_FORMAT
        else if w_block_count im = 0 \<or> w_string_size im = 0 \<or> w_abi_major im = 0 \<or> word im 112 = 0 then WAX_E_FORMAT
        else if WAX_MAX_BLOCKS < w_block_count im \<or> WAX_MAX_DEPS < w_dep_count im then WAX_E_RESOURCE_LIMIT
        else if (if type = TYPE_WAX then w_export_count im \<noteq> 0 \<or> w_stack_size im = 0
                 else w_base im \<noteq> 0 \<or> w_entry_offset im \<noteq> 0 \<or> w_stack_top im \<noteq> 0 \<or> w_stack_size im \<noteq> 0 \<or>
                      w_export_count im = 0) then WAX_E_FORMAT
        else if debug_bad flags debug_offset debug_size \<or> debug_offset AND 3 \<noteq> 0 then WAX_E_FORMAT
        else WAX_OK)"

definition v3_tables :: "wax_image \<Rightarrow> span list option" where
  "v3_tables im =
     (let fsize = w_size im in
      Option.bind (add_span 0 HEADER_V3 fsize []) (\<lambda>s.
      Option.bind (add_table (w_block_table im) (w_block_count im) 24 fsize s) (\<lambda>s.
      Option.bind (add_table (w_dep_table im) (w_dep_count im) 16 fsize s) (\<lambda>s.
      Option.bind (add_table (w_export_table im) (w_export_count im) 24 fsize s) (\<lambda>s.
      Option.bind (add_table (w_import_table im) (w_import_count im) 24 fsize s) (\<lambda>s.
      Option.bind (add_table (w_reloc_table im) (w_reloc_count im) 4 fsize s) (\<lambda>s.
      Option.bind (add_table (w_strings im) 1 (w_string_size im) fsize s) (\<lambda>s.
      add_span (word im 120) (word im 124) fsize s))))))))"

definition v3_strings :: "wax_image \<Rightarrow> bool" where
  "v3_strings im \<longleftrightarrow>
     (let d = w_data im; table = w_strings im in
      rd8 d table = 0 \<and> rd8 d (table + (w_string_size im - 1)) = 0 \<and>
      list_all (\<lambda>i. rd8 d (table + of_nat i) AND 0x80 = 0) [0..<unat (w_string_size im)] \<and>
      is_id (str_at im (w_image_id im)) \<and> is_id (str_at im (word im 108)))"

fun v3_blocks :: "wax_image \<Rightarrow> bool \<Rightarrow> u32 \<Rightarrow> u32 \<Rightarrow> span list \<Rightarrow> block list \<Rightarrow> (span list \<times> u32 \<times> u32) option" where
  "v3_blocks im first stop align spans [] = Some (spans, stop, align)"
| "v3_blocks im first stop align spans (b # bs) =
     (if b_perm b \<noteq> WPERM_R \<and> b_perm b \<noteq> WPERM_RW \<and> b_perm b \<noteq> WPERM_RX then None
      else if b_align b < 4 \<or> b_align b AND (b_align b - 1) \<noteq> 0 \<or> b_address b AND (b_align b - 1) \<noteq> 0 then None
      else if b_memory_size b = 0 \<or> b_memory_size b < b_file_size b \<or>
              (b_file_size b = 0) \<noteq> (b_file_offset b = 0) \<or> 0xFFFFFFFF - b_address b < b_memory_size b then None
      else if (if first then b_address b \<noteq> w_base im else b_address b < stop) then None
      else if b_file_offset b AND 3 \<noteq> 0 then None
      else case add_span (b_file_offset b) (b_file_size b) (w_size im) spans of None \<Rightarrow> None
        | Some spans \<Rightarrow>
            v3_blocks im False (b_address b + b_memory_size b) (if align < b_align b then b_align b else align) spans bs)"

definition v3_entry :: "wax_image \<Rightarrow> u32 \<Rightarrow> bool" where
  "v3_entry im stop \<longleftrightarrow>
     (let top = w_stack_top im; stack = w_stack_size im in
      w_type im \<noteq> TYPE_WAX \<or>
      (w_entry_offset im AND 3 = 0 \<and> in_block im (w_entry_offset im) 4 NEED_EXEC \<and>
       top \<noteq> 0 \<and> top AND 7 = 0 \<and> stack AND 7 = 0 \<and> stack \<le> top \<and>
       \<not> (top - stack < stop \<and> w_base im < top) \<and>
       \<not> (w_relocatable im \<and> top \<noteq> w_base im)))"

definition dep_entry :: "wax_image \<Rightarrow> nat \<Rightarrow> u32" where
  "dep_entry im i = w_dep_table im + 16 * of_nat i"

definition v3_deps :: "wax_image \<Rightarrow> bool" where
  "v3_deps im \<longleftrightarrow>
     list_all (\<lambda>i. let e = dep_entry im i; id = str_at im (word im e) in
         is_id id \<and> word im (e + 4) \<noteq> 0 \<and> word im (e + 12) = 0 \<and> id \<noteq> str_at im (w_image_id im) \<and>
         list_all (\<lambda>j. id \<noteq> str_at im (word im (dep_entry im j))) [0..<i])
       [0..<unat (w_dep_count im)]"

definition export_entry :: "wax_image \<Rightarrow> nat \<Rightarrow> u32" where
  "export_entry im i = w_export_table im + 24 * of_nat i"

definition export_name :: "wax_image \<Rightarrow> nat \<Rightarrow> u8 list option" where
  "export_name im i = str_at im (word im (export_entry im i))"

definition v3_export :: "wax_image \<Rightarrow> nat \<Rightarrow> bool" where
  "v3_export im i \<longleftrightarrow>
     (let e = export_entry im i; kind = word im (e + 4); off = word im (e + 8); len = word im (e + 12) in
      is_symbol (export_name im i) \<and> word im (e + 20) = 0 \<and>
      \<not> (i \<noteq> 0 \<and> 0 \<le> str_cmp (the (export_name im (i - 1))) (the (export_name im i))) \<and>
      (if kind = KIND_FUNCTION then
         is_signature (str_at im (word im (e + 16))) \<and> len \<noteq> 0 \<and> len AND 3 = 0 \<and> off AND 3 = 0 \<and>
         in_block im off len NEED_EXEC
       else kind = KIND_OBJECT \<and> word im (e + 16) = 0 \<and> len \<noteq> 0 \<and> in_block im off len NEED_DATA))"

definition v3_exports :: "wax_image \<Rightarrow> bool" where
  "v3_exports im \<longleftrightarrow> list_all (v3_export im) [0..<unat (w_export_count im)]"

definition import_entry :: "wax_image \<Rightarrow> nat \<Rightarrow> u32" where
  "import_entry im i = w_import_table im + 24 * of_nat i"

fun v3_imports :: "wax_image \<Rightarrow> bool \<Rightarrow> u32 \<Rightarrow> u32 \<Rightarrow> nat list \<Rightarrow> bool" where
  "v3_imports im first slot_end used [] = (used = push_bit (unat (w_dep_count im)) 1 - 1)"
| "v3_imports im first slot_end used (i # is) =
     (let e = import_entry im i; dep = word im e; kind = word im (e + 8); slot = word im (e + 12);
          len = word im (e + 16); signature = word im (e + 20) in
      if w_dep_count im \<le> dep \<or> \<not> is_symbol (str_at im (word im (e + 4))) then False
      else if (if kind = KIND_FUNCTION then len \<noteq> 0 \<or> \<not> is_signature (str_at im signature)
               else kind \<noteq> KIND_OBJECT \<or> signature \<noteq> 0 \<or> len = 0) then False
      else if slot AND 3 \<noteq> 0 \<or> (\<not> first \<and> slot < slot_end) \<or> \<not> in_block im slot 8 NEED_RW then False
      else if list_ex (\<lambda>k. initial_byte im (slot + of_nat k) \<noteq> 0) [0..<8] then False
      else v3_imports im False (slot + 8) (used OR push_bit (unat dep) 1) is)"

text \<open>Relocations: the blocks that the cursor has not left behind are the list \<open>bs\<close>.\<close>

definition RELOC_PAIR :: u32 where "RELOC_PAIR = 1"

definition passed :: "u32 \<Rightarrow> block \<Rightarrow> bool" where
  "passed at b \<longleftrightarrow> b_address b \<le> at \<and> b_file_size b \<le> at - b_address b"

definition pair_ok :: "u32 \<Rightarrow> u32 \<Rightarrow> bool" where
  "pair_ok hi lo \<longleftrightarrow> drop_bit 26 hi = 0x3D \<and> drop_bit 26 lo = 0x3C \<and> (hi XOR lo) AND 0x03E00000 = 0"

fun v3_relocs :: "wax_image \<Rightarrow> bool \<Rightarrow> u32 \<Rightarrow> block list \<Rightarrow> nat list \<Rightarrow> bool" where
  "v3_relocs im first previous bs [] = True"
| "v3_relocs im first previous bs (i # is) =
     (let entry = word im (w_reloc_table im + 4 * of_nat i); at = entry AND NOT 3; kind = entry AND 3;
          len = (if kind = RELOC_PAIR then 8 else 4) in
      if RELOC_PAIR < kind \<or> (\<not> first \<and> at \<le> previous) \<or> at < w_base im \<or> 0xFFFFFFF0 < at - w_base im then False
      else case dropWhile (passed at) bs of
        [] \<Rightarrow> False
      | b # bs' \<Rightarrow>
          if at < b_address b \<or> b_file_size b - (at - b_address b) < len \<or>
             (if kind = RELOC_PAIR then b_perm b \<noteq> WPERM_RX else b_perm b = WPERM_RX) then False
          else if kind = RELOC_PAIR \<and>
             (let code = b_file_offset b + (at - b_address b) in \<not> pair_ok (word im code) (word im (code + 4))) then False
          else v3_relocs im False at (b # bs') is)"

definition parse_v3 :: "wax_image \<Rightarrow> wax_error + wax_image" where
  "parse_v3 im =
     (let d = w_data im; fsize = w_size im; e = v3_header im in
      if e \<noteq> WAX_OK then Inl e
      else
        let im = v3_fields im in
        case v3_tables im of None \<Rightarrow> Inl WAX_E_FORMAT
        | Some spans \<Rightarrow>
            if \<not> v3_strings im then Inl WAX_E_FORMAT
            else case v3_blocks im True 0 4 spans (blocks im) of None \<Rightarrow> Inl WAX_E_FORMAT
              | Some (spans, stop, align) \<Rightarrow>
                  let im = im\<lparr>w_span := stop - w_base im, w_align := align\<rparr> in
                  if \<not> spans_ok spans d fsize True then Inl WAX_E_FORMAT
                  else if \<not> v3_entry im stop then Inl WAX_E_FORMAT
                  else if \<not> v3_deps im then Inl WAX_E_FORMAT
                  else if \<not> v3_exports im then Inl WAX_E_FORMAT
                  else if \<not> v3_imports im True 0 0 [0..<unat (w_import_count im)] then Inl WAX_E_FORMAT
                  else if \<not> v3_relocs im True 0 (blocks im) [0..<unat (w_reloc_count im)] then Inl WAX_E_FORMAT
                  else Inr im)"

section \<open>Any version\<close>

definition magic_ok :: "u8 list \<Rightarrow> bool" where
  "magic_ok d \<longleftrightarrow> rd8 d 0 = 0x57 \<and> rd8 d 1 = 0x41 \<and> rd8 d 2 = 0x58 \<and> rd8 d 3 = 0"

text \<open>A file: its bytes and their address, or none for a null pointer.\<close>

definition parse :: "(u8 list \<times> u32) option \<Rightarrow> u32 \<Rightarrow> wax_error + wax_image" where
  "parse data fsize =
     (case data of None \<Rightarrow> Inl WAX_E_FORMAT
      | Some (d, at) \<Rightarrow>
          if fsize < 8 \<or> \<not> magic_ok d then Inl WAX_E_FORMAT
          else
            let v = rd16 d 4; im = no_image\<lparr>w_data := d, w_at := at, w_size := fsize, w_version := v\<rparr> in
            if v = 2 then parse_v2 im else if v = 3 then parse_v3 im else Inl WAX_E_UNSUPPORTED)"

record wax_info =
  i_base :: u32
  i_low :: u32
  i_high :: u32
  i_relocatable :: bool
  i_stack_size :: u32
  i_heap_hint :: u32

text \<open>The highest end of the blocks, \<open>None\<close> for a block outside the address space.\<close>

fun inspect_blocks :: "u8 list \<Rightarrow> u32 \<Rightarrow> u32 \<Rightarrow> u32 \<Rightarrow> u32 \<Rightarrow> nat list \<Rightarrow> u32 \<Rightarrow> u32 option" where
  "inspect_blocks d version block_table block_size base [] stop = Some stop"
| "inspect_blocks d version block_table block_size base (i # is) stop =
     (let e = block_table + of_nat i * block_size; address = rd32 d e;
          len = (if version = 2 then rd32 d (e + 8) else rd32 d (e + 12)) in
      if address < base \<or> CPU_RESERVED - address < len then None
      else inspect_blocks d version block_table block_size base is
             (if stop < address + len then address + len else stop))"

definition wax_inspect :: "u8 list option \<Rightarrow> u32 \<Rightarrow> wax_error + wax_info" where
  "wax_inspect data fsize =
     (case data of None \<Rightarrow> Inl WAX_E_FORMAT | Some d \<Rightarrow>
      if fsize < HEADER_V2 \<or> \<not> magic_ok d then Inl WAX_E_FORMAT
      else
        let version = rd16 d 4 in
        if version \<noteq> 2 \<and> \<not> (version = 3 \<and> HEADER_V3 \<le> fsize) then
          Inl (if version = 2 \<or> version = 3 then WAX_E_FORMAT else WAX_E_UNSUPPORTED)
        else
          let v2 = (version = 2);
              flags = (if v2 then 0 else rd16 d 10); base = rd32 d (if v2 then 16 else 24);
              block_table = rd32 d (if v2 then 24 else 40); count = rd32 d (if v2 then 28 else 44);
              entry_size = (if v2 then rd32 d 32 else 24); stack_top = rd32 d (if v2 then 48 else 32);
              stack_size = rd32 d (if v2 then 52 else 36); block_size = (if v2 then 16 else 24) in
          if entry_size \<noteq> block_size \<or> count = 0 \<or> WAX_MAX_BLOCKS < count \<or> fsize < block_table \<or>
             fsize - block_table < count * block_size \<or> stack_top < stack_size then Inl WAX_E_FORMAT
          else case inspect_blocks d version block_table block_size base [0..<unat count] base of
            None \<Rightarrow> Inl WAX_E_FORMAT
          | Some stop \<Rightarrow>
              let stack_low = stack_top - stack_size in
              Inr \<lparr>i_base = base, i_low = (if stack_low < base then stack_low else base),
                   i_high = (if stop < stack_top then stack_top else stop),
                   i_relocatable = flags AND FLAG_RELOCATABLE \<noteq> 0, i_stack_size = stack_size,
                   i_heap_hint = (if v2 then 0 else rd32 d 136)\<rparr>)"

definition wax_base_addr :: "u8 list option \<Rightarrow> u32 \<Rightarrow> wax_error + u32" where
  "wax_base_addr data fsize =
     (case data of None \<Rightarrow> Inl WAX_E_FORMAT | Some d \<Rightarrow>
      if fsize < HEADER_V2 \<or> \<not> magic_ok d then Inl WAX_E_FORMAT
      else
        let version = rd16 d 4 in
        if version = 2 then Inr (rd32 d 16)
        else if version = 3 then if fsize < HEADER_V3 then Inl WAX_E_FORMAT else Inr (rd32 d 24)
        else Inl WAX_E_UNSUPPORTED)"

end
