(* ===== verification/Wax_Plan.thy ===== *)
theory Wax_Plan
  imports Wax_Parse
begin

text \<open>
  Launch planning (\<open>foundation/kernel/wax.c\<close>, \<open>resolve\<close> to \<open>wax_rebase\<close>): the choice of libraries,
  the check of imports against exports, the placement of libraries and the protection
  regions. A launch keeps its images in a map from index, \<open>l_count\<close> of them; the regions are a
  list, whose length is the counter \<open>n\<close> of \<open>plan_regions\<close>.
\<close>

record wax_region =
  r_start :: u32
  r_end :: u32
  r_flags :: u32

record wax_target =
  os_id :: "u8 list"
  os_major :: u32
  os_minor :: u32
  window_start :: u32
  window_end :: u32
  load_base :: u32

record wax_launch =
  l_count :: nat
  l_image :: "nat \<Rightarrow> wax_image"
  l_entry :: u32
  l_stack_top :: u32
  l_stack_size :: u32
  l_top :: u32
  l_delta :: u32
  l_heap_hint :: u32
  l_regions :: "wax_region list"
  diag_image :: nat
  diag_index :: nat
  diag_name :: "u8 list option"

type_synonym wax_library = "(u8 list \<times> u32) option \<times> u32"

definition abi_ok :: "wax_image \<Rightarrow> wax_target \<Rightarrow> bool" where
  "abi_ok im t \<longleftrightarrow> str_at im (word im 108) = Some (os_id t) \<and> word im 112 = os_major t \<and> word im 116 \<le> os_minor t"

definition fail :: "nat \<Rightarrow> nat \<Rightarrow> u8 list option \<Rightarrow> wax_launch \<Rightarrow> wax_launch" where
  "fail i index name l = l\<lparr>diag_image := i, diag_index := index, diag_name := name\<rparr>"

definition upd_image :: "nat \<Rightarrow> (wax_image \<Rightarrow> wax_image) \<Rightarrow> wax_launch \<Rightarrow> wax_launch" where
  "upd_image i f l = l\<lparr>l_image := (l_image l)(i := f (l_image l i))\<rparr>"

section \<open>Choosing the libraries\<close>

text \<open>The bytes of \<open>lid\<close> and its NUL at \<open>strings + offset\<close>, inside the string table.\<close>

fun names_id :: "u8 list \<Rightarrow> u32 \<Rightarrow> u32 \<Rightarrow> u8 list \<Rightarrow> bool" where
  "names_id d at stop [] = (at < stop \<and> rd8 d at = 0)"
| "names_id d at stop (c # cs) = (at < stop \<and> rd8 d at = c \<and> names_id d (at + 1) stop cs)"

definition may_provide :: "wax_library \<Rightarrow> u8 list \<Rightarrow> u32 \<Rightarrow> bool" where
  "may_provide lib lid major \<longleftrightarrow>
     (case lib of (None, _) \<Rightarrow> False
      | (Some (d, _), fsize) \<Rightarrow>
          let strings = rd32 d 88; tsize = rd32 d 92; offset = rd32 d 96 in
          HEADER_V3 \<le> fsize \<and> rd16 d 4 = 3 \<and> rd16 d 6 = TYPE_WAL \<and> rd32 d 100 = major \<and>
          strings \<le> fsize \<and> tsize \<le> fsize - strings \<and> offset < tsize \<and>
          names_id d (strings + offset) (strings + tsize) lid)"

definition candidate :: "u8 list \<Rightarrow> u32 \<Rightarrow> wax_library \<Rightarrow> wax_image option" where
  "candidate lid major lib =
     (if \<not> may_provide lib lid major then None
      else case parse (fst lib) (snd lib) of Inl _ \<Rightarrow> None
        | Inr c \<Rightarrow> if w_version c \<noteq> 3 \<or> w_type c \<noteq> TYPE_WAL \<or> w_abi_major c \<noteq> major \<or>
                      str_at c (w_image_id c) \<noteq> Some lid then None else Some c)"

text \<open>The loop over the libraries: the best candidate so far.\<close>

definition better :: "u8 list \<Rightarrow> u32 \<Rightarrow> wax_library \<Rightarrow> wax_image option \<Rightarrow> wax_image option" where
  "better lid major lib chosen =
     (case candidate lid major lib of None \<Rightarrow> chosen
      | Some c \<Rightarrow> (case chosen of None \<Rightarrow> Some c
          | Some b \<Rightarrow> if w_abi_minor b < w_abi_minor c then Some c else Some b))"

definition choose_library :: "u8 list \<Rightarrow> u32 \<Rightarrow> wax_library list \<Rightarrow> wax_image option" where
  "choose_library lid major libs = fold (better lid major) libs None"

text \<open>The resolver's state: the launch, the colors (1 while an image's dependencies resolve, then 2)
  and the post-order. Both functions recurse on fuel, the depth of \<open>resolve\<close>; every call below
  another adds an image, so that \<open>WAX_MAX_IMAGES\<close> levels are enough (\<open>resolve_total\<close>).\<close>

record resolver =
  r_launch :: wax_launch
  r_color :: "nat \<Rightarrow> nat"
  r_order :: "nat list"

definition set_color :: "nat \<Rightarrow> nat \<Rightarrow> resolver \<Rightarrow> resolver" where
  "set_color i c r = r\<lparr>r_color := (r_color r)(i := c)\<rparr>"

definition dep_id :: "resolver \<Rightarrow> nat \<Rightarrow> nat \<Rightarrow> u8 list" where
  "dep_id r index d = (let im = l_image (r_launch r) index in the (str_at im (word im (dep_entry im d))))"

definition known_image :: "wax_launch \<Rightarrow> u8 list \<Rightarrow> nat option" where
  "known_image l lid =
     find (\<lambda>j. str_at (l_image l j) (w_image_id (l_image l j)) = Some lid) [1..<l_count l]"

definition reject :: "nat \<Rightarrow> nat \<Rightarrow> u8 list \<Rightarrow> resolver \<Rightarrow> resolver" where
  "reject index d lid r = r\<lparr>r_launch := fail index d (Some lid) (r_launch r)\<rparr>"

definition set_dep :: "nat \<Rightarrow> nat \<Rightarrow> nat \<Rightarrow> resolver \<Rightarrow> resolver" where
  "set_dep index d j r =
     r\<lparr>r_launch := upd_image index (\<lambda>im. im\<lparr>w_dep_image := (w_dep_image im)(d := j)\<rparr>) (r_launch r)\<rparr>"

definition add_image :: "nat \<Rightarrow> wax_image \<Rightarrow> resolver \<Rightarrow> resolver" where
  "add_image j chosen r =
     set_color j 0 (r\<lparr>r_launch := (upd_image j (\<lambda>_. chosen) (r_launch r))\<lparr>l_count := j + 1\<rparr>\<rparr>)"

text \<open>The checks on an image that is already in the launch, and the choice of a new one.\<close>

definition known_error :: "resolver \<Rightarrow> nat \<Rightarrow> nat \<Rightarrow> nat \<Rightarrow> wax_error" where
  "known_error r index d j =
     (let l = r_launch r; im = l_image l index; e = dep_entry im d in
      if r_color r j = 1 then WAX_E_DEPENDENCY_CYCLE
      else if w_abi_major (l_image l j) \<noteq> word im (e + 4) then WAX_E_DEPENDENCY_CONFLICT
      else if w_abi_minor (l_image l j) < word im (e + 8) then WAX_E_DEPENDENCY_MISSING
      else WAX_OK)"

definition new_image :: "wax_library list \<Rightarrow> wax_target \<Rightarrow> resolver \<Rightarrow> nat \<Rightarrow> nat \<Rightarrow> wax_error + wax_image" where
  "new_image libs t r index d =
     (let l = r_launch r; im = l_image l index; e = dep_entry im d in
      if l_count l = WAX_MAX_IMAGES then Inl WAX_E_RESOURCE_LIMIT
      else case choose_library (dep_id r index d) (word im (e + 4)) libs of
        None \<Rightarrow> Inl WAX_E_DEPENDENCY_MISSING
      | Some chosen \<Rightarrow>
          if w_abi_minor chosen < word im (e + 8) then Inl WAX_E_DEPENDENCY_MISSING
          else if \<not> abi_ok chosen t then Inl WAX_E_ABI_MISMATCH
          else Inr chosen)"

fun resolve :: "nat \<Rightarrow> wax_library list \<Rightarrow> wax_target \<Rightarrow> nat \<Rightarrow> resolver \<Rightarrow> (wax_error \<times> resolver) option"
and resolve_deps :: "nat \<Rightarrow> wax_library list \<Rightarrow> wax_target \<Rightarrow> nat \<Rightarrow> nat list \<Rightarrow> resolver \<Rightarrow> (wax_error \<times> resolver) option" where
  "resolve 0 libs t index r = None"
| "resolve (Suc fuel) libs t index r =
     resolve_deps fuel libs t index [0..<unat (w_dep_count (l_image (r_launch r) index))] (set_color index 1 r)"
| "resolve_deps fuel libs t index [] r =
     Some (WAX_OK, (set_color index 2 r)\<lparr>r_order := r_order r @ [index]\<rparr>)"
| "resolve_deps fuel libs t index (d # ds) r =
     (case known_image (r_launch r) (dep_id r index d) of
        Some j \<Rightarrow>
          if known_error r index d j \<noteq> WAX_OK
          then Some (known_error r index d j, reject index d (dep_id r index d) r)
          else resolve_deps fuel libs t index ds (set_dep index d j r)
      | None \<Rightarrow>
          (case new_image libs t r index d of
             Inl error \<Rightarrow> Some (error, reject index d (dep_id r index d) r)
           | Inr chosen \<Rightarrow>
               (case resolve fuel libs t (l_count (r_launch r)) (add_image (l_count (r_launch r)) chosen r) of
                  None \<Rightarrow> None
                | Some (error, s) \<Rightarrow>
                    if error \<noteq> WAX_OK then Some (error, s)
                    else resolve_deps fuel libs t index ds (set_dep index d (l_count (r_launch r)) s))))"

section \<open>Imports\<close>

lemma word_mid:
  assumes "(low::u32) < high"
  shows "unat (low + (high - low) div 2) = unat low + (unat high - unat low) div 2"
proof -
  have "unat ((high - low) div 2) = (unat high - unat low) div 2"
    using assms by (simp add: unat_div_distrib unat_sub less_imp_le)
  moreover have "unat low + (unat high - unat low) div 2 < 2 ^ 32"
    using unsigned_less [of high, where 'a = nat] assms by (simp add: word_less_nat_alt)
  ultimately show ?thesis by (simp add: unat_word_ariths)
qed

lemma word_mid_less:
  assumes "(low::u32) < high"
  shows "low \<le> low + (high - low) div 2" "low + (high - low) div 2 < high"
    "unat (low + (high - low) div 2 + 1) = Suc (unat (low + (high - low) div 2))"
proof -
  show a: "low \<le> low + (high - low) div 2" "low + (high - low) div 2 < high"
    using assms by (auto simp: word_le_nat_alt word_less_nat_alt word_mid)
  show "unat (low + (high - low) div 2 + 1) = Suc (unat (low + (high - low) div 2))"
    using a(2) unsigned_less [of high, where 'a = nat] by (simp add: unat_word_ariths word_less_nat_alt)
qed

text \<open>Binary search; 0 is no entry.\<close>

function search_export :: "wax_image \<Rightarrow> u8 list \<Rightarrow> u32 \<Rightarrow> u32 \<Rightarrow> u32" where
  "search_export im name low high =
     (if low < high then
        let mid = low + (high - low) div 2; e = w_export_table im + 24 * mid;
            order = str_cmp name (the (str_at im (word im e))) in
        if order = 0 then e
        else if order < 0 then search_export im name low mid
        else search_export im name (mid + 1) high
      else 0)"
  by pat_completeness auto
termination
  by (relation "measure (\<lambda>(_, _, low, high). unat high - unat low)")
     (auto simp: word_mid word_less_nat_alt word_mid_less)

declare search_export.simps [simp del]

definition find_export :: "wax_image \<Rightarrow> u8 list \<Rightarrow> u32" where
  "find_export im name = search_export im name 0 (w_export_count im)"

text \<open>Every import of every image in turn, as pairs of image and import.\<close>

definition all_imports :: "wax_launch \<Rightarrow> (nat \<times> nat) list" where
  "all_imports l =
     concat (map (\<lambda>i. map (Pair i) [0..<unat (w_import_count (l_image l i))]) [0..<l_count l])"

definition import_name :: "wax_image \<Rightarrow> nat \<Rightarrow> u8 list" where
  "import_name im k = the (str_at im (word im (import_entry im k + 4)))"

definition provider_of :: "wax_launch \<Rightarrow> wax_image \<Rightarrow> nat \<Rightarrow> wax_image" where
  "provider_of l im k = l_image l (w_dep_image im (unat (word im (import_entry im k))))"

definition import_error :: "wax_launch \<Rightarrow> nat \<Rightarrow> nat \<Rightarrow> wax_error" where
  "import_error l i k =
     (let im = l_image l i; e = import_entry im k; provider = provider_of l im k;
          x = find_export provider (import_name im k); kind = word im (e + 8) in
      if x = 0 then WAX_E_SYMBOL_MISSING
      else if word provider (x + 4) \<noteq> kind \<or>
              (if kind = KIND_FUNCTION then str_at im (word im (e + 20)) \<noteq> str_at provider (word provider (x + 16))
               else word im (e + 16) \<noteq> word provider (x + 12)) then WAX_E_SYMBOL_MISMATCH
      else WAX_OK)"

definition check_imports :: "wax_launch \<Rightarrow> wax_error \<times> wax_launch" where
  "check_imports l =
     (case find (\<lambda>(i, k). import_error l i k \<noteq> WAX_OK) (all_imports l) of
        None \<Rightarrow> (WAX_OK, l)
      | Some (i, k) \<Rightarrow> (import_error l i k, fail i k (Some (import_name (l_image l i) k)) l))"

section \<open>Placement of the libraries\<close>

definition overlaps :: "u32 \<Rightarrow> u32 \<Rightarrow> u32 \<Rightarrow> u32 \<Rightarrow> bool" where
  "overlaps a a_end b b_end \<longleftrightarrow> a < b_end \<and> b < a_end"

definition align_up :: "u32 \<Rightarrow> u32 \<Rightarrow> u32" where
  "align_up msk at = (at + msk) AND NOT msk"

lemma align_up_ge:
  assumes "\<not> 0xFFFFFFFF - msk < (at::u32)"
  shows "at \<le> align_up msk at"
proof -
  have n: "(at + msk) AND NOT msk = (at + msk) - ((at + msk) AND msk)"
    by (simp add: algebra_simps and_plus_and_not)
  have m: "(at + msk) AND msk \<le> msk" by (rule word_and_le1)
  have "unat at + unat msk < 2 ^ 32"
  proof -
    have "msk \<le> 0xFFFFFFFF" using unsigned_less [of msk, where 'a = nat] by (simp add: word_le_nat_alt)
    then have "unat (0xFFFFFFFF - msk) = 0xFFFFFFFF - unat msk" by (simp add: unat_sub)
    then show ?thesis using assms unsigned_less [of msk, where 'a = nat] by (simp add: word_less_nat_alt)
  qed
  then have s: "unat (at + msk) = unat at + unat msk" by (simp add: unat_word_ariths)
  have "(at + msk) AND msk \<le> at + msk" by (rule word_and_le2)
  then have "unat (align_up msk at) = unat at + unat msk - unat ((at + msk) AND msk)"
    by (simp add: align_up_def n unat_sub s)
  then show ?thesis using m by (simp add: word_le_nat_alt)
qed

text \<open>The loop over positions: behind the first range in the way, until none is. Each
  round is at a higher address.\<close>

function place_at :: "u32 \<Rightarrow> u32 \<Rightarrow> u32 \<Rightarrow> span list \<Rightarrow> u32 \<Rightarrow> u32 option" where
  "place_at msk span wend taken at =
     (if 0xFFFFFFFF - msk < at then None
      else
        let at' = align_up msk at in
        if wend < span \<or> wend - span < at' then None
        else case find (\<lambda>(start, stop). overlaps at' (at' + span) start stop) taken of
          None \<Rightarrow> Some at'
        | Some (_, stop) \<Rightarrow> place_at msk span wend taken stop)"
  by pat_completeness auto
termination
proof (relation "measure (\<lambda>(_, _, _, _, at). 2 ^ 32 - unat at)", simp, clarsimp)
  fix msk span wend at start stop :: u32 and taken
  assume "\<not> 0xFFFFFFFF - msk < at" "find (\<lambda>(start, stop). overlaps (align_up msk at) (align_up msk at + span) start stop) taken = Some (start, stop)"
  then have "at \<le> align_up msk at" "align_up msk at < stop"
    using align_up_ge by (auto dest!: find_SomeD simp: overlaps_def)
  then have "unat at < unat stop" by (simp add: word_le_nat_alt word_less_nat_alt)
  then show "4294967296 - unat stop < 4294967296 - unat at"
    using unsigned_less [of stop, where 'a = nat] by simp
qed

declare place_at.simps [simp del]

fun place_all :: "wax_target \<Rightarrow> nat list \<Rightarrow> span list \<Rightarrow> wax_launch \<Rightarrow> wax_error \<times> wax_launch" where
  "place_all t [] taken l = (WAX_OK, l)"
| "place_all t (index # order) taken l =
     (if index = 0 then place_all t order taken l
      else
        let im = l_image l index in
        case place_at (w_align im - 1) (w_span im) (window_end t) taken (window_start t) of
          None \<Rightarrow> (WAX_E_FORMAT, fail index 0 None l)
        | Some at \<Rightarrow>
            place_all t order (taken @ [(at, at + w_span im)]) (upd_image index (\<lambda>im. im\<lparr>w_origin := at\<rparr>) l))"

definition place :: "wax_target \<Rightarrow> nat list \<Rightarrow> wax_launch \<Rightarrow> wax_error \<times> wax_launch" where
  "place t order l =
     (let exe = l_image l 0;
          taken = [(w_origin exe, w_origin exe + w_span exe),
                   (w_stack_top exe - w_stack_size exe + l_delta l, w_stack_top exe + l_delta l)] in
      if list_ex (\<lambda>(start, stop). start < window_start t \<or> window_end t < stop) taken
      then (WAX_E_FORMAT, fail 0 0 None l)
      else place_all t order taken l)"

section \<open>Protection regions\<close>

text \<open>\<open>rests ! i\<close> holds the blocks of image \<open>i\<close> from \<open>next[i]\<close> on.\<close>

definition runtime_address :: "wax_image \<Rightarrow> block \<Rightarrow> u32" where
  "runtime_address im b = w_origin im + (b_address b - w_base im)"

definition lowest_step :: "wax_launch \<Rightarrow> block list list \<Rightarrow> nat \<Rightarrow> (nat \<times> u32 \<times> block) option \<Rightarrow> (nat \<times> u32 \<times> block) option" where
  "lowest_step l rests i best =
     (case rests ! i of [] \<Rightarrow> best
      | b # _ \<Rightarrow>
          let start = runtime_address (l_image l i) b in
          (case best of None \<Rightarrow> Some (i, start, b)
           | Some (_, best_start, _) \<Rightarrow> if start < best_start then Some (i, start, b) else best))"

definition lowest_block :: "wax_launch \<Rightarrow> block list list \<Rightarrow> (nat \<times> u32 \<times> block) option" where
  "lowest_block l rests = fold (lowest_step l rests) [0..<length rests] None"

lemma fold_lowest_step:
  assumes "fold (lowest_step l rests) xs best = Some (i, start, b)" "set xs \<subseteq> {..<length rests}"
    "\<And>j st c. best = Some (j, st, c) \<Longrightarrow> j < length rests \<and> (\<exists>bs. rests ! j = c # bs) \<and> st = runtime_address (l_image l j) c"
  shows "i < length rests \<and> (\<exists>bs. rests ! i = b # bs) \<and> start = runtime_address (l_image l i) b"
  using assms
proof (induction xs arbitrary: best)
  case (Cons x xs)
  show ?case
    by (rule Cons.IH [of "lowest_step l rests x best"])
       (use Cons.prems in \<open>auto simp: lowest_step_def Let_def split: list.splits option.splits if_splits\<close>)
qed auto

lemma lowest_block_in:
  assumes "lowest_block l rests = Some (i, start, b)"
  shows "i < length rests" "\<exists>bs. rests ! i = b # bs" "start = runtime_address (l_image l i) b"
proof -
  have "set [0..<length rests] \<subseteq> {..<length rests}" by auto
  then have "i < length rests \<and> (\<exists>bs. rests ! i = b # bs) \<and> start = runtime_address (l_image l i) b"
    using fold_lowest_step [OF assms [unfolded lowest_block_def]] by simp
  then show "i < length rests" "\<exists>bs. rests ! i = b # bs" "start = runtime_address (l_image l i) b"
    by blast+
qed

definition add_region :: "u32 \<Rightarrow> u32 \<Rightarrow> u32 \<Rightarrow> wax_region list \<Rightarrow> wax_region list option" where
  "add_region start stop perm regs =
     (if 1 < length regs \<and> r_end (last regs) = start \<and> r_flags (last regs) = perm
      then Some (butlast regs @ [(last regs)\<lparr>r_end := stop\<rparr>])
      else if length regs = WAX_REGIONS then None
      else Some (regs @ [\<lparr>r_start = start, r_end = stop, r_flags = perm\<rparr>]))"

lemma sum_rests_less:
  assumes "i < length rests" "rests ! i = b # bs"
  shows "sum_list (map length (rests[i := bs])) < sum_list (map length rests)"
  using assms by (induction rests arbitrary: i) (auto simp: nth_Cons split: nat.splits)

lemma lowest_block_decreases:
  assumes "lowest_block l rests = Some (i, start, b)"
  shows "sum_list (map length (rests[i := tl (rests ! i)])) < sum_list (map length rests)"
  using lowest_block_in(1,2) [OF assms] by (auto simp: sum_rests_less)

function region_loop :: "wax_launch \<Rightarrow> block list list \<Rightarrow> wax_region list \<Rightarrow> u32 \<Rightarrow> (nat \<times> nat) + wax_region list \<times> u32" where
  "region_loop l rests regs hi =
     (case lowest_block l rests of
        None \<Rightarrow> Inr (regs, hi)
      | Some (i, start, b) \<Rightarrow>
          let stop = start + b_memory_size b in
          (case add_region start stop (b_perm b) regs of
             None \<Rightarrow> Inl (i, length (rests ! i))
           | Some regs \<Rightarrow> region_loop l (rests[i := tl (rests ! i)]) regs (if hi < stop then stop else hi)))"
  by pat_completeness auto
termination
  by (relation "measure (\<lambda>(_, rests, _, _). sum_list (map length rests))")
     (auto intro: lowest_block_decreases)

declare region_loop.simps [simp del]

text \<open>After a failure only the diagnostics are meaningful: the regions and \<open>top\<close> stay as they were.\<close>

definition plan_regions :: "wax_launch \<Rightarrow> wax_error \<times> wax_launch" where
  "plan_regions l =
     (let exe = l_image l 0;
          stack = \<lparr>r_start = w_stack_top exe - w_stack_size exe + l_delta l, r_end = w_stack_top exe + l_delta l,
                    r_flags = WPERM_RW\<rparr>;
          rests = map (\<lambda>i. blocks (l_image l i)) [0..<l_count l] in
      case region_loop l rests [stack] 0 of
        Inr (regs, hi) \<Rightarrow> (WAX_OK, l\<lparr>l_regions := regs, l_top := hi\<rparr>)
      | Inl (i, left) \<Rightarrow> (WAX_E_REGION_LIMIT, fail i (length (rests ! i) - left) None l))"

section \<open>The plan\<close>

text \<open>\<open>l0\<close> is the caller's launch record. Fuel \<open>WAX_MAX_IMAGES\<close> always suffices (\<open>resolve_total\<close>).\<close>

definition start_launch :: "wax_image \<Rightarrow> wax_target \<Rightarrow> wax_launch \<Rightarrow> wax_launch option" where
  "start_launch exe t l0 =
     (let l = l0\<lparr>l_count := 1, l_regions := [], l_heap_hint := w_heap_hint exe\<rparr>; l = fail 0 0 None l in
      if w_relocatable exe \<and> load_base t \<noteq> 0 then
        if load_base t < w_stack_size exe \<or> load_base t AND 3 \<noteq> 0 \<or> CPU_RESERVED - load_base t < w_span exe then None
        else Some (upd_image 0 (\<lambda>_. exe\<lparr>w_origin := load_base t\<rparr>) (l\<lparr>l_delta := load_base t - w_base exe\<rparr>))
      else Some (upd_image 0 (\<lambda>_. exe\<lparr>w_origin := w_base exe\<rparr>) (l\<lparr>l_delta := 0\<rparr>)))"

definition resolve_all :: "wax_library list \<Rightarrow> wax_target \<Rightarrow> wax_launch \<Rightarrow> wax_error \<times> wax_launch \<times> nat list" where
  "resolve_all libs t l =
     (case resolve WAX_MAX_IMAGES libs t 0 \<lparr>r_launch = l, r_color = (\<lambda>_. 0), r_order = []\<rparr> of
        None \<Rightarrow> (WAX_E_RESOURCE_LIMIT, l, [])
      | Some (error, r) \<Rightarrow> (error, r_launch r, r_order r))"

definition wax_plan :: "wax_launch \<Rightarrow> (u8 list \<times> u32) option \<Rightarrow> u32 \<Rightarrow> wax_library list \<Rightarrow> wax_target \<Rightarrow> wax_error \<times> wax_launch" where
  "wax_plan l0 data fsize libs t =
     (case parse data fsize of
        Inl error \<Rightarrow> (error, (fail 0 0 None l0)\<lparr>l_count := 0, l_regions := []\<rparr>)
      | Inr exe \<Rightarrow>
          if w_type exe \<noteq> TYPE_WAX then (WAX_E_FORMAT, (fail 0 0 None l0)\<lparr>l_count := 0, l_regions := []\<rparr>)
          else if w_version exe = 3 \<and> \<not> abi_ok exe t
          then (WAX_E_ABI_MISMATCH, (fail 0 0 None l0)\<lparr>l_count := 0, l_regions := []\<rparr>)
          else (case start_launch exe t l0 of
              None \<Rightarrow> (WAX_E_FORMAT, (fail 0 0 None l0)\<lparr>l_count := 0, l_regions := []\<rparr>)
            | Some l \<Rightarrow>
                let (error, l, order) = resolve_all libs t l in
                if error \<noteq> WAX_OK then (error, l)
                else let (error, l) = check_imports l in
                if error \<noteq> WAX_OK then (error, l)
                else let (error, l) = place t order l in
                if error \<noteq> WAX_OK then (error, l)
                else let (error, l) = plan_regions l in
                if error \<noteq> WAX_OK then (error, l)
                else
                  let exe = l_image l 0 in
                  (WAX_OK, l\<lparr>l_entry := w_origin exe + w_entry_offset exe,
                     l_stack_top := w_stack_top exe + l_delta l, l_stack_size := w_stack_size exe\<rparr>)))"

definition shift_region :: "u32 \<Rightarrow> wax_region \<Rightarrow> wax_region" where
  "shift_region shift r = r\<lparr>r_start := r_start r + shift, r_end := r_end r + shift\<rparr>"

definition wax_rebase :: "wax_launch \<Rightarrow> u32 \<Rightarrow> wax_error \<times> wax_launch" where
  "wax_rebase l shift =
     (if list_ex (\<lambda>i. 1 < w_align (l_image l i) \<and> shift AND (w_align (l_image l i) - 1) \<noteq> 0) [0..<l_count l]
      then (WAX_E_FORMAT, l)
      else (WAX_OK, l\<lparr>
        l_image := (\<lambda>i. if i < l_count l then (l_image l i)\<lparr>w_origin := w_origin (l_image l i) + shift\<rparr> else l_image l i),
        l_regions := map (shift_region shift) (l_regions l),
        l_entry := l_entry l + shift, l_stack_top := l_stack_top l + shift, l_top := l_top l + shift,
        l_delta := l_delta l + shift\<rparr>))"

text \<open>A launch record that nothing has been planned in.\<close>

definition no_launch :: wax_launch where
  "no_launch = \<lparr>l_count = 0, l_image = (\<lambda>_. no_image), l_entry = 0, l_stack_top = 0, l_stack_size = 0, l_top = 0,
     l_delta = 0, l_heap_hint = 0, l_regions = [], diag_image = 0, diag_index = 0, diag_name = None\<rparr>"

end
