(* ===== verification/Wax_Load.thy ===== *)
theory Wax_Load
  imports Wax_Plan Phys_Mem
begin

text \<open>
  Loading a planned launch (\<open>foundation/kernel/wax.c\<close>, \<open>copy_bytes\<close> to \<open>wax_load\<close>): the blocks,
  the zeroed tails and stack, the relocations and the import descriptors. A mapping gives
  the memory address and the contiguous run behind a process address: \<open>Bias\<close> is the kernel's own
  view, \<open>Via\<close> a callback. A callback that returned an empty run would keep the copy loops busy
  for ever, so that these are partial functions; the kernel's own view always ends (\<open>wax_load_total\<close>).
  The file's bytes are constants: the source reads them from memory it does not write.
\<close>

section \<open>Copies and fills\<close>

fun put_words :: "ram \<Rightarrow> u32 \<Rightarrow> u8 list \<Rightarrow> ram" where
  "put_words m d (b0 # b1 # b2 # b3 # bs) = put_words (st32 m d (be32 b0 b1 b2 b3)) (d + 4) bs"
| "put_words m d bs = store_bytes m d bs"

definition wax_copy :: "ram \<Rightarrow> u32 \<Rightarrow> u32 \<Rightarrow> u8 list \<Rightarrow> ram" where
  "wax_copy m dst src bs = (if (dst OR src) AND 3 = 0 then put_words m dst bs else store_bytes m dst bs)"

definition wax_zero :: "ram \<Rightarrow> u32 \<Rightarrow> nat \<Rightarrow> ram" where
  "wax_zero m dst n =
     (let k = min n (align_count dst); w = (n - k) div 4;
          m = store_bytes m dst (replicate k 0);
          m = zero_words m (dst + of_nat k) w
      in store_bytes m (dst + of_nat (k + 4 * w)) (replicate (n - (k + 4 * w)) 0))"

datatype mapping = Bias u32 | Via "ram \<Rightarrow> u32 \<Rightarrow> u32 \<times> u32"

fun map_at :: "mapping \<Rightarrow> ram \<Rightarrow> u32 \<Rightarrow> u32 \<times> u32" where
  "map_at (Bias b) m a = (b + a, 0xFFFFFFFF)"
| "map_at (Via f) m a = f m a"

partial_function (option) put_bytes :: "mapping \<Rightarrow> u32 \<Rightarrow> u32 \<Rightarrow> u8 list \<Rightarrow> ram \<Rightarrow> ram option" where
  "put_bytes via a src bs m =
     (if bs = [] then Some m
      else case map_at via m a of (dst, run) \<Rightarrow>
        let n = min (unat run) (length bs) in
        put_bytes via (a + of_nat n) (src + of_nat n) (drop n bs) (wax_copy m dst src (take n bs)))"

partial_function (option) put_zeros :: "mapping \<Rightarrow> u32 \<Rightarrow> nat \<Rightarrow> ram \<Rightarrow> ram option" where
  "put_zeros via a n m =
     (if n = 0 then Some m
      else case map_at via m a of (dst, run) \<Rightarrow>
        let k = min (unat run) n in put_zeros via (a + of_nat k) (n - k) (wax_zero m dst k))"

text \<open>\<open>put32\<close> writes from a local array, whose address does not matter: 1 stands for it.\<close>

definition put32 :: "mapping \<Rightarrow> u32 \<Rightarrow> u32 \<Rightarrow> ram \<Rightarrow> ram option" where
  "put32 via a v m = put_bytes via a 1 (bytes_of v) m"

definition get32 :: "mapping \<Rightarrow> ram \<Rightarrow> u32 \<Rightarrow> u32" where
  "get32 via m a = ld32 m (fst (map_at via m a))"

section \<open>Relocation\<close>

definition imm_of :: "u32 \<Rightarrow> u32 \<Rightarrow> u32" where
  "imm_of insn imm = insn - (insn AND 0xFFFF) + (imm AND 0xFFFF)"

definition reloc_entry :: "wax_image \<Rightarrow> nat \<Rightarrow> u32" where
  "reloc_entry exe i = word exe (w_reloc_table exe + 4 * of_nat i)"

text \<open>One relocation through the mapping.\<close>

definition relocate_one :: "mapping \<Rightarrow> u32 \<Rightarrow> u32 \<Rightarrow> ram \<Rightarrow> ram option" where
  "relocate_one via delta entry m =
     (let at = (entry AND NOT 3) + delta in
      if entry AND RELOC_PAIR \<noteq> 0 then
        let high = get32 via m at; low = get32 via m (at + 4);
            v = (high AND 0xFFFF) * 0x10000 + (low AND 0xFFFF) + delta in
        Option.bind (put32 via at (imm_of high (v div 0x10000)) m) (put32 via (at + 4) (imm_of low v))
      else put32 via at (get32 via m at + delta) m)"

text \<open>The same in the kernel's own memory, by words.\<close>

definition relocate_direct :: "u32 \<Rightarrow> u32 \<Rightarrow> u32 \<Rightarrow> ram \<Rightarrow> ram" where
  "relocate_direct bias delta entry m =
     (let at = bias + (entry AND NOT 3) + delta in
      if entry AND RELOC_PAIR \<noteq> 0 then
        let v = push_bit 16 (ld32 m at) + (ld32 m (at + 4) AND 0xFFFF) + delta;
            m = st32 m at ((ld32 m at AND 0xFFFF0000) OR drop_bit 16 v)
        in st32 m (at + 4) ((ld32 m (at + 4) AND 0xFFFF0000) OR (v AND 0xFFFF))
      else st32 m at (ld32 m at + delta))"

definition relocate :: "wax_launch \<Rightarrow> mapping \<Rightarrow> ram \<Rightarrow> ram option" where
  "relocate l via m =
     (let exe = l_image l 0; entries = map (reloc_entry exe) [0..<unat (w_reloc_count exe)] in
      if \<not> w_relocatable exe \<or> l_delta l = 0 then Some m
      else case via of
        Bias bias \<Rightarrow>
          if w_at exe AND 3 = 0 then Some (fold (relocate_direct bias (l_delta l)) entries m)
          else fold_option (relocate_one via (l_delta l)) entries m
      | Via _ \<Rightarrow> fold_option (relocate_one via (l_delta l)) entries m)"

section \<open>Loading\<close>

definition slice :: "u8 list \<Rightarrow> u32 \<Rightarrow> nat \<Rightarrow> u8 list" where
  "slice d off n = map (\<lambda>i. rd8 d (off + of_nat i)) [0..<n]"

definition load_block :: "wax_image \<Rightarrow> mapping \<Rightarrow> block \<Rightarrow> ram \<Rightarrow> ram option" where
  "load_block im via b m =
     (let a = runtime_address im b in
      Option.bind (put_bytes via a (w_at im + b_file_offset b)
          (slice (w_data im) (b_file_offset b) (unat (b_file_size b))) m)
        (put_zeros via (a + b_file_size b) (unat (b_memory_size b - b_file_size b))))"

definition bind_import :: "wax_launch \<Rightarrow> mapping \<Rightarrow> nat \<times> nat \<Rightarrow> ram \<Rightarrow> ram option" where
  "bind_import l via = (\<lambda>(i, k) m.
     let im = l_image l i; provider = provider_of l im k; x = find_export provider (import_name im k);
         slot = w_origin im + word im (import_entry im k + 12) in
     Option.bind (put32 via slot (w_origin provider + word provider (x + 8)) m)
       (put32 via (slot + 4) (w_origin provider)))"

definition wax_load_mapped :: "wax_launch \<Rightarrow> mapping \<Rightarrow> ram \<Rightarrow> ram option" where
  "wax_load_mapped l via m =
     Option.bind (fold_option (\<lambda>i. fold_option (load_block (l_image l i) via) (blocks (l_image l i)))
         [0..<l_count l] m) (\<lambda>m.
     Option.bind (put_zeros via (l_stack_top l - l_stack_size l) (unat (l_stack_size l)) m) (\<lambda>m.
     Option.bind (relocate l via m)
       (fold_option (bind_import l via) (all_imports l))))"

definition wax_load :: "wax_launch \<Rightarrow> u32 \<Rightarrow> ram \<Rightarrow> ram option" where
  "wax_load l bias m = wax_load_mapped l (Bias bias) m"

end
