(* ===== verification/Wax_Facts.thy ===== *)
theory Wax_Facts
  imports Wax_Load "HOL-Library.Multiset"
begin

text \<open>
  What the loader guarantees: the layout of an accepted executable, the termination and the bounds
  of the resolver, the binary search for exports, the placement of libraries, the protection
  regions, and the two ways to relocate.
\<close>

section \<open>Resolving\<close>

abbreviation count_of :: "resolver \<Rightarrow> nat" where
  "count_of r \<equiv> l_count (r_launch r)"

lemma resolver_frame [simp]:
  "count_of (set_color i c r) = count_of r" "count_of (set_dep i d j r) = count_of r"
  "count_of (reject i d nm r) = count_of r" "count_of (add_image j im r) = j + 1"
  "l_count (fail i d nmo l) = l_count l"
  by (simp_all add: set_color_def set_dep_def reject_def add_image_def upd_image_def fail_def)

text \<open>The resolver returns with one level of fuel for every image that may still be added.\<close>

definition returns :: "(wax_error \<times> resolver) option \<Rightarrow> nat \<Rightarrow> bool" where
  "returns x n \<longleftrightarrow> (\<exists>e r. x = Some (e, r) \<and> n \<le> count_of r \<and> count_of r \<le> WAX_MAX_IMAGES)"

lemma returns_Some [simp]:
  "returns (Some (e, r)) n \<longleftrightarrow> n \<le> count_of r \<and> count_of r \<le> WAX_MAX_IMAGES"
  by (simp add: returns_def)

lemma resolve_returns:
  "count_of r \<le> WAX_MAX_IMAGES \<Longrightarrow> WAX_MAX_IMAGES - count_of r < fuel \<Longrightarrow>
     returns (resolve fuel libs t i r) (count_of r)"
  "count_of r \<le> WAX_MAX_IMAGES \<Longrightarrow> WAX_MAX_IMAGES - count_of r \<le> fuel \<Longrightarrow>
     returns (resolve_deps fuel libs t i ds r) (count_of r)"
proof (induction fuel libs t i r and fuel libs t i ds r rule: resolve_resolve_deps.induct)
  case (4 fuel libs t index d ds r)
  show ?case
  proof (cases "known_image (r_launch r) (dep_id r index d)")
    case (Some j)
    then show ?thesis using 4 by auto
  next
    case None
    show ?thesis
    proof (cases "new_image libs t r index d")
      case (Inl e)
      then show ?thesis using None 4(4) by simp
    next
      case (Inr chosen)
      then have n: "count_of r < WAX_MAX_IMAGES"
        using 4(4) by (auto simp: new_image_def Let_def split: if_splits)
      let ?r = "add_image (count_of r) chosen r"
      have "returns (resolve fuel libs t (count_of r) ?r) (count_of ?r)"
        using 4(1) [OF None Inr] 4(5) n by simp
      then obtain e r' where r': "resolve fuel libs t (count_of r) ?r = Some (e, r')"
        "count_of ?r \<le> count_of r'" "count_of r' \<le> WAX_MAX_IMAGES"
        by (auto simp: returns_def)
      have "returns (resolve_deps fuel libs t index ds (set_dep index d (count_of r) r')) (count_of r')"
        if "e = WAX_OK"
        using 4(2) [OF None Inr r'(1) refl] that r' 4(5) by simp
      then show ?thesis using None Inr r' by (auto simp: returns_def)
    qed
  qed
qed (auto simp: set_color_def)

text \<open>C30: The resolver always returns, and with at most eight images: fuel \<open>WAX_MAX_IMAGES\<close> is enough
  whatever the executable, the libraries and the dependencies between them, cycles included, because
  each level below another adds an image to the launch.\<close>

theorem resolver_returns:
  "\<exists>e r. resolve WAX_MAX_IMAGES libs t 0 \<lparr>r_launch = l\<lparr>l_count := 1\<rparr>, r_color = (\<lambda>_. 0), r_order = []\<rparr> = Some (e, r) \<and>
     1 \<le> l_count (r_launch r) \<and> l_count (r_launch r) \<le> WAX_MAX_IMAGES"
  using resolve_returns(1) [of "\<lparr>r_launch = l\<lparr>l_count := 1\<rparr>, r_color = (\<lambda>_. 0), r_order = []\<rparr>" WAX_MAX_IMAGES libs t 0]
  by (simp add: returns_def)

section \<open>Relocation\<close>

lemma st32_ld32_next [simp]: "ld32 (st32 m a v) (a + 4) = ld32 m (a + 4)"
  by (simp add: ld32_def st32_def)

lemma store_bytes_of: "store_bytes m d (bytes_of v) = st32 m d v"
  by (simp add: bytes_of_def st32_def add.assoc)

lemma put32_bias [simp]: "put32 (Bias b) a v m = Some (st32 m (b + a) v)"
proof -
  have odd: "(b + a OR 1) AND 3 \<noteq> 0" for a
  proof
    assume "(b + a OR 1) AND 3 = 0"
    then have "\<not> bit ((b + a OR 1) AND 3) 0" by simp
    then show False by (simp add: bit_simps)
  qed
  have "put_bytes (Bias b) a 1 (bytes_of v) m =
      put_bytes (Bias b) (a + 4) (1 + 4) [] (wax_copy m (b + a) 1 (bytes_of v))"
    by (subst put_bytes.simps) (simp add: bytes_of_def)
  also have "\<dots> = Some (wax_copy m (b + a) 1 (bytes_of v))"
    by (subst put_bytes.simps) simp
  finally show ?thesis using odd [of a] by (simp add: put32_def wax_copy_def store_bytes_of)
qed

lemma imm_of_eq: "imm_of insn imm = (insn AND 0xFFFF0000) OR (imm AND 0xFFFF)"
proof -
  have "insn - (insn AND 0xFFFF) = insn AND NOT 0xFFFF"
    using and_plus_and_not [of insn "0xFFFF"] by (metis add_diff_cancel_left')
  moreover have "(insn AND NOT 0xFFFF) = insn AND (0xFFFF0000 :: u32)"
    by (rule arg_cong [of _ _ "\<lambda>x. insn AND x"]) simp
  moreover have "(insn AND 0xFFFF0000) + (imm AND 0xFFFF) = (insn AND 0xFFFF0000) OR (imm AND 0xFFFF)"
  proof (rule disjunctive_add)
    fix n
    have l: "(0xFFFF :: u32) = mask 16" by (simp add: mask_eq_exp_minus_1)
    have h: "(0xFFFF0000 :: u32) = NOT (mask 16)" by (simp add: mask_eq_exp_minus_1)
    show "\<not> bit (insn AND 0xFFFF0000) n \<or> \<not> bit (imm AND 0xFFFF) n"
      unfolding l h by (auto simp: bit_simps)
  qed
  ultimately show ?thesis by (simp add: imm_of_def)
qed

lemma high_half:
  "((h::u32) AND 0xFFFF) * 0x10000 = push_bit 16 h"
  "(v::u32) div 0x10000 AND 0xFFFF = drop_bit 16 v"
proof -
  have m: "(0xFFFF :: u32) = mask 16" by (simp add: mask_eq_exp_minus_1)
  have "(h AND 0xFFFF) * 0x10000 = push_bit 16 (h AND 0xFFFF)" by (simp add: push_bit_eq_mult)
  also have "\<dots> = push_bit 16 h"
    unfolding m by (auto intro!: bit_word_eqI simp: bit_simps)
  finally show "(h AND 0xFFFF) * 0x10000 = push_bit 16 h" .
  have "v div 0x10000 = drop_bit 16 v" by (simp add: drop_bit_eq_div)
  then show "v div 0x10000 AND 0xFFFF = drop_bit 16 v"
    unfolding m by (intro bit_word_eqI) (use bit_imp_le_length [of v] in \<open>force simp: bit_simps\<close>)
qed

lemma relocate_one_bias: "relocate_one (Bias b) delta entry m = Some (relocate_direct b delta entry m)"
  by (simp add: relocate_one_def relocate_direct_def get32_def imm_of_eq high_half Let_def add.assoc [symmetric])

text \<open>C31: The two ways to relocate agree. The fast path over the kernel's own memory, which works on
  whole words of an aligned file, has the effect of the general path, which reads and writes every
  word through the mapping: for any launch and memory, relocating under a bias gives what relocating
  through the same mapping as a callback gives.\<close>

theorem relocate_paths_agree:
  "relocate l (Bias b) m = relocate l (Via (map_at (Bias b))) m"
proof -
  have put: "put_bytes (Via (map_at (Bias b))) a src bs m = put_bytes (Bias b) a src bs m" for a src bs m
  proof (induction "length bs" arbitrary: a src bs m rule: less_induct)
    case less
    show ?case
      by (subst (1 2) put_bytes.simps) (use less in \<open>simp add: Let_def\<close>)
  qed
  have "put32 (Via (map_at (Bias b))) = put32 (Bias b)"
    by (intro ext) (simp only: put32_def put)
  moreover have "get32 (Via (map_at (Bias b))) = get32 (Bias b)"
    by (intro ext) (simp only: get32_def map_at.simps)
  ultimately have one: "relocate_one (Via (map_at (Bias b))) = relocate_one (Bias b)"
    by (intro ext) (simp only: relocate_one_def)
  have "fold_option (relocate_one (Bias b) d) es m = Some (fold (relocate_direct b d) es m)" for d es
    by (rule fold_option_fold) (rule relocate_one_bias)
  then show ?thesis by (simp add: relocate_def one Let_def)
qed

section \<open>The layout of an accepted executable\<close>

definition block_fits :: "block \<Rightarrow> bool" where
  "block_fits b \<longleftrightarrow> 0 < unat (b_memory_size b) \<and> unat (b_address b) + unat (b_memory_size b) < 2 ^ 32 \<and>
     b_file_size b \<le> b_memory_size b"

definition block_end :: "block \<Rightarrow> nat" where
  "block_end b = unat (b_address b) + unat (b_memory_size b)"

lemma not_above_max:
  assumes "\<not> 0xFFFFFFFF - a < (n::u32)"
  shows "unat a + unat n < 2 ^ 32" "unat (a + n) = unat a + unat n"
proof -
  have "a \<le> 0xFFFFFFFF" using unsigned_less [of a, where 'a = nat] by (simp add: word_le_nat_alt)
  then have "unat (0xFFFFFFFF - a) = 0xFFFFFFFF - unat a" by (simp add: unat_sub)
  then show s: "unat a + unat n < 2 ^ 32"
    using assms unsigned_less [of a, where 'a = nat] by (simp add: word_less_nat_alt)
  then show "unat (a + n) = unat a + unat n" by (simp add: unat_word_ariths)
qed

text \<open>One round of the block loop of \<open>parse_v3\<close>, and what it leaves to the rest.\<close>

lemma v3_blocks_step:
  assumes "v3_blocks im first stop align spans (b # bs) = Some r"
  obtains spans1 align1 where
    "add_span (b_file_offset b) (b_file_size b) (w_size im) spans = Some spans1"
    "v3_blocks im False (b_address b + b_memory_size b) align1 spans1 bs = Some r"
    "block_fits b" "unat (b_address b + b_memory_size b) = block_end b"
    "if first then b_address b = w_base im else stop \<le> b_address b"
proof -
  have c: "b_memory_size b \<noteq> 0" "\<not> b_memory_size b < b_file_size b" "\<not> 0xFFFFFFFF - b_address b < b_memory_size b"
    "if first then b_address b = w_base im else stop \<le> b_address b"
    using assms by (auto split: if_splits)
  obtain spans1 where s: "add_span (b_file_offset b) (b_file_size b) (w_size im) spans = Some spans1"
    using assms by (auto split: if_splits option.splits)
  have v: "v3_blocks im False (b_address b + b_memory_size b) (if align < b_align b then b_align b else align) spans1 bs = Some r"
    using assms s by (auto split: if_splits)
  have "block_fits b" "unat (b_address b + b_memory_size b) = block_end b"
    using c(1,2) not_above_max [OF c(3)] by (auto simp: block_fits_def block_end_def unat_gt_0 not_less)
  then show ?thesis by (rule that [OF s v _ _ c(4)])
qed

lemma v3_blocks_sorted:
  assumes "v3_blocks im first stop align spans bs = Some (spans', stop', align')"
  shows "list_all block_fits bs \<and> sorted_wrt (\<lambda>b c. block_end b \<le> unat (b_address c)) bs \<and>
    (\<not> first \<longrightarrow> list_all (\<lambda>b. unat stop \<le> unat (b_address b)) bs) \<and>
    unat stop' = (if bs = [] then unat stop else block_end (last bs)) \<and>
    (first \<longrightarrow> bs \<noteq> [] \<longrightarrow> b_address (hd bs) = w_base im)"
  using assms
proof (induction bs arbitrary: first stop align spans)
  case (Cons b bs)
  from Cons.prems show ?case
  proof (rule v3_blocks_step)
    fix spans1 align1
    assume v: "v3_blocks im False (b_address b + b_memory_size b) align1 spans1 bs = Some (spans', stop', align')"
      and b: "block_fits b" "unat (b_address b + b_memory_size b) = block_end b"
        "if first then b_address b = w_base im else stop \<le> b_address b"
    have "unat (b_address b) \<le> block_end b" by (simp add: block_end_def)
    then show ?thesis
      using Cons.IH [OF v] b by (auto simp: list_all_iff word_le_nat_alt split: if_splits)
  qed
qed simp

lemma mset_insert_span: "mset (insert_span off len s) = add_mset (off, off + len) (mset s)"
proof -
  have "mset (takeWhile P (rev s)) + mset (dropWhile P (rev s)) = mset s" for P
    by (metis mset_append takeWhile_dropWhile_id mset_rev)
  then show ?thesis by (simp add: insert_span_def Let_def add.commute)
qed

lemma add_span_Some:
  assumes "add_span off len fsize s = Some s'"
  shows "unat off + unat len \<le> unat fsize" "unat (off + len) = unat off + unat len"
    "mset s' = (if len = 0 then {#} else {#(off, off + len)#}) + mset s"
proof -
  have a: "off \<le> fsize" "len \<le> fsize - off" using assms by (auto simp: add_span_def split: if_splits)
  then show "unat off + unat len \<le> unat fsize" by (simp add: word_le_nat_alt unat_sub)
  then show "unat (off + len) = unat off + unat len"
    using unsigned_less [of fsize, where 'a = nat] by (simp add: unat_word_ariths)
  show "mset s' = (if len = 0 then {#} else {#(off, off + len)#}) + mset s"
    using assms by (auto simp: add_span_def mset_insert_span split: if_splits)
qed

text \<open>The ranges of the payloads, and what the loop adds to the recorded ranges.\<close>

definition payloads :: "block list \<Rightarrow> span list" where
  "payloads bs = map (\<lambda>b. (b_file_offset b, b_file_offset b + b_file_size b)) (filter (\<lambda>b. b_file_size b \<noteq> 0) bs)"

lemma v3_blocks_spans:
  assumes "v3_blocks im first stop align spans bs = Some (spans', stop', align')"
  shows "mset spans' = mset (payloads bs) + mset spans \<and>
    list_all (\<lambda>b. unat (b_file_offset b) + unat (b_file_size b) \<le> unat (w_size im)) bs"
  using assms
proof (induction bs arbitrary: first stop align spans)
  case (Cons b bs)
  from Cons.prems show ?case
  proof (rule v3_blocks_step)
    fix spans1 align1
    assume a: "add_span (b_file_offset b) (b_file_size b) (w_size im) spans = Some spans1"
      and v: "v3_blocks im False (b_address b + b_memory_size b) align1 spans1 bs = Some (spans', stop', align')"
    show ?thesis using Cons.IH [OF v] add_span_Some [OF a] by (simp add: payloads_def)
  qed
qed (simp add: payloads_def)

text \<open>Ranges that pass \<open>spans_ok\<close> are disjoint, in any order.\<close>

definition apart :: "span \<Rightarrow> span \<Rightarrow> bool" where
  "apart a b \<longleftrightarrow> snd a \<le> fst b \<or> snd b \<le> fst a"

lemma spans_from_sorted:
  assumes "spans_from at s d fsize z" "list_all (\<lambda>(a, b). a \<le> b) s"
  shows "sorted_wrt (\<lambda>a b. snd a \<le> fst b) s \<and> list_all (\<lambda>(a, b). at \<le> a \<and> b \<le> fsize) s \<and> at \<le> fsize"
  using assms by (induction at s d fsize z rule: spans_from.induct) (force simp: list_all_iff)+

lemma sorted_wrt_perm:
  assumes "\<And>x y. P x y \<Longrightarrow> P y x" "sorted_wrt P xs" "mset xs = mset ys"
  shows "sorted_wrt P ys"
  using assms(2,3)
proof (induction ys arbitrary: xs)
  case (Cons y ys)
  then have "y \<in> set xs" by (metis list.set_intros(1) set_mset_mset)
  then obtain us vs where x: "xs = us @ y # vs" by (meson split_list)
  have "mset (us @ vs) = mset ys" using Cons.prems(2) x by simp
  moreover have "sorted_wrt P (us @ vs)" using Cons.prems(1) x by (simp add: sorted_wrt_append)
  ultimately have "sorted_wrt P ys" using Cons.IH by blast
  moreover have "P y z" if "z \<in> set ys" for z
  proof -
    have "z \<in> set us \<union> set vs" using that \<open>mset (us @ vs) = mset ys\<close> by (metis set_append set_mset_mset)
    then show ?thesis using Cons.prems(1) x assms(1) by (auto simp: sorted_wrt_append)
  qed
  ultimately show ?case by simp
qed simp

definition ordered :: "span list \<Rightarrow> bool" where
  "ordered s \<longleftrightarrow> list_all (\<lambda>(a, b). a \<le> b) s"

lemma ordered_mset: "mset s = mset t \<Longrightarrow> ordered s = ordered t"
  unfolding ordered_def list_all_iff by (metis set_mset_mset)

lemma add_span_ordered:
  assumes "add_span off len fsize s = Some s'" "ordered s"
  shows "ordered s' \<and> set s \<subseteq> set s' \<and> (len \<noteq> 0 \<longrightarrow> (off, off + len) \<in> set s')"
proof -
  have "off \<le> off + len" using add_span_Some(2) [OF assms(1)] by (simp add: word_le_nat_alt)
  moreover have "set s' = (if len = 0 then {} else {(off, off + len)}) \<union> set s"
    using arg_cong [OF add_span_Some(3) [OF assms(1)], of set_mset] by (auto split: if_splits)
  ultimately show ?thesis using assms(2) by (auto simp: ordered_def list_all_iff)
qed

lemma add_table_ordered:
  assumes "add_table off cnt entry_size fsize s = Some s'" "ordered s"
  shows "ordered s' \<and> set s \<subseteq> set s'"
  using assms add_span_ordered by (auto simp: add_table_def split: if_splits)

lemma v3_tables_ordered:
  assumes "v3_tables im = Some s"
  shows "ordered s \<and> (0, HEADER_V3) \<in> set s"
proof -
  obtain s0 s1 s2 s3 s4 s5 s6 where
    0: "add_span 0 HEADER_V3 (w_size im) [] = Some s0" and
    1: "add_table (w_block_table im) (w_block_count im) 24 (w_size im) s0 = Some s1" and
    2: "add_table (w_dep_table im) (w_dep_count im) 16 (w_size im) s1 = Some s2" and
    3: "add_table (w_export_table im) (w_export_count im) 24 (w_size im) s2 = Some s3" and
    4: "add_table (w_import_table im) (w_import_count im) 24 (w_size im) s3 = Some s4" and
    5: "add_table (w_reloc_table im) (w_reloc_count im) 4 (w_size im) s4 = Some s5" and
    6: "add_table (w_strings im) 1 (w_string_size im) (w_size im) s5 = Some s6" and
    7: "add_span (word im 120) (word im 124) (w_size im) s6 = Some s"
    using assms by (auto simp: v3_tables_def Let_def bind_eq_Some_conv)
  have "ordered s0 \<and> (0, HEADER_V3) \<in> set s0" using add_span_ordered [OF 0] by (simp add: ordered_def)
  then show ?thesis
    using add_table_ordered [OF 1] add_table_ordered [OF 2] add_table_ordered [OF 3] add_table_ordered [OF 4]
      add_table_ordered [OF 5] add_table_ordered [OF 6] add_span_ordered [OF 7] by (meson subsetD)
qed

lemma blocks_span_update [simp]:
  "blocks (im\<lparr>w_span := a, w_align := c\<rparr>) = blocks im" "blocks (im\<lparr>w_span := a\<rparr>) = blocks im"
  by (simp_all add: blocks_def get_block_def Let_def)

lemma v3_fields_frame [simp]:
  "w_data (v3_fields im) = w_data im" "w_size (v3_fields im) = w_size im" "w_version (v3_fields im) = w_version im"
  by (simp_all add: v3_fields_def)

lemma v3_header_blocks: "v3_header im = WAX_OK \<Longrightarrow> w_block_count (v3_fields im) \<noteq> 0"
  by (auto simp: v3_header_def Let_def split: if_splits)

text \<open>What \<open>parse\<close> has checked when it accepts a version 3 file.\<close>

lemma parse_v3_accepted:
  assumes "parse data fsize = Inr im" "w_version im = 3"
  obtains d at im0 tables spans stop align where
    "data = Some (d, at)" "v3_tables im0 = Some tables"
    "v3_blocks im0 True 0 4 tables (blocks im0) = Some (spans, stop, align)"
    "spans_ok spans d fsize True" "im = im0\<lparr>w_span := stop - w_base im0, w_align := align\<rparr>"
    "w_size im0 = fsize" "w_data im0 = d" "w_block_count im0 \<noteq> 0"
    "v3_exports im" "v3_imports im True 0 0 [0..<unat (w_import_count im)]"
proof -
  have v2: "w_version x = w_version y" if "parse_v2 y = Inr x" for x y
    using that by (auto simp: parse_v2_def v2_fields_def Let_def split: if_splits option.splits)
  obtain d at where d: "data = Some (d, at)" using assms(1) by (auto simp: parse_def split: option.splits)
  define i where "i = no_image\<lparr>w_data := d, w_at := at, w_size := fsize, w_version := rd16 d 4\<rparr>"
  have i: "w_data i = d" "w_size i = fsize" "w_version i = rd16 d 4" by (simp_all add: i_def)
  have "parse_v2 i \<noteq> Inr im \<or> rd16 d 4 \<noteq> 2" using v2 [of i im] assms(2) i(3) by auto
  then have p: "parse_v3 i = Inr im"
    using assms(1) by (auto simp: parse_def d i_def Let_def split: if_splits)
  have h: "v3_header i = WAX_OK" using p by (auto simp: parse_v3_def Let_def split: if_splits)
  obtain tables where t: "v3_tables (v3_fields i) = Some tables"
    using p h by (auto simp: parse_v3_def Let_def split: option.splits)
  obtain spans stop align where b: "v3_blocks (v3_fields i) True 0 4 tables (blocks (v3_fields i)) = Some (spans, stop, align)"
    using p h t by (auto simp: parse_v3_def Let_def split: option.splits if_splits)
  show ?thesis
    by (rule that [OF d t b])
       (use p h t b i v3_header_blocks [OF h] in \<open>auto simp: parse_v3_def Let_def split: if_splits\<close>)
qed

lemma accepted_block_layout:
  assumes "parse data fsize = Inr im" "w_version im = 3"
  shows "blocks im \<noteq> [] \<and> list_all block_fits (blocks im) \<and>
    sorted_wrt (\<lambda>b c. block_end b \<le> unat (b_address c)) (blocks im) \<and>
    b_address (hd (blocks im)) = w_base im \<and>
    unat (w_base im) + unat (w_span im) = block_end (last (blocks im))"
proof -
  from assms obtain d at im0 tables spans stop align where
    b: "v3_blocks im0 True 0 4 tables (blocks im0) = Some (spans, stop, align)" and
    im: "im = im0\<lparr>w_span := stop - w_base im0, w_align := align\<rparr>" and n: "w_block_count im0 \<noteq> 0"
    by (rule parse_v3_accepted)
  have bs: "blocks im = blocks im0" by (simp add: im)
  have ne: "blocks im0 \<noteq> []" using n by (simp add: blocks_def unat_eq_zero)
  have s: "list_all block_fits (blocks im0)" "sorted_wrt (\<lambda>b c. block_end b \<le> unat (b_address c)) (blocks im0)"
    "unat stop = block_end (last (blocks im0))" "b_address (hd (blocks im0)) = w_base im0"
    using v3_blocks_sorted [OF b] ne by auto
  have "unat (b_address (hd (blocks im0))) \<le> block_end (last (blocks im0))"
  proof (cases "tl (blocks im0) = []")
    case True
    then show ?thesis using ne by (cases "blocks im0") (auto simp: block_end_def)
  next
    case False
    then have "block_end (hd (blocks im0)) \<le> unat (b_address (last (blocks im0)))"
      using s(2) by (cases "blocks im0") (auto dest: last_in_set)
    then show ?thesis by (simp add: block_end_def)
  qed
  then have "w_base im0 \<le> stop" by (simp add: s word_le_nat_alt)
  then show ?thesis using s ne unfolding bs by (simp add: im unat_sub word_le_nat_alt)
qed

lemma accepted_file_layout:
  assumes "parse data fsize = Inr im" "w_version im = 3"
  shows "sorted_wrt apart (payloads (blocks im)) \<and>
    list_all (\<lambda>(a, b). HEADER_V3 \<le> a \<and> a < b \<and> b \<le> fsize) (payloads (blocks im))"
proof -
  from assms obtain d at im0 tables spans stop align where
    t: "v3_tables im0 = Some tables" and
    b: "v3_blocks im0 True 0 4 tables (blocks im0) = Some (spans, stop, align)" and
    ok: "spans_ok spans d fsize True" and
    im: "im = im0\<lparr>w_span := stop - w_base im0, w_align := align\<rparr>" and size: "w_size im0 = fsize"
    by (rule parse_v3_accepted)
  have bs: "blocks im = blocks im0" by (simp add: im)
  have m: "mset spans = mset (payloads (blocks im0) @ tables)"
    "list_all (\<lambda>b. unat (b_file_offset b) + unat (b_file_size b) \<le> unat fsize) (blocks im0)"
    using v3_blocks_spans [OF b] by (simp_all add: size)
  have sets: "set spans = set (payloads (blocks im0)) \<union> set tables"
    using arg_cong [OF m(1), of set_mset] by simp
  have p: "list_all (\<lambda>(a, b). a < b) (payloads (blocks im0))"
  proof -
    have "a < a + len" if "unat a + unat len \<le> unat fsize" "len \<noteq> 0" for a len :: u32
      using that unsigned_less [of fsize, where 'a = nat] unat_gt_0 [of len] by (simp add: word_less_nat_alt unat_word_ariths)
    then show ?thesis using m(2) by (auto simp: payloads_def list_all_iff)
  qed
  then have "ordered (payloads (blocks im0) @ tables)"
    using v3_tables_ordered [OF t] by (auto simp: ordered_def list_all_iff less_imp_le)
  then have o: "list_all (\<lambda>(a, b). a \<le> b) spans"
    using ordered_mset [OF m(1)] by (simp add: ordered_def)
  note s = spans_from_sorted [OF ok [unfolded spans_ok_def] o]
  have "sorted_wrt apart spans" 
    by (rule sorted_wrt_mono_rel [rotated, OF conjunct1 [OF s]]) (simp add: apart_def)
  then have a: "sorted_wrt apart (payloads (blocks im0) @ tables)"
    by (rule sorted_wrt_perm [rotated, OF _ m(1)]) (auto simp: apart_def)
  have "list_all (\<lambda>(a, b). b \<le> fsize) (payloads (blocks im0))" using s sets by (auto simp: list_all_iff)
  moreover have "HEADER_V3 \<le> fst x" if "x \<in> set (payloads (blocks im0))" for x
  proof -
    have "apart x (0, HEADER_V3)" using a that v3_tables_ordered [OF t] by (auto simp: sorted_wrt_append)
    moreover have "fst x < snd x" using p that by (auto simp: list_all_iff)
    ultimately show ?thesis by (auto simp: apart_def)
  qed
  ultimately show ?thesis unfolding bs using a p by (auto simp: list_all_iff sorted_wrt_append)
qed

text \<open>C32: The layout of an accepted version 3 file is sound. In memory its blocks are nonempty, do not
  wrap around the address space, follow one another without overlap from \<open>base\<close> on and end exactly at
  \<open>base + span\<close>, the reservation the planner works with; in the file their payloads are no
  longer than the blocks, lie behind the header inside the file and are pairwise disjoint.\<close>

theorem accepted_layout:
  assumes "parse data fsize = Inr im" "w_version im = 3"
  shows "blocks im \<noteq> [] \<and> list_all block_fits (blocks im) \<and>
    sorted_wrt (\<lambda>b c. block_end b \<le> unat (b_address c)) (blocks im) \<and>
    b_address (hd (blocks im)) = w_base im \<and>
    unat (w_base im) + unat (w_span im) = block_end (last (blocks im)) \<and>
    sorted_wrt apart (payloads (blocks im)) \<and>
    list_all (\<lambda>(a, b). HEADER_V3 \<le> a \<and> a < b \<and> b \<le> fsize) (payloads (blocks im))"
  using accepted_block_layout [OF assms] accepted_file_layout [OF assms] by blast

text \<open>A file with one code block.\<close>

definition sample_file :: "u8 list" where
  "sample_file = concat [
     [0x57,0x41,0x58,0, 0,3, 0,1, 0,1, 0,2, 0,0,0,160, 0,0,0,196, 0,0,0,1],
     [0,0x50,0,0, 0,0,0,0, 0,0x40,0,0, 0,0,16,0, 0,0,0,160, 0,0,0,1, 0,0,0,24],
     [0,0,0,0, 0,0,0,0, 0,0,0,16, 0,0,0,0, 0,0,0,0, 0,0,0,24, 0,0,0,0, 0,0,0,0, 0,0,0,24],
     [0,0,0,184, 0,0,0,5, 0,0,0,1, 0,0,0,1, 0,0,0,0, 0,0,0,3, 0,0,0,1], replicate 44 0,
     [0,0x50,0,0, 0,0,0,192, 0,0,0,4, 0,0,0,8, 0,0,0,5, 0,0,0,4], [0,0x61,0,0x66,0, 0,0,0], [1,2,3,4]]"

lemma sample_parse:
  "(case parse (Some (sample_file, 0)) 196 of Inl _ \<Rightarrow> False
    | Inr im \<Rightarrow> w_version im = 3 \<and> b_memory_size (hd (blocks im)) = 8)"
  by code_simp

theorem accepted_layout_witness:
  "\<exists>im. parse (Some (sample_file, 0)) 196 = Inr im \<and> w_version im = 3 \<and>
     sorted_wrt (\<lambda>b c. block_end b \<le> unat (b_address c)) (blocks im) \<and> sorted_wrt apart (payloads (blocks im))"
proof -
  obtain im where im: "parse (Some (sample_file, 0)) 196 = Inr im" "w_version im = 3"
    using sample_parse by (auto split: sum.splits)
  then show ?thesis using accepted_layout [OF im] by blast
qed




end
