(* ===== verification/Drivers.thy ===== *)
theory Drivers
  imports Sched
begin

text \<open>
  The kernel's stream drivers: the bitmap display (\<open>foundation/kernel/fb.c\<close>), the sound generators
  (\<open>foundation/kernel/sgu.c\<close>), the sprite engine (\<open>foundation/kernel/sgc.c\<close>) and the PeC byte streams
  (\<open>foundation/kernel/pec.c\<close>). A call takes the request and the prepared reply and returns the
  status, the reply and the new state.
\<close>

section \<open>Constants and common code\<close>

abbreviation OPEN_READ :: u32 where "OPEN_READ \<equiv> 1"
abbreviation OPEN_WRITE :: u32 where "OPEN_WRITE \<equiv> 2"
abbreviation ST_READ :: u32 where "ST_READ \<equiv> 1"
abbreviation ST_WRITE :: u32 where "ST_WRITE \<equiv> 2"
abbreviation ST_SEEK :: u32 where "ST_SEEK \<equiv> 3"
abbreviation ST_STAT :: u32 where "ST_STAT \<equiv> 4"
abbreviation ST_TRUNCATE :: u32 where "ST_TRUNCATE \<equiv> 5"
abbreviation ST_SYNC :: u32 where "ST_SYNC \<equiv> 6"
abbreviation SEEK_CUR :: u32 where "SEEK_CUR \<equiv> 1"
abbreviation SEEK_END :: u32 where "SEEK_END \<equiv> 2"
abbreviation TYPE_DEVICE :: u32 where "TYPE_DEVICE \<equiv> 3"
abbreviation STAT_READ_ONLY :: u32 where "STAT_READ_ONLY \<equiv> 1"
abbreviation STAT_SEEKABLE :: u32 where "STAT_SEEKABLE \<equiv> 2"
abbreviation STAT_BYTES :: u32 where "STAT_BYTES \<equiv> 64"
abbreviation FND_E_NO_SPACE :: int where "FND_E_NO_SPACE \<equiv> - 69"
abbreviation IPC_MAX_DATA :: u32 where "IPC_MAX_DATA \<equiv> 4096"
abbreviation BMC_VRAM_SIZE :: u32 where "BMC_VRAM_SIZE \<equiv> 0x80060084"

definition stat_bytes :: "u32 \<Rightarrow> u32 \<Rightarrow> u32 \<Rightarrow> u8 list" where
  "stat_bytes mode flags size_lo =
     bytes_of_words ([TYPE_DEVICE, mode, 0, flags, 0, size_lo] @ replicate 10 0)"

text \<open>A 64-bit signed offset in two words.\<close>

definition seek_offset :: "u32 \<Rightarrow> u32 \<Rightarrow> int" where
  "seek_offset hi lo = sint hi * 4294967296 + uint lo"

definition exact :: "nat \<Rightarrow> u8 list \<Rightarrow> u8 list" where
  "exact n bs = take n (bs @ replicate n 0)"

definition user_in :: "nat \<Rightarrow> u32 \<Rightarrow> u32 \<Rightarrow> kstate \<Rightarrow> u8 list" where
  "user_in p a len s = exact (unat len) (mm_copy_from_user p a len (mm s))"

definition user_out :: "nat \<Rightarrow> u32 \<Rightarrow> u8 list \<Rightarrow> kstate \<Rightarrow> kstate" where
  "user_out p a bs s = upd_mm (mm_copy_to_user p a bs) s"

fun read8s :: "machine \<Rightarrow> u32 \<Rightarrow> nat \<Rightarrow> kstate \<Rightarrow> u8 list \<times> kstate" where
  "read8s M a 0 s = ([], s)"
| "read8s M a (Suc n) s =
     (let (b, s) = io_read8 M a s; (bs, s) = read8s M (a + 1) n s in (b # bs, s))"

fun write8s :: "u32 \<Rightarrow> u8 list \<Rightarrow> kstate \<Rightarrow> kstate" where
  "write8s a [] s = s"
| "write8s a (b # bs) s = write8s (a + 1) bs (io_write (Wr8 a b) s)"

fun write32s :: "u32 \<Rightarrow> u8 list \<Rightarrow> kstate \<Rightarrow> kstate" where
  "write32s a (b0 # b1 # b2 # b3 # bs) s = write32s (a + 4) bs (io_write (Wr32 a (be32 b0 b1 b2 b3)) s)"
| "write32s a bs s = write8s a bs s"

section \<open>The bitmap display\<close>

abbreviation VRAM :: u32 where "VRAM \<equiv> 0x10000000"
abbreviation CLUT :: u32 where "CLUT \<equiv> 0x10012C00"
abbreviation FB_ENABLE :: u32 where "FB_ENABLE \<equiv> 0x80000000"
abbreviation FB_DISPLAY :: u32 where "FB_DISPLAY \<equiv> 0x80000001"
abbreviation FB_FORMAT :: u32 where "FB_FORMAT \<equiv> 0x80000004"
abbreviation FB_OVERLAY :: u32 where "FB_OVERLAY \<equiv> 0x8000F00B"
abbreviation FB_GET_INFO :: u32 where "FB_GET_INFO \<equiv> 0x1100"
abbreviation FB_SET_FORMAT :: u32 where "FB_SET_FORMAT \<equiv> 0x1101"
abbreviation FB_CLUT_READ :: u32 where "FB_CLUT_READ \<equiv> 0x1102"
abbreviation FB_CLUT_WRITE :: u32 where "FB_CLUT_WRITE \<equiv> 0x1103"
abbreviation FB_RGB888 :: u32 where "FB_RGB888 \<equiv> 2"

definition fb_base :: "u32 \<Rightarrow> u32" where
  "fb_base fmt = (if fmt = 0 then 0 else if fmt = 1 then 0x100000 else 0x200000)"

definition size_bytes :: "fb_state \<Rightarrow> u32" where
  "size_bytes f = 320 * 240 * (fb_format f + 1)"

definition write_vram :: "bool \<Rightarrow> u32 \<Rightarrow> u8 list \<Rightarrow> kstate \<Rightarrow> kstate" where
  "write_vram data_aligned a bs s = (if a AND 3 = 0 \<and> data_aligned then write32s a bs s else write8s a bs s)"

definition upd_fb :: "(fb_state \<Rightarrow> fb_state) \<Rightarrow> kstate \<Rightarrow> kstate" where
  "upd_fb f s = s\<lparr>fb := f (fb s)\<rparr>"

definition fb_open :: "machine \<Rightarrow> u32 \<Rightarrow> kstate \<Rightarrow> int \<times> kstate" where
  "fb_open M flags s =
     (if flags = 0 \<or> flags AND NOT (OPEN_READ OR OPEN_WRITE) \<noteq> 0 then (FND_E_BAD_ARG, s)
      else if fb_opened (fb s) then (FND_E_BUSY, s)
      else
        let (vram, s) = io_read M BMC_VRAM_SIZE s in
        if vram < 0x12F00 then (FND_E_NO_MEDIA, s)
        else
          let (clut, s) = read8s M CLUT 768 s; (txt, s) = read8s M VRAM 0x3000 s;
              (en, s) = io_read8 M FB_ENABLE s; (di, s) = io_read8 M FB_DISPLAY s;
              (fo, s) = io_read8 M FB_FORMAT s; (ov, s) = io_read8 M FB_OVERLAY s;
              s = s\<lparr>fb := \<lparr>fb_opened = True, fb_flags = flags, fb_position = 0, fb_format = 0,
                     saved_enable = en, saved_display = di, saved_format = fo, saved_overlay = ov,
                     saved_clut = clut, saved_text = txt\<rparr>\<rparr>
          in (FND_OK, if flags AND OPEN_WRITE \<noteq> 0
                then fold io_write [Wr8 FB_FORMAT 0, Wr8 FB_OVERLAY 0, Wr8 FB_DISPLAY 0, Wr8 FB_ENABLE 1] s
                else s))"

definition fb_close :: "machine \<Rightarrow> kstate \<Rightarrow> kstate" where
  "fb_close M s =
     (let f = fb s;
          s = (if fb_flags f AND OPEN_WRITE \<noteq> 0 then
                 let s = write_vram (saved_text_aligned M) VRAM (saved_text f) s;
                     s = write_vram (saved_clut_aligned M) CLUT (saved_clut f) s
                 in fold io_write [Wr8 FB_FORMAT (saved_format f), Wr8 FB_OVERLAY (saved_overlay f),
                      Wr8 FB_DISPLAY (saved_display f), Wr8 FB_ENABLE (saved_enable f)] s
               else s)
      in upd_fb (\<lambda>f. f\<lparr>fb_opened := False\<rparr>) s)"

definition fb_seek :: "msg \<Rightarrow> msg \<Rightarrow> kstate \<Rightarrow> int \<times> msg \<times> kstate" where
  "fb_seek m r s =
     (let f = fb s; offset = seek_offset (m_a1 m) (m_a2 m); size = uint (size_bytes f) in
      if SEEK_END < m_a0 m then (FND_E_BAD_ARG, r, s)
      else
        let base = (if m_a0 m = SEEK_CUR then uint (fb_position f) else if m_a0 m = SEEK_END then size else 0) in
        if offset < - base \<or> size - base < offset then (FND_E_BAD_ARG, r, s)
        else let pos = word_of_int (base + offset) in
          (FND_OK, r\<lparr>m_a1 := pos\<rparr>, upd_fb (\<lambda>f. f\<lparr>fb_position := pos\<rparr>) s))"

definition fb_transfer :: "machine \<Rightarrow> nat \<Rightarrow> msg \<Rightarrow> msg \<Rightarrow> u32 \<Rightarrow> kstate \<Rightarrow> int \<times> msg \<times> kstate" where
  "fb_transfer M p m r cap s =
     (let f = fb s; need = (if m_op m = ST_READ then OPEN_READ else OPEN_WRITE) in
      if fb_flags f AND need = 0 then (FND_E_ACCESS, r, s)
      else
        let address = VRAM + fb_base (fb_format f) + fb_position f; room = size_bytes f - fb_position f in
        if m_op m = ST_WRITE then
          if room < m_len m then (FND_E_NO_SPACE, r, s)
          else
            let data = user_in p (m_buf m) (m_len m) s;
                s = write_vram True address data s
            in (FND_OK, r\<lparr>m_a0 := m_len m\<rparr>, upd_fb (\<lambda>f. f\<lparr>fb_position := fb_position f + m_len m\<rparr>) s)
        else
          let n = min (min (min (m_a0 m) cap) IPC_MAX_DATA) room;
              (data, s) = read8s M address (unat n) s;
              s = user_out p (m_buf r) data s
          in (FND_OK, r\<lparr>m_len := n\<rparr>, upd_fb (\<lambda>f. f\<lparr>fb_position := fb_position f + n\<rparr>) s))"

definition fb_clut :: "machine \<Rightarrow> nat \<Rightarrow> msg \<Rightarrow> msg \<Rightarrow> u32 \<Rightarrow> kstate \<Rightarrow> int \<times> msg \<times> kstate" where
  "fb_clut M p m r cap s =
     (let f = fb s; need = (if m_op m = FB_CLUT_READ then OPEN_READ else OPEN_WRITE) in
      if fb_flags f AND need = 0 then (FND_E_ACCESS, r, s)
      else if 256 < m_a0 m \<or> 256 - m_a0 m < m_a1 m then (FND_E_BAD_ARG, r, s)
      else
        let n = m_a1 m * 3; address = CLUT + m_a0 m * 3 in
        if m_op m = FB_CLUT_WRITE then
          if m_len m \<noteq> n then (FND_E_BAD_ARG, r, s)
          else let data = user_in p (m_buf m) n s in (FND_OK, r\<lparr>m_a0 := n\<rparr>, write_vram True address data s)
        else if cap < n then (FND_E_LIMIT, r, s)
        else let (data, s) = read8s M address (unat n) s in (FND_OK, r\<lparr>m_len := n\<rparr>, user_out p (m_buf r) data s))"

text \<open>The INDEX8-only display of the Tang build adds one test to \<open>FB_SET_FORMAT\<close>, left out here.\<close>

definition fb_call :: "machine \<Rightarrow> nat \<Rightarrow> msg \<Rightarrow> msg \<Rightarrow> u32 \<Rightarrow> kstate \<Rightarrow> int \<times> msg \<times> kstate" where
  "fb_call M p m r cap s =
     (let f = fb s; op = m_op m in
      if op = FB_GET_INFO then
        if cap < 24 then (FND_E_LIMIT, r, s)
        else (FND_OK, r\<lparr>m_len := 24\<rparr>, user_out p (m_buf r)
               (bytes_of_words [320, 240, 320 * (fb_format f + 1), size_bytes f, fb_format f, 256]) s)
      else if op = FB_SET_FORMAT then
        if fb_flags f AND OPEN_WRITE = 0 then (FND_E_ACCESS, r, s)
        else if FB_RGB888 < m_a0 m then (FND_E_BAD_ARG, r, s)
        else let (vram, s) = io_read M BMC_VRAM_SIZE s in
          if vram < fb_base (m_a0 m) + 320 * 240 * (m_a0 m + 1) then (FND_E_NO_MEDIA, r, s)
          else (FND_OK, r, io_write (Wr8 FB_FORMAT (ucast (m_a0 m)))
                 (upd_fb (\<lambda>f. f\<lparr>fb_format := m_a0 m, fb_position := 0\<rparr>) s))
      else if op = ST_SEEK then fb_seek m r s
      else if op = ST_STAT then
        if cap < STAT_BYTES then (FND_E_LIMIT, r, s)
        else (FND_OK, r\<lparr>m_len := STAT_BYTES\<rparr>, user_out p (m_buf r)
               (stat_bytes 0x36 (STAT_SEEKABLE OR (if fb_flags f AND OPEN_WRITE = 0 then STAT_READ_ONLY else 0))
                 (size_bytes f)) s)
      else if op = ST_SYNC then (FND_OK, r, s)
      else if op = ST_TRUNCATE then
        (if fb_flags f AND OPEN_WRITE \<noteq> 0 then FND_E_UNSUPPORTED else FND_E_ACCESS, r, s)
      else if op = ST_READ \<or> op = ST_WRITE then fb_transfer M p m r cap s
      else if op = FB_CLUT_READ \<or> op = FB_CLUT_WRITE then fb_clut M p m r cap s
      else (FND_E_UNSUPPORTED, r, s))"

section \<open>The sound generators\<close>

abbreviation SGU_PCM :: u32 where "SGU_PCM \<equiv> 0x2000"
abbreviation SGU_SIZE :: u32 where "SGU_SIZE \<equiv> 0x102000"
abbreviation SGU_DAC_CONFIG :: u32 where "SGU_DAC_CONFIG \<equiv> 0x1300"
abbreviation SGU_DAC_SUBMIT :: u32 where "SGU_DAC_SUBMIT \<equiv> 0x1301"
abbreviation SGU_DAC_START :: u32 where "SGU_DAC_START \<equiv> 0x1302"
abbreviation SGU_WRITE_RUNS :: u32 where "SGU_WRITE_RUNS \<equiv> 0x1303"

definition sgu_address :: "u32 \<Rightarrow> u32" where
  "sgu_address off = (if off < SGU_PCM then 0x80020000 + off else 0x18000000 + off - SGU_PCM)"

definition upd_sgu :: "(sgu_state \<Rightarrow> sgu_state) \<Rightarrow> kstate \<Rightarrow> kstate" where
  "upd_sgu f s = s\<lparr>sgu := f (sgu s)\<rparr>"

definition silence :: "kstate \<Rightarrow> kstate" where
  "silence s = fold io_write (concat (map (\<lambda>core. concat (map (\<lambda>ch.
     let base = 0x80020800 + of_nat core * 0x1000 + of_nat ch * 32 in
     [Wr8 (base + 3) 0, Wr8 (base + 0x19) 0]) [0..<8])) [0..<2])) s"

definition sgu_open :: "u32 \<Rightarrow> kstate \<Rightarrow> int \<times> kstate" where
  "sgu_open flags s =
     (if flags = 0 \<or> flags AND NOT (OPEN_READ OR OPEN_WRITE) \<noteq> 0 then (FND_E_BAD_ARG, s)
      else if sgu_opened (sgu s) then (FND_E_BUSY, s)
      else
        let s = s\<lparr>sgu := \<lparr>sgu_opened = True, sgu_rights = flags, sgu_position = 0, dac_channels = 0\<rparr>\<rparr> in
        (FND_OK, if flags AND OPEN_WRITE \<noteq> 0 then silence s else s))"

definition sgu_close :: "kstate \<Rightarrow> kstate" where
  "sgu_close s =
     upd_sgu (\<lambda>g. g\<lparr>sgu_opened := False\<rparr>)
       (if sgu_rights (sgu s) AND OPEN_WRITE \<noteq> 0 then silence s else s)"

definition dac_base :: "nat \<Rightarrow> u32" where
  "dac_base ch = 0x80020800 + of_nat ch * 32"

fun dac_setup :: "machine \<Rightarrow> u32 \<Rightarrow> nat list \<Rightarrow> kstate \<Rightarrow> bool \<times> kstate" where
  "dac_setup M nch [] s = (True, s)"
| "dac_setup M nch (ch # chs) s =
     (let base = dac_base ch;
          s = fold io_write [Wr8 base 0, Wr8 (base + 1) 0, Wr8 (base + 2) 5] s;
          (wave, s) = io_read8 M (base + 2) s
      in if wave \<noteq> 5 then (False, s)
         else dac_setup M nch chs (fold io_write
           [Wr8 (base + 3) 255, Wr8 (base + 4) (if nch = 1 then 0xFF else if ch = 0 then 0xF0 else 0x0F),
            Wr8 (base + 5) 0, Wr8 (base + 10) 0] s))"

text \<open>The fill count of a DAC FIFO, read again until the high byte is stable.\<close>

partial_function (option) fifo_count :: "machine \<Rightarrow> u32 \<Rightarrow> kstate \<Rightarrow> (u32 \<times> kstate) option" where
  "fifo_count M base s =
     (case io_read8 M (base + 14) s of (hi, s) \<Rightarrow>
      case io_read8 M (base + 15) s of (lo, s) \<Rightarrow>
      case io_read8 M (base + 14) s of (again, s) \<Rightarrow>
        if hi \<noteq> again then fifo_count M base s else Some (push_bit 8 (ucast hi) OR ucast lo, s))"

fun dac_used :: "machine \<Rightarrow> nat list \<Rightarrow> u32 \<Rightarrow> kstate \<Rightarrow> (u32 \<times> kstate) option" where
  "dac_used M [] used s = Some (used, s)"
| "dac_used M (ch # chs) used s =
     (case fifo_count M (dac_base ch) s of None \<Rightarrow> None
      | Some (n, s) \<Rightarrow> dac_used M chs (if used < n then n else used) s)"

definition dac_frames :: "nat \<Rightarrow> u8 list \<Rightarrow> nat \<Rightarrow> kstate \<Rightarrow> kstate" where
  "dac_frames nch data frames s =
     fold io_write (concat (map (\<lambda>i. concat (map (\<lambda>ch.
       let base = dac_base ch; off = (i * nch + ch) * 2 in
       [Wr8 (base + 12) (byte_or_0 data off), Wr8 (base + 13) (byte_or_0 data (off + 1))]) [0..<nch]))
       [0..<frames])) s"

definition dac_submit :: "machine \<Rightarrow> nat \<Rightarrow> msg \<Rightarrow> msg \<Rightarrow> kstate \<Rightarrow> (int \<times> msg \<times> kstate) option" where
  "dac_submit M p m r s =
     (let nch = dac_channels (sgu s); len = unat (m_len m) in
      if nch = 0 \<or> IPC_MAX_DATA < m_len m \<or> len mod (nch * 2) \<noteq> 0 then Some (FND_E_BAD_ARG, r, s)
      else case dac_used M [0..<nch] 0 s of None \<Rightarrow> None
        | Some (used, s) \<Rightarrow>
            if 2048 < used then Some (FND_E_IO, r, s)
            else
              let frames = min (len div (nch * 2)) (2048 - unat used); bytes = frames * nch * 2;
                  data = user_in p (m_buf m) (of_nat bytes) s;
                  s = dac_frames nch data frames s
              in Some (if len \<noteq> 0 \<and> bytes = 0 then FND_E_WOULD_BLOCK else FND_OK,
                       r\<lparr>m_a0 := of_nat bytes, m_a1 := used + of_nat frames\<rparr>, s))"

text \<open>The runs of \<open>SGU_WRITE_RUNS\<close>: a 4-byte offset, a 2-byte length and the data, all checked first.\<close>

definition run_off :: "u8 list \<Rightarrow> nat \<Rightarrow> u32" where
  "run_off data at = be32 (byte_or_0 data at) (byte_or_0 data (at + 1)) (byte_or_0 data (at + 2)) (byte_or_0 data (at + 3))"

definition run_len :: "u8 list \<Rightarrow> nat \<Rightarrow> nat" where
  "run_len data at = unat (byte_or_0 data (at + 4)) * 256 + unat (byte_or_0 data (at + 5))"

function check_runs :: "u8 list \<Rightarrow> nat \<Rightarrow> nat \<Rightarrow> int" where
  "check_runs data len at =
     (if at < len then
        let n = run_len data at; off = run_off data at in
        if len - at < 7 then FND_E_BAD_ARG
        else if n = 0 \<or> len - at - 6 < n then FND_E_BAD_ARG
        else if SGU_SIZE < off \<or> unat (SGU_SIZE - off) < n then FND_E_NO_SPACE
        else check_runs data len (at + 6 + n)
      else FND_OK)"
  by pat_completeness auto
termination by (relation "measure (\<lambda>(_, len, at). len - at)") auto

declare check_runs.simps [simp del]

function write_runs :: "u8 list \<Rightarrow> nat \<Rightarrow> nat \<Rightarrow> kstate \<Rightarrow> kstate" where
  "write_runs data len at s =
     (if at < len then
        let n = run_len data at; off = run_off data at in
        write_runs data len (at + 6 + n)
          (fold io_write (map (\<lambda>i. Wr8 (sgu_address (off + of_nat i)) (byte_or_0 data (at + 6 + i))) [0..<n]) s)
      else s)"
  by pat_completeness auto
termination by (relation "measure (\<lambda>(_, len, at, _). len - at)") auto

declare write_runs.simps [simp del]

text \<open>The position is added in 64-bit signed arithmetic, which wraps around at its end.\<close>

definition sgu_seek :: "msg \<Rightarrow> msg \<Rightarrow> kstate \<Rightarrow> int \<times> msg \<times> kstate" where
  "sgu_seek m r s =
     (if SEEK_END < m_a0 m then (FND_E_BAD_ARG, r, s)
      else
        let base = (if m_a0 m = SEEK_CUR then uint (sgu_position (sgu s)) else if m_a0 m = SEEK_END then uint SGU_SIZE else 0);
            next_pos = signed_take_bit 63 (seek_offset (m_a1 m) (m_a2 m) + base)
        in if next_pos < 0 \<or> uint SGU_SIZE < next_pos then (FND_E_BAD_ARG, r, s)
           else (FND_OK, r\<lparr>m_a1 := word_of_int next_pos\<rparr>,
                 upd_sgu (\<lambda>g. g\<lparr>sgu_position := word_of_int next_pos\<rparr>) s))"

text \<open>Reading a register byte by byte, without the read that resets a phase.\<close>

fun sgu_read :: "machine \<Rightarrow> u32 \<Rightarrow> nat \<Rightarrow> kstate \<Rightarrow> u8 list \<times> kstate" where
  "sgu_read M off 0 s = ([], s)"
| "sgu_read M off (Suc n) s =
     (let l = off AND 0xFFF;
          (b, s) = (if off < SGU_PCM \<and> 0x800 \<le> l \<and> l < 0x900 \<and> l AND 31 = 10 then (0, s)
                    else io_read8 M (sgu_address off) s);
          (bs, s) = sgu_read M (off + 1) n s
      in (b # bs, s))"

definition sgu_transfer :: "machine \<Rightarrow> nat \<Rightarrow> msg \<Rightarrow> msg \<Rightarrow> u32 \<Rightarrow> kstate \<Rightarrow> int \<times> msg \<times> kstate" where
  "sgu_transfer M p m r cap s =
     (let wr = (m_op m = ST_WRITE); pos = sgu_position (sgu s); room = SGU_SIZE - pos in
      if sgu_rights (sgu s) AND (if wr then OPEN_WRITE else OPEN_READ) = 0 then (FND_E_ACCESS, r, s)
      else
        let n = min (if wr then m_len m else min (m_a0 m) cap) IPC_MAX_DATA in
        if wr \<and> room < n then (FND_E_NO_SPACE, r, s)
        else
          let n = min n room in
          if wr then
            let data = user_in p (m_buf m) n s;
                s = fold io_write (map (\<lambda>i. Wr8 (sgu_address (pos + of_nat i)) (byte_or_0 data i)) [0..<unat n]) s
            in (FND_OK, r\<lparr>m_a0 := n\<rparr>, upd_sgu (\<lambda>g. g\<lparr>sgu_position := pos + n\<rparr>) s)
          else
            let (data, s) = sgu_read M pos (unat n) s;
                s = upd_sgu (\<lambda>g. g\<lparr>sgu_position := pos + n\<rparr>) s
            in (FND_OK, r\<lparr>m_len := n\<rparr>, user_out p (m_buf r) data s))"

definition sgu_call :: "machine \<Rightarrow> nat \<Rightarrow> msg \<Rightarrow> msg \<Rightarrow> u32 \<Rightarrow> kstate \<Rightarrow> (int \<times> msg \<times> kstate) option" where
  "sgu_call M p m r cap s =
     (let g = sgu s; op = m_op m; may_write = (sgu_rights g AND OPEN_WRITE \<noteq> 0) in
      if op = SGU_DAC_CONFIG then Some
        (if \<not> may_write then (FND_E_ACCESS, r, s)
         else if m_a0 m \<noteq> 1 \<and> m_a0 m \<noteq> 2 then (FND_E_BAD_ARG, r, s)
         else
           let s = upd_sgu (\<lambda>g. g\<lparr>dac_channels := 0\<rparr>) (silence s);
               (ok, s) = dac_setup M (m_a0 m) [0..<unat (m_a0 m)] s
           in if \<not> ok then (FND_E_UNSUPPORTED, r, s)
              else (FND_OK, r, upd_sgu (\<lambda>g. g\<lparr>dac_channels := unat (m_a0 m)\<rparr>) s))
      else if op = SGU_DAC_START then Some
        (if \<not> may_write then (FND_E_ACCESS, r, s)
         else if dac_channels g = 0 then (FND_E_BAD_ARG, r, s)
         else (FND_OK, r, fold io_write (map (\<lambda>ch. Wr8 (0x80020819 + of_nat ch * 32) 1) [0..<dac_channels g]) s))
      else if op = SGU_DAC_SUBMIT then
        (if \<not> may_write then Some (FND_E_ACCESS, r, s) else dac_submit M p m r s)
      else if op = SGU_WRITE_RUNS then Some
        (if \<not> may_write then (FND_E_ACCESS, r, s)
         else if m_len m = 0 \<or> IPC_MAX_DATA < m_len m then (FND_E_BAD_ARG, r, s)
         else
           let data = user_in p (m_buf m) (m_len m) s; status = check_runs data (unat (m_len m)) 0 in
           if status \<noteq> FND_OK then (status, r, s)
           else (FND_OK, r\<lparr>m_a0 := m_len m\<rparr>, write_runs data (unat (m_len m)) 0 s))
      else if op = ST_SEEK then Some (sgu_seek m r s)
      else if op = ST_STAT then Some
        (if cap < STAT_BYTES then (FND_E_LIMIT, r, s)
         else (FND_OK, r\<lparr>m_len := STAT_BYTES\<rparr>, user_out p (m_buf r) (stat_bytes 0x36 0 SGU_SIZE) s))
      else if op = ST_SYNC then Some (FND_OK, r, s)
      else if op = ST_READ \<or> op = ST_WRITE then Some (sgu_transfer M p m r cap s)
      else Some (FND_E_UNSUPPORTED, r, s))"

section \<open>The sprite engine\<close>

abbreviation SGC_REG :: "u32 \<Rightarrow> u32" where "SGC_REG off \<equiv> 0x80010000 + off"
abbreviation SGC_CONTROL :: u32 where "SGC_CONTROL \<equiv> 0x80010004"
abbreviation SGC_ID :: u32 where "SGC_ID \<equiv> 0x53474331"
abbreviation SGC_GET_STATUS :: u32 where "SGC_GET_STATUS \<equiv> 0x1200"
abbreviation SGC_SET_OUTPUT :: u32 where "SGC_SET_OUTPUT \<equiv> 0x1201"
abbreviation SGC_RESET :: u32 where "SGC_RESET \<equiv> 0x1202"
abbreviation SGC_FIFO_CLEAR :: u32 where "SGC_FIFO_CLEAR \<equiv> 0x1203"

definition reset_enabled :: "kstate \<Rightarrow> kstate" where
  "reset_enabled s = fold io_write [Wr32 SGC_CONTROL 2, Wr32 SGC_CONTROL 1] s"

definition sgc_open :: "machine \<Rightarrow> u32 \<Rightarrow> kstate \<Rightarrow> int \<times> kstate" where
  "sgc_open M flags s =
     (if flags = 0 \<or> flags AND NOT (OPEN_READ OR OPEN_WRITE) \<noteq> 0 then (FND_E_BAD_ARG, s)
      else if sgc_opened (sgc s) then (FND_E_BUSY, s)
      else
        let (i, s) = io_read M (SGC_REG 0) s in
        if i \<noteq> SGC_ID then (FND_E_NO_MEDIA, s)
        else
          let s = s\<lparr>sgc := (sgc s)\<lparr>sgc_opened := True, sgc_rights := flags\<rparr>\<rparr> in
          if flags AND OPEN_WRITE = 0 then (FND_OK, s)
          else
            let (c, s) = io_read M SGC_CONTROL s; (sat, s) = io_read M (SGC_REG 0x10) s;
                (n, s) = io_read M (SGC_REG 0x14) s; (gp, s) = io_read M (SGC_REG 0x18) s
            in (FND_OK, reset_enabled (s\<lparr>sgc := (sgc s)\<lparr>saved_control := c, saved_sat := sat, saved_count := n,
                 saved_gp := gp\<rparr>\<rparr>)))"

definition sgc_close :: "kstate \<Rightarrow> kstate" where
  "sgc_close s =
     (let g = sgc s;
          s = (if sgc_rights g AND OPEN_WRITE \<noteq> 0
               then fold io_write [Wr32 SGC_CONTROL 2, Wr32 (SGC_REG 0x10) (saved_sat g),
                      Wr32 (SGC_REG 0x14) (saved_count g), Wr32 (SGC_REG 0x18) (saved_gp g),
                      Wr32 SGC_CONTROL (saved_control g AND 1)] s
               else s)
      in s\<lparr>sgc := (sgc s)\<lparr>sgc_opened := False\<rparr>\<rparr>)"

definition sgc_write :: "machine \<Rightarrow> nat \<Rightarrow> msg \<Rightarrow> msg \<Rightarrow> kstate \<Rightarrow> int \<times> msg \<times> kstate" where
  "sgc_write M p m r s =
     (if m_len m AND 3 \<noteq> 0 then (FND_E_BAD_ARG, r, s)
      else
        let n = m_len m div 4 in
        if n = 0 then (FND_OK, r\<lparr>m_a0 := 0\<rparr>, s)
        else
          let (st, s) = io_read M (SGC_REG 0x24) s; room = st AND 0xFFFF in
          if room = 0 then (FND_E_WOULD_BLOCK, r, s)
          else
            let n = min n room; data = user_in p (m_buf m) (n * 4) s in
            (FND_OK, r\<lparr>m_a0 := n * 4\<rparr>,
             fold io_write (map (\<lambda>i. Wr32 (SGC_REG 0x20) (word_of data i)) [0..<unat n]) s))"

definition sgc_call :: "machine \<Rightarrow> nat \<Rightarrow> msg \<Rightarrow> msg \<Rightarrow> u32 \<Rightarrow> kstate \<Rightarrow> int \<times> msg \<times> kstate" where
  "sgc_call M p m r cap s =
     (let op = m_op m; may_write = (sgc_rights (sgc s) AND OPEN_WRITE \<noteq> 0) in
      if op = SGC_GET_STATUS then
        if m_a0 m \<noteq> 0 \<and> \<not> may_write then (FND_E_ACCESS, r, s)
        else if m_a0 m AND NOT 0x1E \<noteq> 0 then (FND_E_BAD_ARG, r, s)
        else if cap < 24 then (FND_E_LIMIT, r, s)
        else
          let (fifo, s) = io_read M (SGC_REG 0x24) s; (i, s) = io_read M (SGC_REG 0) s;
              (c, s) = io_read M SGC_CONTROL s; (st, s) = io_read M (SGC_REG 0x08) s;
              (gp, s) = io_read M (SGC_REG 0x18) s;
              s = (if m_a0 m \<noteq> 0 then io_write (Wr32 (SGC_REG 0x08) (m_a0 m)) s else s)
          in (FND_OK, r\<lparr>m_len := 24\<rparr>, user_out p (m_buf r)
               (bytes_of_words [i, c, st, drop_bit 16 fifo, fifo AND 0xFFFF, gp]) s)
      else if op = SGC_SET_OUTPUT then
        if \<not> may_write then (FND_E_ACCESS, r, s)
        else if 7 < m_a0 m then (FND_E_BAD_ARG, r, s)
        else (FND_OK, r, io_write (Wr32 (SGC_REG 0x18) (m_a0 m)) s)
      else if op = SGC_RESET then
        if \<not> may_write then (FND_E_ACCESS, r, s) else (FND_OK, r, reset_enabled s)
      else if op = SGC_FIFO_CLEAR then
        if \<not> may_write then (FND_E_ACCESS, r, s) else (FND_OK, r, io_write (Wr32 (SGC_REG 0x28) 1) s)
      else if op = ST_STAT then
        if cap < STAT_BYTES then (FND_E_LIMIT, r, s)
        else (FND_OK, r\<lparr>m_len := STAT_BYTES\<rparr>,
              user_out p (m_buf r) (stat_bytes 0x36 (if may_write then 0 else STAT_READ_ONLY) 0) s)
      else if op = ST_SYNC then (FND_OK, r, s)
      else if op = ST_WRITE then
        if \<not> may_write then (FND_E_ACCESS, r, s) else sgc_write M p m r s
      else (FND_E_UNSUPPORTED, r, s))"

section \<open>PeC byte streams\<close>

abbreviation KDEV_TRNG :: nat where "KDEV_TRNG \<equiv> 8"
abbreviation KDEV_PRNG :: nat where "KDEV_PRNG \<equiv> 10"
abbreviation KDEV_UART0 :: nat where "KDEV_UART0 \<equiv> 12"
abbreviation UART_DATA :: u32 where "UART_DATA \<equiv> 0x80040000"

definition pec_open :: "nat \<Rightarrow> u32 \<Rightarrow> int" where
  "pec_open kind flags =
     (if flags = 0 \<or> flags AND NOT (OPEN_READ OR OPEN_WRITE) \<noteq> 0 then FND_E_BAD_ARG
      else if kind \<noteq> KDEV_UART0 \<and> flags AND OPEN_WRITE \<noteq> 0 then FND_E_ACCESS else FND_OK)"

text \<open>The read loop: \<open>left\<close> bytes are still wanted; every round of a random stream consumes a word.\<close>

function pec_read :: "machine \<Rightarrow> nat \<Rightarrow> nat \<Rightarrow> kstate \<Rightarrow> u8 list \<times> kstate" where
  "pec_read M kind left s =
     (if left = 0 then ([], s)
      else if kind = KDEV_UART0 then
        let (st, s) = io_read8 M 0x80040001 s in
        if st AND 2 = 0 then ([], s)
        else let (b, s) = io_read8 M UART_DATA s; (bs, s) = pec_read M kind (left - 1) s in (b # bs, s)
      else
        let (st, s) = (if kind = KDEV_TRNG then io_read8 M 0x8004001C s else (1, s)) in
        if st AND 1 = 0 then ([], s)
        else
          let base = (if kind = KDEV_TRNG then 0x80040018 else 0x80040010);
              (w, s) = read8s M base 4 s;
              (bs, s) = pec_read M kind (left - 4) s
          in (take left w @ bs, s))"
  by pat_completeness auto
termination by (relation "measure (\<lambda>(_, _, left, _). left)") auto

declare pec_read.simps [simp del]

definition pec_call :: "machine \<Rightarrow> nat \<Rightarrow> nat \<Rightarrow> u32 \<Rightarrow> msg \<Rightarrow> msg \<Rightarrow> u32 \<Rightarrow> kstate \<Rightarrow> int \<times> msg \<times> kstate" where
  "pec_call M p kind rights m r cap s =
     (let op = m_op m in
      if op = ST_READ then
        if rights AND OPEN_READ = 0 then (FND_E_ACCESS, r, s)
        else
          let n = unat (min (min (m_a0 m) cap) IPC_MAX_DATA);
              (bytes, s) = pec_read M kind n s
          in if n \<noteq> 0 \<and> bytes = [] then (FND_E_WOULD_BLOCK, r, s)
             else (FND_OK, r\<lparr>m_len := of_nat (length bytes)\<rparr>, user_out p (m_buf r) bytes s)
      else if op = ST_WRITE then
        if rights AND OPEN_WRITE = 0 then (FND_E_ACCESS, r, s)
        else if kind \<noteq> KDEV_UART0 then (FND_E_ACCESS, r, s)
        else (FND_OK, r\<lparr>m_a0 := m_len m\<rparr>,
              fold io_write (map (Wr8 UART_DATA) (user_in p (m_buf m) (m_len m) s)) s)
      else if op = ST_STAT then
        if cap < STAT_BYTES then (FND_E_LIMIT, r, s)
        else (FND_OK, r\<lparr>m_len := STAT_BYTES\<rparr>, user_out p (m_buf r)
               (stat_bytes (if kind = KDEV_UART0 then 0x36 else 0x24)
                 (if kind = KDEV_UART0 then 0 else STAT_READ_ONLY) 0) s)
      else if op = ST_SYNC then (FND_OK, r, s)
      else (FND_E_UNSUPPORTED, r, s))"

end
