(* ===== verification/Handles.thy ===== *)
theory Handles
  imports Drivers
begin

text \<open>
  Kernel objects, handles and IRQ bindings (first half of \<open>foundation/kernel/ipc.c\<close>, with
  \<open>maybe_free\<close> and \<open>proc_release\<close> of \<open>proc.c\<close>). A reference count is a \<open>nat\<close>; it is never taken
  below 0 because the handle that is closed is counted (\<open>refs_ok\<close>).
\<close>

section \<open>User memory from the kernel\<close>

definition range_ok :: "machine \<Rightarrow> nat \<Rightarrow> u32 \<Rightarrow> u32 \<Rightarrow> u32 \<Rightarrow> kstate \<Rightarrow> bool \<times> kstate" where
  "range_ok M p a len perm s =
     (let (ok, m) = proc_user_range_ok (proc_addr M) p a len perm (mm s) in (ok, s\<lparr>mm := m\<rparr>))"

definition user_struct :: "machine \<Rightarrow> nat \<Rightarrow> u32 \<Rightarrow> u32 \<Rightarrow> u32 \<Rightarrow> kstate \<Rightarrow> int \<times> kstate" where
  "user_struct M p a n perm s =
     (if a AND 3 \<noteq> 0 then (FND_E_BAD_ARG, s)
      else let (ok, s) = range_ok M p a n perm s in (if ok then FND_OK else FND_E_ACCESS, s))"

definition user_words :: "nat \<Rightarrow> u32 \<Rightarrow> nat \<Rightarrow> kstate \<Rightarrow> u32 list" where
  "user_words p a n s = (let bs = mm_copy_from_user p a (of_nat (4 * n)) (mm s) in map (word_of bs) [0..<n])"

definition msg_words :: "msg \<Rightarrow> u32 list" where
  "msg_words m = [m_op m, m_flags m, m_a0 m, m_a1 m, m_a2 m, m_a3 m, m_buf m, m_len m]"

definition msg_of_words :: "u32 list \<Rightarrow> msg" where
  "msg_of_words w = \<lparr>m_op = w ! 0, m_flags = w ! 1, m_a0 = w ! 2, m_a1 = w ! 3, m_a2 = w ! 4, m_a3 = w ! 5,
     m_buf = w ! 6, m_len = w ! 7\<rparr>"

section \<open>IRQ bindings\<close>

definition irq_set_pending :: "nat \<Rightarrow> bool \<Rightarrow> kstate \<Rightarrow> kstate" where
  "irq_set_pending n pending s =
     (let s = upd_irq n (\<lambda>i. i\<lparr>irq_pending := pending\<rparr>) s in
      s\<lparr>irq_pending_mask := (if pending then irq_pending_mask s OR push_bit n 1
                              else irq_pending_mask s AND NOT (push_bit n 1))\<rparr>)"

definition irq_release :: "nat \<Rightarrow> kstate \<Rightarrow> kstate" where
  "irq_release n s =
     (let s = irqc_ack n (irqc_mask n s);
          s = irq_set_pending n False (upd_irq n (\<lambda>i. i\<lparr>irq_owner := None, irq_port := None\<rparr>) s)
      in upd_irq n (\<lambda>i. i\<lparr>irq_delivered := False\<rparr>) s)"

definition ipc_irq_proc_exited :: "nat \<Rightarrow> kstate \<Rightarrow> kstate" where
  "ipc_irq_proc_exited p s =
     fold (\<lambda>n s. if irq_owner (irqs s n) = Some p then irq_release n s else s) [0..<16] s"

section \<open>Receivers and notifications\<close>

definition is_blocked :: "kstate \<Rightarrow> reason \<Rightarrow> nat \<Rightarrow> bool" where
  "is_blocked s why t \<longleftrightarrow> tstate (threads s t) = T_BLOCKED \<and> reason (threads s t) = why"

definition find_receiver :: "kstate \<Rightarrow> nat \<Rightarrow> nat option" where
  "find_receiver s q =
     find (\<lambda>t. is_blocked s B_RECV t \<and> tport (threads s t) = Some q) [0..<MAX_THREADS]"

text \<open>\<open>fnd_recv\<close>: the message in words 0 to 7, data 8, cap 9, token 10, badge 11, reply_cap 12, total 13.\<close>

definition write_recv :: "nat \<Rightarrow> u32 \<Rightarrow> msg \<Rightarrow> u32 \<Rightarrow> u32 \<Rightarrow> u32 \<Rightarrow> u32 \<Rightarrow> kstate \<Rightarrow> kstate" where
  "write_recv p addr m token bdg reply_cap full_len s =
     (let w = user_words p (addr + 32) 2 s; data = w ! 0; cap = w ! 1 in
      user_out p addr (bytes_of_words
        (msg_words (m\<lparr>m_buf := data\<rparr>) @ [data, cap, token, bdg, reply_cap, full_len])) s)"

abbreviation NOTIFY_IRQ :: u32 where "NOTIFY_IRQ \<equiv> 0xFFFF0001"
abbreviation NOTIFY_CLIENT_GONE :: u32 where "NOTIFY_CLIENT_GONE \<equiv> 0xFFFF0002"

definition note_msg :: "u32 \<Rightarrow> u32 \<Rightarrow> msg" where
  "note_msg op a0 = \<lparr>m_op = op, m_flags = 0, m_a0 = a0, m_a1 = 0, m_a2 = 0, m_a3 = 0, m_buf = 0, m_len = 0\<rparr>"

definition deliver_irq :: "nat \<Rightarrow> nat \<Rightarrow> kstate \<Rightarrow> kstate" where
  "deliver_irq t n s =
     (let x = threads s t;
          s = write_recv (tproc x) (rcv x) (note_msg NOTIFY_IRQ (of_nat n)) 0 0 0 0 s;
          s = irq_set_pending n False s
      in upd_irq n (\<lambda>i. i\<lparr>irq_delivered := True\<rparr>) s)"

definition ipc_irq_notify :: "nat \<Rightarrow> kstate \<Rightarrow> bool \<times> kstate" where
  "ipc_irq_notify n s =
     (if 16 \<le> n \<or> irq_owner (irqs s n) = None then (False, s)
      else
        let s = irqc_mask n s in
        (True,
         if \<not> irq_pending (irqs s n) \<and> \<not> irq_delivered (irqs s n) then
           let s = irq_set_pending n True s in
           (case irq_port (irqs s n) of None \<Rightarrow> s
            | Some q \<Rightarrow> (case find_receiver s q of None \<Rightarrow> s
               | Some t \<Rightarrow> sched_wake t FND_OK (deliver_irq t n s)))
         else s))"

definition deliver_gone :: "nat \<Rightarrow> nat \<Rightarrow> kstate \<Rightarrow> kstate" where
  "deliver_gone t q s =
     (case gone_head (ports s q) of None \<Rightarrow> s
      | Some c \<Rightarrow>
          let s = upd_port q (\<lambda>y. y\<lparr>gone_head := gone_next (channels s c)\<rparr>) s;
              s = (if gone_head (ports s q) = None then upd_port q (\<lambda>y. y\<lparr>gone_tail := None\<rparr>) s else s);
              x = threads s t;
              s = write_recv (tproc x) (rcv x) (note_msg NOTIFY_CLIENT_GONE 0) 0 (cbadge (channels s c)) 0 0 s
          in upd_chan c (\<lambda>y. y\<lparr>cused := False\<rparr>) s)"

section \<open>Objects\<close>

definition obj_ref :: "handle \<Rightarrow> kstate \<Rightarrow> kstate" where
  "obj_ref h s =
     (case h of
        H_NONE \<Rightarrow> s
      | H_PORT q \<Rightarrow> upd_port q (\<lambda>y. y\<lparr>port_refs := port_refs y + 1\<rparr>) s
      | H_CHANNEL c \<Rightarrow> upd_chan c (\<lambda>y. y\<lparr>chan_refs := chan_refs y + 1\<rparr>) s
      | H_THREAD t \<Rightarrow> upd_thread t (\<lambda>y. y\<lparr>trefs := trefs y + 1\<rparr>) s
      | H_PROCESS p \<Rightarrow> upd_proc p (\<lambda>y. y\<lparr>prefs := prefs y + 1\<rparr>) s)"

definition waits_on_port :: "kstate \<Rightarrow> nat \<Rightarrow> nat \<Rightarrow> bool" where
  "waits_on_port s q t \<longleftrightarrow> tstate (threads s t) = T_BLOCKED \<and> tport (threads s t) = Some q \<and>
     reason (threads s t) \<in> {B_SEND, B_REPLY, B_RECV}"

definition port_destroy :: "nat \<Rightarrow> kstate \<Rightarrow> kstate" where
  "port_destroy q s =
     (let s = fold (\<lambda>n s. if irq_port (irqs s n) = Some q then irq_release n s else s) [0..<16] s;
          s = fold (\<lambda>t s. if waits_on_port s q t
                then sched_wake t (if reason (threads s t) = B_RECV then FND_E_BAD_HANDLE else FND_E_PEER_GONE) s
                else s) [0..<MAX_THREADS] s;
          s = s\<lparr>channels := (\<lambda>c. let y = channels s c in
                if c < MAX_CHANNELS \<and> cused y \<and> cport y = Some q
                then y\<lparr>cport := None, cused := (if chan_refs y = 0 then False else cused y)\<rparr> else y),
              services := (\<lambda>i. if i < MAX_SERVICES \<and> svc_port (services s i) = Some q
                then (services s i)\<lparr>svc_port := None\<rparr> else services s i)\<rparr>
      in upd_port q (\<lambda>y. y\<lparr>pused := False\<rparr>) s)"

definition chan_last_closed :: "machine \<Rightarrow> nat \<Rightarrow> kstate \<Rightarrow> kstate" where
  "chan_last_closed M c s =
     (let y = channels s c; k = kernel_kind y in
      if k \<noteq> 0 then
        let s = (if k = 2 then fb_close M s else s);
            s = (if k = 4 then sgu_close s else s);
            s = (if k = 6 then sgc_close s else s)
        in upd_chan c (\<lambda>y. y\<lparr>cused := False\<rparr>) s
      else case cport y of
        None \<Rightarrow> upd_chan c (\<lambda>y. y\<lparr>cused := False\<rparr>) s
      | Some q \<Rightarrow>
          let s = upd_chan c (\<lambda>y. y\<lparr>gone_next := None\<rparr>) s;
              s = (case gone_tail (ports s q) of
                     Some l \<Rightarrow> upd_chan l (\<lambda>y. y\<lparr>gone_next := Some c\<rparr>) s
                   | None \<Rightarrow> upd_port q (\<lambda>y. y\<lparr>gone_head := Some c\<rparr>) s);
              s = upd_port q (\<lambda>y. y\<lparr>gone_tail := Some c\<rparr>) s
          in (case find_receiver s q of None \<Rightarrow> s
              | Some t \<Rightarrow> sched_wake t FND_OK (deliver_gone t q s)))"

definition maybe_free :: "nat \<Rightarrow> kstate \<Rightarrow> kstate" where
  "maybe_free p s =
     (let y = procs s p in
      if pstate y = PROC_EXITED \<and> prefs y = 0 \<and> parent y \<noteq> 0
      then upd_proc p (\<lambda>y. y\<lparr>pstate := PROC_FREE\<rparr>) s else s)"

definition proc_release :: "nat \<Rightarrow> kstate \<Rightarrow> kstate" where
  "proc_release p s =
     maybe_free p (if prefs (procs s p) \<noteq> 0 then upd_proc p (\<lambda>y. y\<lparr>prefs := prefs y - 1\<rparr>) s else s)"

definition obj_unref :: "machine \<Rightarrow> handle \<Rightarrow> kstate \<Rightarrow> kstate" where
  "obj_unref M h s =
     (case h of
        H_NONE \<Rightarrow> s
      | H_PORT q \<Rightarrow>
          let s = upd_port q (\<lambda>y. y\<lparr>port_refs := port_refs y - 1\<rparr>) s in
          if port_refs (ports s q) = 0 then port_destroy q s else s
      | H_CHANNEL c \<Rightarrow>
          let s = upd_chan c (\<lambda>y. y\<lparr>chan_refs := chan_refs y - 1\<rparr>) s in
          if chan_refs (channels s c) = 0 then chan_last_closed M c s else s
      | H_THREAD t \<Rightarrow> upd_thread t (\<lambda>y. y\<lparr>trefs := trefs y - 1\<rparr>) s
      | H_PROCESS p \<Rightarrow> proc_release p s)"

section \<open>Handle tables\<close>

definition set_handle :: "nat \<Rightarrow> nat \<Rightarrow> handle \<Rightarrow> kstate \<Rightarrow> kstate" where
  "set_handle p i h s = upd_proc p (\<lambda>y. y\<lparr>handles := (handles y)(i := h)\<rparr>) s"

definition free_entry :: "kstate \<Rightarrow> nat \<Rightarrow> nat option" where
  "free_entry s p = find (\<lambda>i. handles (procs s p) i = H_NONE) [0..<MAX_HANDLES]"

definition handle_add :: "nat \<Rightarrow> handle \<Rightarrow> kstate \<Rightarrow> int \<times> kstate" where
  "handle_add p h s =
     (case free_entry s p of None \<Rightarrow> (FND_E_LIMIT, s)
      | Some i \<Rightarrow> (int i + 1, obj_ref h (set_handle p i h s)))"

definition handle_clone :: "nat \<Rightarrow> nat \<Rightarrow> kstate \<Rightarrow> kstate" where
  "handle_clone from to s =
     fold (\<lambda>i s. let h = handles (procs s from) i in obj_ref h (set_handle to i h s)) [0..<MAX_HANDLES] s"

definition handle_free_count :: "kstate \<Rightarrow> nat \<Rightarrow> nat" where
  "handle_free_count s p = length (filter (\<lambda>i. handles (procs s p) i = H_NONE) [0..<MAX_HANDLES])"

definition entry :: "kstate \<Rightarrow> nat \<Rightarrow> u32 \<Rightarrow> handle" where
  "entry s p h = (if h = 0 \<or> of_nat MAX_HANDLES < h then H_NONE else handles (procs s p) (unat h - 1))"

definition sys_handle_close :: "machine \<Rightarrow> nat \<Rightarrow> u32 \<Rightarrow> kstate \<Rightarrow> int \<times> kstate" where
  "sys_handle_close M p h s =
     (let e = entry s p h in
      if e = H_NONE then (FND_E_BAD_HANDLE, s)
      else (FND_OK, obj_unref M e (set_handle p (unat h - 1) H_NONE s)))"

definition handle_close_all :: "machine \<Rightarrow> nat \<Rightarrow> kstate \<Rightarrow> kstate" where
  "handle_close_all M p s = fold (\<lambda>i s. snd (sys_handle_close M p (of_nat (i + 1)) s)) [0..<MAX_HANDLES] s"

definition is_thread_handle :: "handle \<Rightarrow> bool" where
  "is_thread_handle h = (case h of H_THREAD _ \<Rightarrow> True | _ \<Rightarrow> False)"

definition handle_dup_into :: "nat \<Rightarrow> u32 \<Rightarrow> nat \<Rightarrow> kstate \<Rightarrow> int \<times> kstate" where
  "handle_dup_into from h to s =
     (let e = entry s from h in
      if e = H_NONE then (FND_E_BAD_HANDLE, s)
      else if is_thread_handle e \<and> from \<noteq> to then (FND_E_ACCESS, s)
      else handle_add to e s)"

definition sys_handle_dup :: "nat \<Rightarrow> u32 \<Rightarrow> kstate \<Rightarrow> int \<times> kstate" where
  "sys_handle_dup p h s = handle_dup_into p h p s"

definition handle_move :: "machine \<Rightarrow> nat \<Rightarrow> u32 \<Rightarrow> nat \<Rightarrow> kstate \<Rightarrow> int \<times> kstate" where
  "handle_move M from h to s =
     (let (moved, s) = handle_dup_into from h to s in
      if 0 < moved then (moved, snd (sys_handle_close M from h s)) else (moved, s))"

section \<open>Ports, channels and IRQ calls\<close>

abbreviation BINDABLE_IRQS :: u32 where "BINDABLE_IRQS \<equiv> 0x1FE9"

definition irq_access :: "kstate \<Rightarrow> nat \<Rightarrow> u32 \<Rightarrow> int" where
  "irq_access s p irq =
     (if caps (procs s p) AND CAP_IRQ = 0 then FND_E_ACCESS
      else if 16 \<le> irq then FND_E_BAD_ARG
      else if push_bit (unat irq) 1 AND BINDABLE_IRQS \<noteq> 0 then FND_OK else FND_E_ACCESS)"

definition sys_irq_bind :: "nat \<Rightarrow> u32 \<Rightarrow> u32 \<Rightarrow> kstate \<Rightarrow> int \<times> kstate" where
  "sys_irq_bind p irq h s =
     (let status = irq_access s p irq; n = unat irq in
      if status \<noteq> FND_OK then (status, s)
      else case entry s p h of
        H_PORT q \<Rightarrow>
          if irq_owner (irqs s n) \<noteq> None then (FND_E_BUSY, s)
          else
            let s = upd_irq n (\<lambda>i. i\<lparr>irq_owner := Some p, irq_port := Some q\<rparr>) s;
                s = upd_irq n (\<lambda>i. i\<lparr>irq_delivered := False\<rparr>) (irq_set_pending n False s)
            in (FND_OK, irqc_unmask n s)
      | _ \<Rightarrow> (FND_E_BAD_HANDLE, s))"

definition sys_irq_ack :: "nat \<Rightarrow> u32 \<Rightarrow> kstate \<Rightarrow> int \<times> kstate" where
  "sys_irq_ack p irq s =
     (let status = irq_access s p irq; n = unat irq in
      if status \<noteq> FND_OK then (status, s)
      else if irq_owner (irqs s n) = None then (FND_E_NOT_FOUND, s)
      else if irq_owner (irqs s n) \<noteq> Some p then (FND_E_ACCESS, s)
      else if \<not> irq_delivered (irqs s n) then (FND_E_BAD_ARG, s)
      else (FND_OK, irqc_unmask n (irqc_ack n (upd_irq n (\<lambda>i. i\<lparr>irq_delivered := False\<rparr>) s))))"

definition sys_port_create :: "nat \<Rightarrow> kstate \<Rightarrow> int \<times> kstate" where
  "sys_port_create p s =
     (case find (\<lambda>q. \<not> pused (ports s q)) [0..<MAX_PORTS] of None \<Rightarrow> (FND_E_LIMIT, s)
      | Some q \<Rightarrow>
          let s = upd_port q (\<lambda>_. \<lparr>pused = True, port_refs = 0, gone_head = None, gone_tail = None\<rparr>) s;
              (h, s) = handle_add p (H_PORT q) s
          in (h, if h < 0 then upd_port q (\<lambda>y. y\<lparr>pused := False\<rparr>) s else s))"

definition new_channel :: "nat \<Rightarrow> nat option \<Rightarrow> u32 \<Rightarrow> kstate \<Rightarrow> int \<times> kstate" where
  "new_channel p q bdg s =
     (case find (\<lambda>c. \<not> cused (channels s c)) [0..<MAX_CHANNELS] of None \<Rightarrow> (FND_E_LIMIT, s)
      | Some c \<Rightarrow>
          let s = upd_chan c (\<lambda>_. \<lparr>cused = True, chan_refs = 0, cport = q, cbadge = bdg, gone_next = None,
                kernel_kind = 0\<rparr>) s;
              (h, s) = handle_add p (H_CHANNEL c) s
          in (h, if h < 0 then upd_chan c (\<lambda>y. y\<lparr>cused := False\<rparr>) s else s))"

text \<open>The channel behind the handle that was just added.\<close>

definition on_new_channel :: "nat \<Rightarrow> int \<Rightarrow> (chan \<Rightarrow> chan) \<Rightarrow> kstate \<Rightarrow> kstate" where
  "on_new_channel p h f s =
     (case handles (procs s p) (nat h - 1) of H_CHANNEL c \<Rightarrow> upd_chan c f s | _ \<Rightarrow> s)"

definition kernel_channel :: "nat \<Rightarrow> nat \<Rightarrow> kstate \<Rightarrow> int \<times> kstate" where
  "kernel_channel p kind s =
     (let (h, s) = new_channel p None 0 s in
      (h, if 0 < h then on_new_channel p h (\<lambda>y. y\<lparr>kernel_kind := kind\<rparr>) s else s))"

definition sys_chan_create :: "nat \<Rightarrow> u32 \<Rightarrow> u32 \<Rightarrow> kstate \<Rightarrow> int \<times> kstate" where
  "sys_chan_create p h bdg s =
     (case entry s p h of
        H_PORT q \<Rightarrow> if bdg = 0 \<or> 0x7FFFFFFF < bdg then (FND_E_BAD_ARG, s) else new_channel p (Some q) bdg s
      | _ \<Rightarrow> (FND_E_BAD_HANDLE, s))"

end
