(* ===== verification/Ipc.thy ===== *)
theory Ipc
  imports Handles
begin

text \<open>
  Calls, receives, replies, services and waits (second half of \<open>foundation/kernel/ipc.c\<close>) and
  \<open>sched_tick\<close> of \<open>sched.c\<close>. A system call returns its result and the new state; the result of a
  blocked call comes later, in register 1 of the thread's frame (\<open>sched_wake\<close>).
\<close>

section \<open>Finding the next caller\<close>

text \<open>Bit \<open>i\<close> of \<open>send_blocked\<close>: thread \<open>i\<close> may be blocked in SEND. One round of the loop, with the best
  caller so far.\<close>

definition earlier :: "kstate \<Rightarrow> nat \<Rightarrow> nat \<Rightarrow> bool" where
  "earlier s t b \<longleftrightarrow> sint (seq (threads s t) - seq (threads s b)) < 0"

definition caller_step :: "u32 \<Rightarrow> nat \<Rightarrow> nat \<Rightarrow> nat option \<times> kstate \<Rightarrow> nat option \<times> kstate" where
  "caller_step bits q i = (\<lambda>(best, s).
     if \<not> bit bits i then (best, s)
     else if \<not> is_blocked s B_SEND i then
       (best, s\<lparr>send_blocked := send_blocked s AND NOT (push_bit i 1)\<rparr>)
     else if tport (threads s i) = Some q \<and> (case best of None \<Rightarrow> True | Some b \<Rightarrow> earlier s i b) then (Some i, s)
     else (best, s))"

definition next_caller :: "nat \<Rightarrow> kstate \<Rightarrow> nat option \<times> kstate" where
  "next_caller q s =
     (if send_blocked s = 0 then (None, s)
      else fold (caller_step (send_blocked s) q) [0..<32] (None, s))"

definition token_of :: "kstate \<Rightarrow> nat \<Rightarrow> u32" where
  "token_of s t = of_nat (t + 1) OR push_bit 8 (gen (threads s t))"

section \<open>Delivery\<close>

abbreviation XFER_HANDLE :: u32 where "XFER_HANDLE \<equiv> 1"

definition deliver_call :: "machine \<Rightarrow> nat \<Rightarrow> nat \<Rightarrow> kstate \<Rightarrow> int \<times> kstate" where
  "deliver_call M r c s =
     (let x = threads s c; y = threads s r; rp = tproc y; cp = tproc x; m = req x;
          w = user_words rp (rcv y) 16 s; data = w ! 8; cap = w ! 9;
          (moved, s) = (if m_flags m AND XFER_HANDLE \<noteq> 0 then handle_move M cp (m_a3 m) rp s else (0, s))
      in if moved < 0 then (moved, s)
         else
           let m = (if m_flags m AND XFER_HANDLE \<noteq> 0 then m\<lparr>m_a3 := word_of_int moved\<rparr> else m);
               n = (if m_len m < cap then m_len m else cap);
               s = upd_mm (mm_copy_user rp data cp (m_buf m) n) s;
               m = m\<lparr>m_len := n\<rparr>;
               s = write_recv rp (rcv y) m (token_of s c) (badge x) (rep_cap x) (m_len (req x)) s
           in (FND_OK, upd_thread c (\<lambda>x. x\<lparr>reason := B_REPLY, wait_proc := Some rp\<rparr>) s))"

definition senders :: "kstate \<Rightarrow> nat set" where
  "senders s = {t. t < 32 \<and> is_blocked s B_SEND t}"

lemma finite_senders [simp]: "finite (senders s)"
  by (simp add: senders_def)

lemma caller_step_frame:
  "threads (snd (caller_step bits q i bs)) = threads (snd bs)"
  by (cases bs) (simp add: caller_step_def)

lemma fold_caller_step_threads: "threads (snd (fold (caller_step bits q) xs bs)) = threads (snd bs)"
  by (induction xs arbitrary: bs) (simp_all add: caller_step_frame)

lemma next_caller_threads: "next_caller q s = (c, s') \<Longrightarrow> threads s' = threads s"
  using fold_caller_step_threads [of "send_blocked s" q "[0..<32]" "(None, s)"]
  by (auto simp: next_caller_def split: if_splits)

lemma is_blocked_cong: "threads s = threads s' \<Longrightarrow> is_blocked s = is_blocked s'"
  by (simp add: is_blocked_def fun_eq_iff)

lemma fold_caller_step_best:
  assumes "\<And>b. fst bs = Some b \<Longrightarrow> b < 32 \<and> is_blocked (snd bs) B_SEND b \<and> tport (threads (snd bs) b) = Some q"
    "set xs \<subseteq> {..<32}" "fst (fold (caller_step bits q) xs bs) = Some c"
  shows "c < 32 \<and> is_blocked (snd bs) B_SEND c \<and> tport (threads (snd bs) c) = Some q"
  using assms
proof (induction xs arbitrary: bs)
  case (Cons i xs)
  let ?bs = "caller_step bits q i bs"
  have t: "threads (snd ?bs) = threads (snd bs)" by (rule caller_step_frame)
  have "b < 32 \<and> is_blocked (snd ?bs) B_SEND b \<and> tport (threads (snd ?bs) b) = Some q" if "fst ?bs = Some b" for b
  proof -
    have "fst bs = Some b \<or> b = i \<and> is_blocked (snd bs) B_SEND i \<and> tport (threads (snd bs) i) = Some q"
      using that by (cases bs) (auto simp: caller_step_def split: if_splits)
    then show ?thesis
      using Cons.prems(1) [of b] Cons.prems(2) by (auto simp: t is_blocked_cong [OF t])
  qed
  then have "c < 32 \<and> is_blocked (snd ?bs) B_SEND c \<and> tport (threads (snd ?bs) c) = Some q"
    using Cons.IH [of ?bs] Cons.prems(2,3) by simp
  then show ?case by (simp add: t is_blocked_cong [OF t])
qed simp

lemma next_caller_blocked:
  assumes "next_caller q s = (Some c, s')"
  shows "c < 32 \<and> is_blocked s B_SEND c \<and> tport (threads s c) = Some q"
proof -
  have "send_blocked s \<noteq> 0" "fold (caller_step (send_blocked s) q) [0..<32] (None, s) = (Some c, s')"
    using assms by (auto simp: next_caller_def split: if_splits)
  then show ?thesis
    using fold_caller_step_best [of "(None, s)" q "[0..<32]" "send_blocked s" c] by (simp add: lessThan_atLeast0)
qed

lemma handle_move_failed: "handle_move M from h to s = (v, s') \<Longrightarrow> v < 0 \<Longrightarrow> s' = s"
  by (auto simp: handle_move_def handle_dup_into_def handle_add_def Let_def split: if_splits option.splits)

lemma deliver_call_failed:
  assumes "deliver_call M r c s = (status, s')" "status \<noteq> FND_OK"
  shows "s' = s"
  using assms handle_move_failed
  by (auto simp: deliver_call_def Let_def split: if_splits prod.splits)

lemma sched_wake_reason: "reason (threads (sched_wake t k s) u) = (if u = t then B_NONE else reason (threads s u))"
  by (auto simp: sched_wake_def urge_def enqueue_relink Let_def upd_thread_def)

lemma sched_wake_state: "tstate (threads (sched_wake t k s) u) = (if u = t then T_READY else tstate (threads s u))"
  by (auto simp: sched_wake_def urge_def enqueue_relink Let_def upd_thread_def)

lemma senders_wake: "senders (sched_wake t k s) = senders s - {t}"
  by (auto simp: senders_def is_blocked_def sched_wake_reason sched_wake_state)

lemma failed_call_decreases:
  assumes "next_caller q s = (Some c, s1)" "deliver_call M r c s1 = (status, s2)" "status \<noteq> FND_OK"
  shows "card (senders (sched_wake c status s2)) < card (senders s)"
proof -
  have "s2 = s1" by (rule deliver_call_failed [OF assms(2,3)])
  moreover have "senders s1 = senders s"
    using next_caller_threads [OF assms(1)] by (simp add: senders_def is_blocked_def)
  moreover have "c \<in> senders s" using next_caller_blocked [OF assms(1)] by (simp add: senders_def)
  ultimately show ?thesis unfolding senders_wake by (metis card_Diff1_less finite_senders)
qed

text \<open>The loop over callers ends because every round wakes one of the senders.\<close>

function take_callers :: "machine \<Rightarrow> nat \<Rightarrow> nat \<Rightarrow> kstate \<Rightarrow> bool \<times> kstate" where
  "take_callers M r q s =
     (case next_caller q s of
        (None, s1) \<Rightarrow> (False, s1)
      | (Some c, s1) \<Rightarrow>
          (case deliver_call M r c s1 of (status, s2) \<Rightarrow>
             if status = FND_OK then (True, s2) else take_callers M r q (sched_wake c status s2)))"
  by pat_completeness auto
termination
  by (relation "measure (\<lambda>(_, _, _, s). card (senders s))") (auto intro: failed_call_decreases dest: sym)

declare take_callers.simps [simp del]

definition take_next :: "machine \<Rightarrow> nat \<Rightarrow> nat \<Rightarrow> kstate \<Rightarrow> bool \<times> kstate" where
  "take_next M r q s =
     (case (if irq_pending_mask s \<noteq> 0
            then find (\<lambda>n. irq_port (irqs s n) = Some q \<and> irq_pending (irqs s n)) [0..<16] else None) of
        Some n \<Rightarrow> (True, deliver_irq r n s)
      | None \<Rightarrow>
          if gone_head (ports s q) \<noteq> None then (True, deliver_gone r q s) else take_callers M r q s)"

section \<open>Calls and replies\<close>

definition read_msg :: "machine \<Rightarrow> nat \<Rightarrow> u32 \<Rightarrow> kstate \<Rightarrow> int \<times> msg \<times> kstate" where
  "read_msg M p a s =
     (let (status, s) = user_struct M p a 32 PERM_R s; m = msg_of_words (user_words p a 8 s) in
      if status \<noteq> FND_OK then (status, m, s)
      else if m_flags m AND NOT XFER_HANDLE \<noteq> 0 then (FND_E_BAD_ARG, m, s)
      else if IPC_MAX_DATA < m_len m then (FND_E_LIMIT, m, s)
      else let (ok, s) = range_ok M p (m_buf m) (m_len m) PERM_R s in
        (if ok then FND_OK else FND_E_ACCESS, m, s))"

text \<open>The call on a kernel channel: directory channels (odd kinds) open a stream, streams serve it.\<close>

definition kernel_open :: "machine \<Rightarrow> nat \<Rightarrow> nat \<Rightarrow> msg \<Rightarrow> msg \<Rightarrow> kstate \<Rightarrow> int \<times> msg \<times> kstate" where
  "kernel_open M p dir m r s =
     (let kind = dir + 1;
          (status, s) =
            (if m_op m \<noteq> 0x0300 then (FND_E_UNSUPPORTED, s)
             else if KDEV_TRNG \<le> kind then (pec_open kind (m_a0 m), s)
             else if kind = 4 then sgu_open (m_a0 m) s
             else if kind = 6 then sgc_open M (m_a0 m) s
             else fb_open M (m_a0 m) s)
      in if status \<noteq> FND_OK then (status, r, s)
         else
           let (h, s) = kernel_channel p kind s in
           if h < 0 then
             (h, r, if kind = 4 then sgu_close s else if kind = 6 then sgc_close s
                    else if kind = 2 then fb_close M s else s)
           else (FND_OK, r\<lparr>m_flags := XFER_HANDLE, m_a3 := word_of_int h\<rparr>,
                 on_new_channel p h (\<lambda>y. y\<lparr>cbadge := m_a0 m\<rparr>) s))"

definition kernel_stream ::
  "machine \<Rightarrow> nat \<Rightarrow> chan \<Rightarrow> msg \<Rightarrow> msg \<Rightarrow> u32 \<Rightarrow> kstate \<Rightarrow> (int \<times> msg \<times> kstate) option" where
  "kernel_stream M p y m r cap s =
     (let k = kernel_kind y in
      if KDEV_TRNG \<le> k then Some (pec_call M p k (cbadge y) m r cap s)
      else if k = 4 then sgu_call M p m r cap s
      else if k = 6 then Some (sgc_call M p m r cap s)
      else Some (fb_call M p m r cap s))"

definition kernel_call ::
  "machine \<Rightarrow> nat \<Rightarrow> chan \<Rightarrow> msg \<Rightarrow> u32 \<Rightarrow> msg \<Rightarrow> kstate \<Rightarrow> (int \<times> kstate) option" where
  "kernel_call M t y m rp r0 s =
     (let p = tproc (threads s t); cap = m_len r0; r = (note_msg 0 0)\<lparr>m_buf := m_buf r0\<rparr> in
      if m_flags m \<noteq> 0 then Some (FND_E_BAD_ARG, s)
      else
        (case (if odd (kernel_kind y) then Some (kernel_open M p (kernel_kind y) m r s)
               else kernel_stream M p y m r cap s) of
           None \<Rightarrow> None
         | Some (status, r, s) \<Rightarrow>
             if status = FND_E_WOULD_BLOCK \<and> KDEV_TRNG \<le> kernel_kind y then
               Some (FND_OK, sched_block t B_PEC_READ FND_FOREVER
                 (upd_thread t (\<lambda>x. x\<lparr>req := m\<lparr>m_a3 := cbadge y\<rparr>, badge := of_nat (kernel_kind y), rep := rp,
                    rep_buf := m_buf r, rep_cap := cap\<rparr>) s))
             else
               Some (FND_OK, user_out p rp (bytes_of_words (msg_words (r\<lparr>m_op := word_of_int status\<rparr>))) s)))"

definition port_call :: "machine \<Rightarrow> nat \<Rightarrow> nat \<Rightarrow> u32 \<Rightarrow> msg \<Rightarrow> u32 \<Rightarrow> msg \<Rightarrow> kstate \<Rightarrow> kstate" where
  "port_call M t q bdg m rp r s =
     (let s = s\<lparr>next_seq := next_seq s + 1\<rparr>;
          s = upd_thread t (\<lambda>x. x\<lparr>req := m, rep := rp, rep_buf := m_buf r, rep_cap := m_len r, tport := Some q,
                badge := bdg, seq := next_seq s, gen := gen x + 1\<rparr>) s;
          s = sched_block t B_SEND FND_FOREVER s;
          s = s\<lparr>send_blocked := send_blocked s OR push_bit t 1\<rparr>
      in case find_receiver s q of None \<Rightarrow> s
         | Some v \<Rightarrow> (case take_next M v q s of (taken, s) \<Rightarrow> if taken then sched_wake v FND_OK s else s))"

definition sys_ipc_call :: "machine \<Rightarrow> nat \<Rightarrow> u32 \<Rightarrow> u32 \<Rightarrow> u32 \<Rightarrow> kstate \<Rightarrow> (int \<times> kstate) option" where
  "sys_ipc_call M t ch rq rp s =
     (let p = tproc (threads s t) in
      case entry s p ch of
        H_CHANNEL c \<Rightarrow>
          let (status, m, s) = read_msg M p rq s;
              (status, s) = (if status = FND_OK then user_struct M p rp 32 (PERM_R OR PERM_W) s else (status, s))
          in if status \<noteq> FND_OK then Some (status, s)
             else
               let r = msg_of_words (user_words p rp 8 s); (ok, s) = range_ok M p (m_buf r) (m_len r) PERM_W s in
               if \<not> ok then Some (FND_E_ACCESS, s)
               else if m_flags m AND XFER_HANDLE \<noteq> 0 \<and> entry s p (m_a3 m) = H_NONE then Some (FND_E_BAD_HANDLE, s)
               else if kernel_kind (channels s c) \<noteq> 0 then kernel_call M t (channels s c) m rp r s
               else (case cport (channels s c) of None \<Rightarrow> Some (FND_E_PEER_GONE, s)
                     | Some q \<Rightarrow> Some (FND_OK, port_call M t q (cbadge (channels s c)) m rp r s))
      | _ \<Rightarrow> Some (FND_E_BAD_HANDLE, s))"

definition sys_ipc_recv :: "machine \<Rightarrow> nat \<Rightarrow> u32 \<Rightarrow> u32 \<Rightarrow> kstate \<Rightarrow> int \<times> kstate" where
  "sys_ipc_recv M t h addr s =
     (let p = tproc (threads s t) in
      case entry s p h of
        H_PORT q \<Rightarrow>
          let (status, s) = user_struct M p addr 64 (PERM_R OR PERM_W) s in
          if status \<noteq> FND_OK then (status, s)
          else
            let w = user_words p addr 16 s; data = w ! 8; cap = w ! 9; timeout = w ! 14 in
            if w ! 15 \<noteq> 0 then (FND_E_BAD_ARG, s)
            else
              let (ok, s) = range_ok M p data cap PERM_W s in
              if \<not> ok then (FND_E_ACCESS, s)
              else
                let (taken, s) = take_next M t q (upd_thread t (\<lambda>x. x\<lparr>rcv := addr\<rparr>) s) in
                if taken then (FND_OK, s)
                else if timeout = 0 then (FND_E_WOULD_BLOCK, s)
                else (FND_OK, sched_block t B_RECV timeout (upd_thread t (\<lambda>x. x\<lparr>tport := Some q\<rparr>) s))
      | _ \<Rightarrow> (FND_E_BAD_HANDLE, s))"

definition token_caller :: "kstate \<Rightarrow> nat \<Rightarrow> u32 \<Rightarrow> nat option" where
  "token_caller s p token =
     (let index = unat (token AND 0xFF) in
      if index = 0 \<or> MAX_THREADS < index then None
      else
        let t = index - 1 in
        if \<not> is_blocked s B_REPLY t \<or> wait_proc (threads s t) \<noteq> Some p \<or>
           gen (threads s t) AND 0x00FFFFFF \<noteq> drop_bit 8 token then None
        else Some t)"

definition sys_ipc_reply :: "machine \<Rightarrow> nat \<Rightarrow> u32 \<Rightarrow> u32 \<Rightarrow> kstate \<Rightarrow> int \<times> kstate" where
  "sys_ipc_reply M t token addr s =
     (let p = tproc (threads s t); (status, m, s) = read_msg M p addr s in
      if status \<noteq> FND_OK then (status, s)
      else if m_flags m AND XFER_HANDLE \<noteq> 0 \<and> entry s p (m_a3 m) = H_NONE then (FND_E_BAD_HANDLE, s)
      else case token_caller s p token of None \<Rightarrow> (FND_E_PEER_GONE, s)
        | Some c \<Rightarrow>
            let x = threads s c in
            if rep_cap x < m_len m then (FND_E_LIMIT, s)
            else
              let (moved, s) = (if m_flags m AND XFER_HANDLE \<noteq> 0 then handle_move M p (m_a3 m) (tproc x) s else (0, s)) in
              if moved < 0 then (moved, s)
              else
                let m = (if m_flags m AND XFER_HANDLE \<noteq> 0 then m\<lparr>m_a3 := word_of_int moved\<rparr> else m);
                    s = upd_mm (mm_copy_user (tproc x) (rep_buf x) p (m_buf m) (m_len m)) s;
                    m = m\<lparr>m_buf := rep_buf x\<rparr>;
                    s = user_out (tproc x) (rep x) (bytes_of_words (msg_words m)) s
                in (FND_OK, sched_wake c FND_OK s))"

definition sys_ipc_reply_recv :: "machine \<Rightarrow> nat \<Rightarrow> u32 \<Rightarrow> u32 \<Rightarrow> u32 \<Rightarrow> u32 \<Rightarrow> kstate \<Rightarrow> int \<times> kstate" where
  "sys_ipc_reply_recv M t token addr h rcv_a s =
     (let (status, s) = sys_ipc_reply M t token addr s in
      if status < 0 \<and> status \<noteq> FND_E_PEER_GONE then (status, s) else sys_ipc_recv M t h rcv_a s)"

definition ipc_timed_out :: "nat \<Rightarrow> kstate \<Rightarrow> kstate" where
  "ipc_timed_out t s = sched_wake t (if reason (threads s t) = B_SLEEP then FND_OK else FND_E_TIMEOUT) s"

section \<open>Services\<close>

text \<open>The first loop of \<open>read_name\<close>: at most \<open>n\<close> more characters, the NUL among them.\<close>

fun read_chars :: "machine \<Rightarrow> nat \<Rightarrow> u32 \<Rightarrow> nat \<Rightarrow> kstate \<Rightarrow> int \<times> u8 list \<times> kstate" where
  "read_chars M p a 0 s = (FND_E_BAD_ARG, [], s)"
| "read_chars M p a (Suc n) s =
     (let (ok, s) = range_ok M p a 1 PERM_R s in
      if \<not> ok then (FND_E_ACCESS, [], s)
      else
        let c = mm_read8 p a (mm s) in
        if c = 0 then (FND_OK, [], s)
        else let (status, cs, s) = read_chars M p (a + 1) n s in (status, c # cs, s))"

fun name_chars_ok :: "bool \<Rightarrow> u8 list \<Rightarrow> bool" where
  "name_chars_ok start [] = True"
| "name_chars_ok start (c # cs) =
     (let lower = is_lower c in
      if (if start then \<not> lower else \<not> (lower \<or> is_digit c \<or> c = 0x5F \<or> c = 0x2E)) then False
      else if c = 0x2E \<and> cs = [] then False
      else name_chars_ok (c = 0x2E) cs)"

definition read_name :: "machine \<Rightarrow> nat \<Rightarrow> u32 \<Rightarrow> kstate \<Rightarrow> int \<times> u8 list \<times> kstate" where
  "read_name M p a s =
     (let (status, name, s) = read_chars M p a 32 s in
      if status \<noteq> FND_OK then (status, name, s)
      else if \<not> name_chars_ok True name then (FND_E_BAD_ARG, name, s)
      else (if name \<noteq> [] then FND_OK else FND_E_BAD_ARG, name, s))"

definition reserved_names :: "u8 list list" where
  "reserved_names = map str [''dev.fb0'', ''dev.sgu'', ''dev.trng'', ''dev.prng'', ''dev.uart0'', ''dev.sgc'']"

definition sys_svc_register :: "machine \<Rightarrow> nat \<Rightarrow> u32 \<Rightarrow> u32 \<Rightarrow> kstate \<Rightarrow> int \<times> kstate" where
  "sys_svc_register M p name_addr h s =
     (if caps (procs s p) AND CAP_SVC = 0 then (FND_E_ACCESS, s)
      else
        let (status, name, s) = read_name M p name_addr s in
        if status \<noteq> FND_OK then (status, s)
        else if name \<in> set reserved_names then (FND_E_EXISTS, s)
        else case entry s p h of
          H_PORT q \<Rightarrow>
            if list_ex (\<lambda>i. svc_port (services s i) \<noteq> None \<and> svc_name (services s i) = name) [0..<MAX_SERVICES]
            then (FND_E_EXISTS, s)
            else (case find (\<lambda>i. svc_port (services s i) = None) [0..<MAX_SERVICES] of
                None \<Rightarrow> (FND_E_LIMIT, s)
              | Some i \<Rightarrow> (FND_OK, s\<lparr>services := (services s)(i := \<lparr>svc_port = Some q, svc_name = name\<rparr>)\<rparr>))
        | _ \<Rightarrow> (FND_E_BAD_HANDLE, s))"

definition sys_svc_lookup :: "machine \<Rightarrow> nat \<Rightarrow> u32 \<Rightarrow> kstate \<Rightarrow> int \<times> kstate" where
  "sys_svc_lookup M p name_addr s =
     (let (status, name, s) = read_name M p name_addr s in
      if status \<noteq> FND_OK then (status, s)
      else if name = str ''dev.fb0'' then kernel_channel p 1 s
      else if name = str ''dev.sgu'' then kernel_channel p 3 s
      else if name = str ''dev.trng'' then kernel_channel p (KDEV_TRNG - 1) s
      else if name = str ''dev.prng'' then kernel_channel p (KDEV_PRNG - 1) s
      else if name = str ''dev.uart0'' then kernel_channel p (KDEV_UART0 - 1) s
      else if name = str ''dev.sgc'' then kernel_channel p 5 s
      else case find (\<lambda>i. svc_port (services s i) \<noteq> None \<and> svc_name (services s i) = name) [0..<MAX_SERVICES] of
        None \<Rightarrow> (FND_E_NOT_FOUND, s)
      | Some i \<Rightarrow>
          let b = (next_lookup_badge s + 1) AND 0x7FFFFFFF in
          new_channel p (svc_port (services s i)) (0x80000000 OR b) (s\<lparr>next_lookup_badge := b\<rparr>))"

section \<open>Waiting\<close>

definition process_handle :: "kstate \<Rightarrow> nat \<Rightarrow> u32 \<Rightarrow> nat option" where
  "process_handle s p h = (case entry s p h of H_PROCESS q \<Rightarrow> Some q | _ \<Rightarrow> None)"

definition ipc_process_handle_pid :: "kstate \<Rightarrow> nat \<Rightarrow> u32 \<Rightarrow> int" where
  "ipc_process_handle_pid s p h =
     (case process_handle s p h of None \<Rightarrow> FND_E_BAD_HANDLE | Some q \<Rightarrow> sint (pid (procs s q)))"

definition write_code :: "nat \<Rightarrow> u32 \<Rightarrow> int \<Rightarrow> kstate \<Rightarrow> kstate" where
  "write_code p a code s = (if a \<noteq> 0 then upd_mm (mm_write32 p a (word_of_int code)) s else s)"

definition sys_wait :: "machine \<Rightarrow> nat \<Rightarrow> u32 \<Rightarrow> u32 \<Rightarrow> u32 \<Rightarrow> kstate \<Rightarrow> int \<times> kstate" where
  "sys_wait M t h timeout code_a s =
     (let p = tproc (threads s t); target = process_handle s p h;
          tt = (case entry s p h of H_THREAD u \<Rightarrow> Some u | _ \<Rightarrow> None)
      in if target = None \<and> tt = None then (FND_E_BAD_HANDLE, s)
         else if tt = Some t then (FND_E_BAD_ARG, s)
         else
           let (status, s) = (if code_a \<noteq> 0 then user_struct M p code_a 4 PERM_W s else (FND_OK, s)) in
           if status \<noteq> FND_OK then (status, s)
           else
             let (ended, code) = (case tt of
                   Some u \<Rightarrow> (tstate (threads s u) = T_DEAD \<or> tstate (threads s u) = T_FREE, texit_code (threads s u))
                 | None \<Rightarrow> (pstate (procs s (the target)) \<noteq> PROC_LIVE, exit_code (procs s (the target))))
             in if ended then (FND_OK, write_code p code_a code s)
                else if timeout = 0 then (FND_E_WOULD_BLOCK, s)
                else (FND_OK, sched_block t B_WAIT timeout
                        (upd_thread t (\<lambda>x. x\<lparr>wait_proc := target, wait_thread := tt, code_ptr := code_a\<rparr>) s)))"

definition wake_waiter :: "nat \<Rightarrow> int \<Rightarrow> kstate \<Rightarrow> kstate" where
  "wake_waiter t code s = sched_wake t FND_OK (write_code (tproc (threads s t)) (code_ptr (threads s t)) code s)"

definition ipc_proc_exited :: "nat \<Rightarrow> kstate \<Rightarrow> kstate" where
  "ipc_proc_exited p s =
     fold (\<lambda>t s. if is_blocked s B_WAIT t \<and> wait_proc (threads s t) = Some p
                 then wake_waiter t (exit_code (procs s p)) s else s) [0..<MAX_THREADS] s"

definition sys_thread_create :: "machine \<Rightarrow> nat \<Rightarrow> u32 \<Rightarrow> u32 \<Rightarrow> u32 \<Rightarrow> kstate \<Rightarrow> int \<times> kstate" where
  "sys_thread_create M t entry_pc sp arg s =
     (let p = tproc (threads s t) in
      if entry_pc AND 3 \<noteq> 0 \<or> sp AND 7 \<noteq> 0 then (FND_E_BAD_ARG, s)
      else
        let (ok, s) = range_ok M p entry_pc 4 PERM_X s;
            (ok, s) = (if ok then range_ok M p sp 8 (PERM_R OR PERM_W) s else (False, s))
        in if \<not> ok then (FND_E_ACCESS, s)
           else if handle_free_count s p = 0 then (FND_E_LIMIT, s)
           else case sched_alloc_thread s of (None, s) \<Rightarrow> (FND_E_LIMIT, s)
             | (Some n, s) \<Rightarrow>
                 let ugp = regs (frame (threads s t)) 30;
                     s = upd_thread n (\<lambda>x. x\<lparr>frame := \<lparr>regs = (\<lambda>_. 0)(1 := arg, 28 := sp, 30 := ugp),
                           epc = entry_pc, cstatus = STATUS_PU OR STATUS_PIE\<rparr>,
                           priority := priority (threads s t), tproc := p, texit_code := 0\<rparr>) s;
                     (h, s) = handle_add p (H_THREAD n) s
                 in if h < 0 then (h, s)
                    else (h, sched_make_ready n (upd_proc p (\<lambda>y. y\<lparr>nthreads := nthreads y + 1\<rparr>) s)))"

section \<open>Polling and the tick\<close>

definition poll_one :: "machine \<Rightarrow> nat \<Rightarrow> kstate \<Rightarrow> kstate" where
  "poll_one M t s =
     (if \<not> is_blocked s B_PEC_READ t then s
      else
        let x = threads s t;
            (status, r, s) = pec_call M (tproc x) (unat (badge x)) (m_a3 (req x)) (req x)
              ((note_msg 0 0)\<lparr>m_buf := rep_buf x\<rparr>) (rep_cap x) s
        in if status = FND_E_WOULD_BLOCK then s
           else sched_wake t FND_OK
             (user_out (tproc x) (rep x) (bytes_of_words (msg_words (r\<lparr>m_op := word_of_int status\<rparr>))) s))"

definition ipc_pec_poll :: "machine \<Rightarrow> kstate \<Rightarrow> kstate" where
  "ipc_pec_poll M s = fold (poll_one M) [0..<MAX_THREADS] s"

definition expired :: "kstate \<Rightarrow> nat \<Rightarrow> bool" where
  "expired s t \<longleftrightarrow> tstate (threads s t) = T_BLOCKED \<and> timed (threads s t) \<and>
     0 \<le> sint (ticks s - wake_tick (threads s t))"

definition sched_tick :: "machine \<Rightarrow> kstate \<Rightarrow> kstate" where
  "sched_tick M s =
     (let s = io_write (Wr32 TIMER_ACK 1) s;
          s = ipc_pec_poll M (s\<lparr>ticks := ticks s + 1\<rparr>);
          s = fold (\<lambda>t s. if expired s t then ipc_timed_out t s else s) [0..<MAX_THREADS] s;
          c = current s
      in if c \<noteq> IDLE \<and> tstate (threads s c) = T_RUNNING then
           let s = (if slice (threads s c) \<noteq> 0 then upd_thread c (\<lambda>x. x\<lparr>slice := slice x - 1\<rparr>) s else s) in
           if slice (threads s c) = 0 then s\<lparr>need_resched := True\<rparr> else s
         else s)"

end
