(* ===== verification/Blk.thy ===== *)
theory Blk
  imports Ipc
begin

text \<open>
  Sector I/O (\<open>foundation/kernel/blk.c\<close>, the DMA build; the synchronous build of the Tang board is
  not modelled): one request at a time on the disk controller, the others in a FIFO queue. Waiting for
  the controller may go on for ever, so that the operations that wait are partial: \<open>None\<close> is not
  returning. \<open>blk_queue\<close> is the array \<open>queue\<close> with its count \<open>queued\<close>.
\<close>

abbreviation IDC_STATUS :: u32 where "IDC_STATUS \<equiv> 0x80041008"
abbreviation IDC_IRQ_ENABLE :: u32 where "IDC_IRQ_ENABLE \<equiv> 0x8004100C"
abbreviation IDC_IRQ_STATUS :: u32 where "IDC_IRQ_STATUS \<equiv> 0x80041010"
abbreviation IDC_DRIVE_SELECT :: u32 where "IDC_DRIVE_SELECT \<equiv> 0x80041014"
abbreviation IDC_COMMAND :: u32 where "IDC_COMMAND \<equiv> 0x80041018"
abbreviation IDC_LBA :: u32 where "IDC_LBA \<equiv> 0x8004101C"
abbreviation IDC_SECTOR_COUNT :: u32 where "IDC_SECTOR_COUNT \<equiv> 0x80041020"
abbreviation IDC_DATA :: u32 where "IDC_DATA \<equiv> 0x80041024"
abbreviation IDC_ERROR_CODE :: u32 where "IDC_ERROR_CODE \<equiv> 0x80041038"
abbreviation DMA_STATUS :: u32 where "DMA_STATUS \<equiv> 0x80050110"
abbreviation BLK_READ :: u32 where "BLK_READ \<equiv> 1"
abbreviation BLK_WRITE :: u32 where "BLK_WRITE \<equiv> 2"
abbreviation BLK_IDENTIFY :: u32 where "BLK_IDENTIFY \<equiv> 3"
abbreviation BLK_MAX_COUNT :: u32 where "BLK_MAX_COUNT \<equiv> 128"

definition br_proc :: "kstate \<Rightarrow> blk_req \<Rightarrow> nat" where
  "br_proc s r = tproc (threads s (br_thread r))"

definition dma_address :: "kstate \<Rightarrow> blk_req \<Rightarrow> u32" where
  "dma_address s r = (if mm_vm (mm s) then mm_bounce else br_buf r)"

text \<open>The error codes; the second test of the DMA status is a read of its own.\<close>

definition idc_result :: "machine \<Rightarrow> kstate \<Rightarrow> int \<times> kstate" where
  "idc_result M s =
     (let (st, s) = io_read M IDC_STATUS s;
          (bad, s) = (if st AND 4 \<noteq> 0 then (True, s) else let (d, s) = io_read M DMA_STATUS s in (d AND 4 \<noteq> 0, s))
      in if \<not> bad then (FND_OK, s)
         else
           let (code, s) = io_read M IDC_ERROR_CODE s in
           if code = 2 then (FND_E_NO_MEDIA, s)
           else if code = 4 then (FND_E_READ_ONLY, s)
           else if code = 5 \<or> code = 6 then (FND_E_IO, s)
           else let (d, s) = io_read M DMA_STATUS s in (if d AND 4 \<noteq> 0 then FND_E_IO else FND_E_BAD_ARG, s))"

definition idc_clear :: "kstate \<Rightarrow> kstate" where
  "idc_clear s = fold io_write [Wr32 IDC_STATUS 6, Wr32 IDC_IRQ_STATUS 3, Wr32 DMA_STATUS 6] s"

partial_function (option) wait_idc :: "machine \<Rightarrow> kstate \<Rightarrow> kstate option" where
  "wait_idc M s =
     (case io_read M IDC_STATUS s of (st, s) \<Rightarrow> if st AND 1 \<noteq> 0 then wait_idc M s else Some s)"

partial_function (option) wait_idc_dma :: "machine \<Rightarrow> kstate \<Rightarrow> kstate option" where
  "wait_idc_dma M s =
     (case io_read M IDC_STATUS s of (st, s) \<Rightarrow>
        if st AND 1 \<noteq> 0 then wait_idc_dma M s
        else case io_read M DMA_STATUS s of (d, s) \<Rightarrow> if d AND 1 \<noteq> 0 then wait_idc_dma M s else Some s)"

definition identify :: "machine \<Rightarrow> blk_req \<Rightarrow> kstate \<Rightarrow> (int \<times> kstate) option" where
  "identify M r s =
     (case wait_idc M (fold io_write [Wr32 IDC_DRIVE_SELECT (br_drive r), Wr32 IDC_COMMAND 3] (idc_clear s)) of
        None \<Rightarrow> None
      | Some s \<Rightarrow>
          let (result, s) = idc_result M s; s = idc_clear s in
          if result \<noteq> FND_OK then Some (result, s)
          else
            let (ty, s) = io_read M 0x80041028 s; (sz, s) = io_read M 0x8004102C s;
                (cap, s) = io_read M 0x80041030 s; (fl, s) = io_read M 0x80041034 s
            in Some (result, user_out (br_proc s r) (br_buf r) (bytes_of_words [ty, sz, cap, fl]) s))"

definition blk_start :: "machine \<Rightarrow> blk_req \<Rightarrow> kstate \<Rightarrow> kstate" where
  "blk_start M r s =
     (let s = io_write (Wr32 0x80050004 1) (idc_clear s);
          (en, s) = io_read M 0x80050008 s;
          s = io_write (Wr32 IDC_IRQ_ENABLE 3) (io_write (Wr32 0x80050008 (en OR 1)) s);
          s = irqc_unmask IRQ_IDC s;
          s = fold io_write [Wr32 IDC_DRIVE_SELECT (br_drive r), Wr32 IDC_LBA (br_lba r),
                Wr32 IDC_SECTOR_COUNT (br_count r)] s;
          s = (if mm_vm (mm s) \<and> br_op r = BLK_WRITE
               then upd_mm (mm_vm_copy_from mm_bounce (br_proc s r) (br_buf r) (push_bit 9 (br_count r))) s else s);
          rd = (br_op r = BLK_READ)
      in fold io_write
           [Wr32 0x80050100 (if rd then IDC_DATA else dma_address s r),
            Wr32 0x80050104 (if rd then dma_address s r else IDC_DATA),
            Wr32 0x80050108 (push_bit 9 (br_count r)),
            Wr32 IDC_COMMAND (if rd then 1 else 2), Wr32 0x8005010C (if rd then 0x104 else 0x110)] s)"

definition blk_pop :: "kstate \<Rightarrow> kstate" where
  "blk_pop s = s\<lparr>blk_queue := tl (blk_queue s)\<rparr>"

function run_queue :: "machine \<Rightarrow> kstate \<Rightarrow> kstate option" where
  "run_queue M s =
     (case blk_queue s of
        [] \<Rightarrow> Some s
      | r # rs \<Rightarrow>
          if blk_running s then Some s
          else if br_op r = BLK_IDENTIFY then
            (case identify M r s of None \<Rightarrow> None
             | Some (result, s') \<Rightarrow>
                 run_queue M ((sched_wake (br_thread r) result s')\<lparr>blk_queue := rs\<rparr>))
          else Some (blk_start M r (s\<lparr>blk_running := True\<rparr>)))"
  by pat_completeness auto
termination by (relation "measure (\<lambda>(_, s). length (blk_queue s))") auto

declare run_queue.simps [simp del]

definition blk_pending :: "machine \<Rightarrow> kstate \<Rightarrow> bool \<times> kstate" where
  "blk_pending M s =
     (if \<not> blk_running s then (False, s) else let (v, s) = io_read M IDC_IRQ_STATUS s in (v AND 3 \<noteq> 0, s))"

definition blk_irq :: "machine \<Rightarrow> kstate \<Rightarrow> kstate option" where
  "blk_irq M s =
     (if \<not> blk_running s then Some (idc_clear s)
      else case wait_idc_dma M s of None \<Rightarrow> None
        | Some s \<Rightarrow>
            let (result, s) = idc_result M s; s = (idc_clear s)\<lparr>blk_running := False\<rparr>; r = hd (blk_queue s);
                s = (if mm_vm (mm s) \<and> result = FND_OK \<and> br_op r = BLK_READ
                     then upd_mm (\<lambda>m. mm_copy_to_user (br_proc s r) (br_buf r)
                            (load_bytes (ram m) mm_bounce (unat (push_bit 9 (br_count r) :: u32))) m) s
                     else s)
            in run_queue M (blk_pop (sched_wake (br_thread r) result s)))"

definition blk_proc_exited :: "machine \<Rightarrow> nat \<Rightarrow> kstate \<Rightarrow> kstate option" where
  "blk_proc_exited M p s =
     (case (if blk_running s \<and> br_proc s (hd (blk_queue s)) = p
            then (case wait_idc_dma M (io_write (Wr32 IDC_COMMAND 4) s) of None \<Rightarrow> None
                  | Some s \<Rightarrow> Some (blk_pop ((idc_clear s)\<lparr>blk_running := False\<rparr>)))
            else Some s) of
        None \<Rightarrow> None
      | Some s \<Rightarrow> run_queue M (s\<lparr>blk_queue := filter (\<lambda>r. br_proc s r \<noteq> p) (blk_queue s)\<rparr>))"

definition sys_blk_io :: "machine \<Rightarrow> nat \<Rightarrow> u32 \<Rightarrow> kstate \<Rightarrow> (int \<times> kstate) option" where
  "sys_blk_io M t blk s =
     (let p = tproc (threads s t) in
      if caps (procs s p) AND CAP_DISK = 0 then Some (FND_E_ACCESS, s)
      else if blk AND 3 \<noteq> 0 then Some (FND_E_BAD_ARG, s)
      else
        let (ok, s) = range_ok M p blk 24 PERM_R s in
        if \<not> ok then Some (FND_E_ACCESS, s)
        else
          let w = user_words p blk 6 s;
              r = \<lparr>br_thread = t, br_drive = w ! 0, br_op = w ! 1, br_lba = w ! 2, br_count = w ! 3, br_buf = w ! 4\<rparr>
          in if w ! 5 \<noteq> 0 \<or> 3 < br_drive r \<or> br_op r < BLK_READ \<or> BLK_IDENTIFY < br_op r
             then Some (FND_E_BAD_ARG, s)
             else if br_op r \<noteq> BLK_IDENTIFY \<and> (br_count r = 0 \<or> BLK_MAX_COUNT < br_count r)
             then Some (FND_E_BAD_ARG, s)
             else if br_op r \<noteq> BLK_WRITE \<and> br_buf r AND 3 \<noteq> 0 then Some (FND_E_BAD_ARG, s)
             else
               let bytes = (if br_op r = BLK_IDENTIFY then 16 else push_bit 9 (br_count r));
                   (ok, s) = range_ok M p (br_buf r) bytes (if br_op r = BLK_WRITE then PERM_R else PERM_W) s
               in if \<not> ok then Some (FND_E_ACCESS, s)
                  else if MAX_THREADS \<le> length (blk_queue s) then Some (FND_E_LIMIT, s)
                  else if blk_queue s = [] \<and> br_op r = BLK_IDENTIFY then identify M r s
                  else map_option (Pair FND_OK)
                    (run_queue M (sched_block t B_BLK_IO FND_FOREVER (s\<lparr>blk_queue := blk_queue s @ [r]\<rparr>))))"

end
