(* ===== verification/Proc.thy ===== *)
theory Proc
  imports Blk Wax_Load
begin

text \<open>
  Processes (\<open>foundation/kernel/proc.c\<close>, with \<open>sys_proc_kill\<close> and \<open>sys_thread_exit\<close> of \<open>ipc.c\<close>): records,
  exit, builtin processes, MMIO grants, the launch of executables, spawn, fork, the heap and
  the system information calls. The kernel's static \<open>launch\<close> is the plan a spawn makes; nothing
  reads it later. A driver wait, a page-table loop or a load that does not return makes the
  result \<open>None\<close>.
\<close>

section \<open>Records and exit\<close>

abbreviation STAGING :: u32 where "STAGING \<equiv> 0x00100000"
abbreviation STAGING_END :: u32 where "STAGING_END \<equiv> 0x00400000"
abbreviation BMC_MAIN_RAM_SIZE :: u32 where "BMC_MAIN_RAM_SIZE \<equiv> 0x80060080"
abbreviation BMC_PCMRAM_SIZE :: u32 where "BMC_PCMRAM_SIZE \<equiv> 0x80060088"
abbreviation FND_MAX_GRANTS :: nat where "FND_MAX_GRANTS \<equiv> 8"
abbreviation FND_MAX_LIBRARIES :: nat where "FND_MAX_LIBRARIES \<equiv> 16"
abbreviation FND_STARTUP_MAX :: u32 where "FND_STARTUP_MAX \<equiv> 4096"
abbreviation FND_SLOTS :: nat where "FND_SLOTS \<equiv> 7"

definition kernel_mm_init :: "machine \<Rightarrow> kstate \<Rightarrow> kstate" where
  "kernel_mm_init M s =
     (if mm_decided (mm s) then s
      else let (bytes, s) = io_read M BMC_MAIN_RAM_SIZE s in upd_mm (mm_init (feature_v M) bytes) s)"

definition slot_bounds :: "u32 list" where
  "slot_bounds = [0x00400000, 0x00480000, 0x00500000, 0x00580000, 0x00600000, 0x00800000, 0x00C00000, 0x01000000]"

definition fnd_slot_base :: "nat \<Rightarrow> u32" where
  "fnd_slot_base slot = (if slot < FND_SLOTS then slot_bounds ! slot else 0)"

definition fnd_slot_end :: "nat \<Rightarrow> u32" where
  "fnd_slot_end slot = (if slot < FND_SLOTS then slot_bounds ! (slot + 1) else 0)"

definition zero_owned :: "nat \<Rightarrow> mm_state \<Rightarrow> mm_state" where
  "zero_owned p m =
     fold (\<lambda>i m. let r = regions (mprocs m p) i in
       if owned r then m\<lparr>ram := kmem_zero (ram m) (rstart r) (rend r)\<rparr> else m) [0..<region_count (mprocs m p)] m"

definition no_arena :: "nat \<Rightarrow> mm_state \<Rightarrow> mm_state" where
  "no_arena p = upd_mproc p (\<lambda>q. q\<lparr>arena_lo := 0, arena_hi := 0\<rparr>)"

definition free_arena :: "nat \<Rightarrow> mm_state \<Rightarrow> mm_state" where
  "free_arena p m = mm_arena_free (arena_lo (mprocs m p)) (arena_hi (mprocs m p)) m"

definition proc_exit :: "machine \<Rightarrow> nat \<Rightarrow> int \<Rightarrow> u32 \<Rightarrow> kstate \<Rightarrow> kstate option" where
  "proc_exit M p code fault s =
     (if pstate (procs s p) \<noteq> PROC_LIVE then Some s
      else case blk_proc_exited M p (sched_kill_proc p s) of None \<Rightarrow> None
        | Some s \<Rightarrow>
            let s = ipc_irq_proc_exited p s;
                s = upd_proc p (\<lambda>y. y\<lparr>nthreads := 0, exit_code := code, fault_epc := fault, pstate := PROC_EXITED\<rparr>) s;
                s = handle_close_all M p s;
                s = upd_mm (mm_release p) s;
                s = upd_mm (\<lambda>m. if mm_vm m then m else free_arena p (zero_owned p m)) s;
                s = upd_mm (no_arena p) s
            in Some (maybe_free p (ipc_proc_exited p s)))"

definition sys_proc_kill :: "machine \<Rightarrow> nat \<Rightarrow> u32 \<Rightarrow> kstate \<Rightarrow> (int \<times> kstate) option" where
  "sys_proc_kill M p h s =
     (case process_handle s p h of None \<Rightarrow> Some (FND_E_BAD_HANDLE, s)
      | Some q \<Rightarrow> map_option (Pair FND_OK) (proc_exit M q FND_E_KILLED 0 s))"

definition sys_thread_exit :: "machine \<Rightarrow> nat \<Rightarrow> int \<Rightarrow> kstate \<Rightarrow> kstate option" where
  "sys_thread_exit M t code s =
     (let p = tproc (threads s t) in
      if nthreads (procs s p) \<le> 1 then proc_exit M p code 0 s
      else
        let s = upd_proc p (\<lambda>y. y\<lparr>nthreads := nthreads y - 1\<rparr>) s;
            s = upd_thread t (\<lambda>x. x\<lparr>texit_code := code, tstate := T_DEAD\<rparr>) s
        in Some (fold (\<lambda>u s. if is_blocked s B_WAIT u \<and> wait_thread (threads s u) = Some t
             then wake_waiter u code s else s) [0..<MAX_THREADS] s))"

definition fnd_proc_get :: "kstate \<Rightarrow> u32 \<Rightarrow> nat option" where
  "fnd_proc_get s n = find (\<lambda>p. pstate (procs s p) \<noteq> PROC_FREE \<and> pid (procs s p) = n) [0..<MAX_PROCS]"

definition claim_record :: "kstate \<Rightarrow> nat option \<times> kstate" where
  "claim_record s =
     (case (case find (\<lambda>p. pstate (procs s p) = PROC_FREE) [0..<MAX_PROCS] of
              Some p \<Rightarrow> Some p
            | None \<Rightarrow> find (\<lambda>p. pstate (procs s p) = PROC_EXITED \<and> prefs (procs s p) = 0) [0..<MAX_PROCS]) of
        None \<Rightarrow> (None, s)
      | Some p \<Rightarrow> (Some p, upd_mm (upd_mproc p (\<lambda>q. q\<lparr>pt_root := 0, vm_pages := 0, arena_lo := 0, arena_hi := 0\<rparr>)) s))"

text \<open>The name is copied up to 15 bytes and padded with zeros.\<close>

definition proc_name :: "u8 list option \<Rightarrow> u8 list" where
  "proc_name name = (let n = (case name of None \<Rightarrow> [] | Some n \<Rightarrow> take 15 n) in n @ replicate (16 - length n) 0)"

definition user_frame :: "u32 \<Rightarrow> u32 \<Rightarrow> u32 \<Rightarrow> ctx_frame" where
  "user_frame pc usp ugp = \<lparr>regs = (\<lambda>_. 0)(28 := usp, 30 := ugp), epc = pc, cstatus = STATUS_PU OR STATUS_PIE\<rparr>"

definition start_proc :: "nat \<Rightarrow> nat \<Rightarrow> u8 list option \<Rightarrow> nat \<Rightarrow> u32 \<Rightarrow> u32 \<Rightarrow> u32 \<Rightarrow> kstate \<Rightarrow> int \<times> kstate" where
  "start_proc p t name prio pc usp ugp s =
     (let n = next_pid s;
          s = upd_proc p (\<lambda>y. y\<lparr>pid := n, ppriority := prio, nthreads := 1, prefs := 0, handles := (\<lambda>i.
                if i < MAX_HANDLES then H_NONE else handles y i), exit_code := 0, fault_epc := 0, cpu_cycles := 0,
                pname := proc_name name, pstate := PROC_LIVE\<rparr>) (s\<lparr>next_pid := n + 1\<rparr>);
          s = upd_thread t (\<lambda>x. x\<lparr>frame := user_frame pc usp ugp, priority := prio, tproc := p\<rparr>) s
      in (sint n, sched_make_ready t s))"

section \<open>Builtin processes\<close>

definition on_mm :: "(mm_state \<Rightarrow> int \<times> mm_state) \<Rightarrow> kstate \<Rightarrow> int \<times> kstate" where
  "on_mm f s = (let (status, m) = f (mm s) in (status, s\<lparr>mm := m\<rparr>))"

text \<open>The memory of a builtin process: the status, 0 when the process can be started.\<close>

definition builtin_memory :: "nat \<Rightarrow> u32 \<Rightarrow> u32 \<Rightarrow> u32 \<Rightarrow> u32 \<Rightarrow> mm_state \<Rightarrow> (int \<times> mm_state) option" where
  "builtin_memory p lo hi code_start code_end m =
     (if mm_vm m then
        let (status, m) = mm_vm_create p m;
            (status, m) = (if status = FND_OK then mm_vm_map p lo hi (PERM_R OR PERM_W) m else (status, m))
        in case (if status = FND_OK then mm_vm_map_phys p code_start code_end code_start (PERM_R OR PERM_X) False m
                 else Some (status, m)) of
             None \<Rightarrow> None
           | Some (status, m) \<Rightarrow> Some (status, if status \<noteq> FND_OK then mm_release p m else m)
      else
        let (status, m) = mm_arena_claim lo hi m in
        if status \<noteq> FND_OK then Some (status, m)
        else
          let m = upd_mproc p (\<lambda>q. q\<lparr>arena_lo := lo AND NOT MM_PAGE_MASK,
                arena_hi := (hi + MM_PAGE_MASK) AND NOT MM_PAGE_MASK\<rparr>) m
          in Some (FND_OK, m\<lparr>ram := kmem_zero (ram m) lo hi\<rparr>))"

definition fnd_proc_create_builtin ::
  "machine \<Rightarrow> u8 list option \<Rightarrow> u32 \<Rightarrow> nat \<Rightarrow> u32 \<Rightarrow> u32 \<Rightarrow> u32 \<Rightarrow> u32 \<Rightarrow> u32 \<Rightarrow> kstate \<Rightarrow> (int \<times> kstate) option" where
  "fnd_proc_create_builtin M name slot prio ram_size code_start code_end pc arg s =
     (let s = kernel_mm_init M s; base = slot_bounds ! unat slot; hi = slot_bounds ! (unat slot + 1); lo = hi - ram_size in
      if of_nat FND_SLOTS \<le> slot \<or> PRIO_APP < prio then Some (FND_E_BAD_ARG, s)
      else if ram_size < 64 \<or> ram_size AND 7 \<noteq> 0 \<or> hi - base < ram_size then Some (FND_E_BAD_ARG, s)
      else if code_end \<le> code_start \<or> pc < code_start \<or> code_end \<le> pc \<or> pc AND 3 \<noteq> 0 then Some (FND_E_BAD_ARG, s)
      else if code_start < hi \<and> base < code_end then Some (FND_E_ADDRESS_CONFLICT, s)
      else case claim_record s of
        (None, s) \<Rightarrow> Some (FND_E_LIMIT, s)
      | (Some p, s) \<Rightarrow>
          (case sched_alloc_thread s of
             (None, s) \<Rightarrow> Some (FND_E_LIMIT, s)
           | (Some t, s) \<Rightarrow>
               (case builtin_memory p lo hi code_start code_end (mm s) of
                  None \<Rightarrow> None
                | Some (status, m) \<Rightarrow>
                    let s = s\<lparr>mm := m\<rparr> in
                    if status \<noteq> FND_OK then Some (status, s)
                    else
                      let s = upd_proc p (\<lambda>y. y\<lparr>parent := 0, caps := 0, heap_start := 0, heap_end := 0, heap_limit := 0,
                            startup_len := 0\<rparr>) s;
                          s = upd_mm (upd_mproc p (\<lambda>q. q\<lparr>region_count := 2, regions := (regions q)
                            (0 := \<lparr>rstart = lo, rend = hi, rflags = PERM_R OR PERM_W, owned = True, mmio = False\<rparr>,
                             1 := \<lparr>rstart = code_start, rend = code_end, rflags = PERM_R OR PERM_X, owned = False,
                               mmio = False\<rparr>)\<rparr>)) s;
                          sp = hi - 8
                      in Some (start_proc p t name prio pc sp base (upd_mm (mm_write32 p sp arg) s)))))"

end
