(* ===== verification/Spawn.thy ===== *)
theory Spawn
  imports Proc
begin

text \<open>
  Launching executables (\<open>foundation/kernel/proc.c\<close>, \<open>wax_status\<close> to \<open>proc_spawn\<close>): MMIO grants,
  the heap plan, the arena of a launch without an MMU, the launch itself and the system call.
  Arrays that the source passes with a count are lists, so that a null array with a
  nonzero count does not exist. \<open>None\<close> is a launch that does not return.
\<close>

section \<open>Loader errors\<close>

fun wax_status :: "wax_error \<Rightarrow> int" where
  "wax_status WAX_OK = FND_OK"
| "wax_status WAX_E_FORMAT = FND_E_FORMAT"
| "wax_status WAX_E_UNSUPPORTED = FND_E_UNSUPPORTED"
| "wax_status WAX_E_ABI_MISMATCH = FND_E_UNSUPPORTED"
| "wax_status WAX_E_DEPENDENCY_MISSING = FND_E_DEPENDENCY"
| "wax_status WAX_E_DEPENDENCY_CONFLICT = FND_E_DEPENDENCY"
| "wax_status WAX_E_DEPENDENCY_CYCLE = FND_E_DEPENDENCY"
| "wax_status WAX_E_SYMBOL_MISSING = FND_E_DEPENDENCY"
| "wax_status WAX_E_SYMBOL_MISMATCH = FND_E_DEPENDENCY"
| "wax_status WAX_E_REGION_LIMIT = FND_E_REGION_LIMIT"
| "wax_status WAX_E_RESOURCE_LIMIT = FND_E_LIMIT"

section \<open>MMIO grants\<close>

record grant =
  g_start :: u32
  g_end :: u32
  g_perm :: u32

definition grant_windows :: "(u32 \<times> u32 \<times> bool) list" where
  "grant_windows =
     [(0x80000000, 0x80010000, False), (0x80010000, 0x80020000, False), (0x80020000, 0x80030000, False),
      (0x80040000, 0x80040030, False), (0x80040030, 0x80040180, False), (0x10000000, 0x18000000, True),
      (0x18000000, 0x18100000, True)]"

type_synonym window = "u32 \<times> u32 \<times> bool"

definition grant_window :: "grant \<Rightarrow> window option" where
  "grant_window g = find (\<lambda>(lo, hi, _). lo \<le> g_start g \<and> g_end g \<le> hi) grant_windows"

definition window_taken :: "kstate \<Rightarrow> window \<Rightarrow> bool" where
  "window_taken s = (\<lambda>(lo, hi, _).
     list_ex (\<lambda>p. pstate (procs s p) = PROC_LIVE \<and>
       list_ex (\<lambda>i. let r = regions (mprocs (mm s) p) i in mmio r \<and> rstart r < hi \<and> lo < rend r)
         [0..<region_count (mprocs (mm s) p)]) [0..<MAX_PROCS])"

definition page_up :: "u32 \<Rightarrow> u32" where
  "page_up n = (n + MM_PAGE_MASK) AND NOT MM_PAGE_MASK"

definition exclusive :: "window \<Rightarrow> bool" where
  "exclusive = (\<lambda>(_, _, e). e)"

definition page_window :: "u32 \<Rightarrow> window option" where
  "page_window at = find (\<lambda>(lo, hi, _). lo AND NOT MM_PAGE_MASK \<le> at \<and> at < hi) grant_windows"

lemma page_window_advances:
  assumes "page_window at = Some (lo, hi, e)"
  shows "at < page_up hi"
proof -
  have "(lo, hi, e) \<in> set grant_windows" "at < hi"
    using find_SomeD [OF assms [unfolded page_window_def]] by simp_all
  moreover have "hi \<le> page_up hi"
    using calculation(1) by (auto simp: grant_windows_def page_up_def)
  ultimately show ?thesis by simp
qed

text \<open>With an MMU whole pages are mapped: the walk over the windows that the pages reach.\<close>

function check_pages :: "kstate \<Rightarrow> u32 \<Rightarrow> u32 \<Rightarrow> int" where
  "check_pages s at stop =
     (if at < stop then
        case page_window at of None \<Rightarrow> FND_E_ACCESS
        | Some (lo, hi, e) \<Rightarrow>
            if e \<and> window_taken s (lo, hi, e) then FND_E_BUSY else check_pages s (page_up hi) stop
      else FND_OK)"
  by pat_completeness auto
termination
proof (relation "measure (\<lambda>(_, at, _). 2 ^ 32 - unat at)", simp, clarsimp)
  fix at lo hi :: u32 and e :: bool
  assume "page_window at = Some (lo, hi, e)"
  then have "unat at < unat (page_up hi)" using page_window_advances by (simp add: word_less_nat_alt)
  then show "4294967296 - unat (page_up hi) < 4294967296 - unat at"
    using unsigned_less [of "page_up hi", where 'a = nat] by simp
qed

declare check_pages.simps [simp del]

definition check_grant :: "kstate \<Rightarrow> grant \<Rightarrow> int" where
  "check_grant s g =
     (if g_end g \<le> g_start g \<or> (g_perm g \<noteq> PERM_R \<and> g_perm g \<noteq> PERM_R OR PERM_W) then FND_E_BAD_ARG
      else case grant_window g of None \<Rightarrow> FND_E_ACCESS
      | Some w \<Rightarrow>
          if exclusive w \<and> window_taken s w then FND_E_BUSY
          else if mm_vm (mm s) then check_pages s (g_start g AND NOT MM_PAGE_MASK) (page_up (g_end g))
          else FND_OK)"

definition check_grants :: "kstate \<Rightarrow> grant list \<Rightarrow> int" where
  "check_grants s gs =
     (if FND_MAX_GRANTS < length gs then FND_E_BAD_ARG
      else case find (\<lambda>g. check_grant s g \<noteq> FND_OK) gs of None \<Rightarrow> FND_OK | Some g \<Rightarrow> check_grant s g)"

section \<open>The heap\<close>

abbreviation VM_WINDOW_START :: u32 where "VM_WINDOW_START \<equiv> 0x00001000"
abbreviation VM_WINDOW_END :: u32 where "VM_WINDOW_END \<equiv> 0x10000000"
abbreviation VM_HEAP_TOP :: u32 where "VM_HEAP_TOP \<equiv> 0x80000000"

text \<open>One region: the lower limit, and the last writable region that ends at the heap.\<close>

definition heap_step :: "bool \<Rightarrow> u32 \<Rightarrow> nat \<times> wax_region \<Rightarrow> u32 \<times> nat \<Rightarrow> u32 \<times> nat" where
  "heap_step vm hi = (\<lambda>(i, r) (limit, grow).
     (if hi \<le> r_start r \<and> r_start r < limit then r_start r else limit,
      if \<not> vm \<and> i \<noteq> 0 \<and> r_end r = hi \<and> r_flags r = PERM_R OR PERM_W then i else grow))"

definition grant_step :: "u32 \<Rightarrow> grant \<Rightarrow> u32 \<Rightarrow> u32" where
  "grant_step hi g limit =
     (if hi \<le> g_start g \<and> g_start g < limit then g_start g AND NOT MM_PAGE_MASK else limit)"

text \<open>The heap's start, limit and region.\<close>

definition heap_plan :: "bool \<Rightarrow> u32 \<Rightarrow> wax_launch \<Rightarrow> grant list \<Rightarrow> u32 \<times> u32 \<times> nat" where
  "heap_plan vm arena l gs =
     (let hi = l_top l;
          (limit, grow) = fold (heap_step vm hi) (enumerate 0 (l_regions l))
            (if vm then VM_HEAP_TOP else arena, FND_PROC_REGIONS) in
      if vm then (page_up hi, fold (grant_step hi) gs limit AND NOT MM_PAGE_MASK, grow)
      else ((hi + 7) AND NOT 7, limit, grow))"

definition plan_heap :: "nat \<Rightarrow> wax_launch \<Rightarrow> grant list \<Rightarrow> kstate \<Rightarrow> kstate" where
  "plan_heap p l gs s =
     (let (start, limit, grow) = heap_plan (mm_vm (mm s)) (arena_hi (mprocs (mm s) p)) l gs in
      upd_proc p (\<lambda>y. y\<lparr>heap_start := start, heap_end := start, heap_limit := limit, heap_region := grow\<rparr>) s)"

section \<open>The arena of a launch without an MMU\<close>

abbreviation DEFAULT_HEAP :: u32 where "DEFAULT_HEAP \<equiv> 0x20000"
abbreviation RELOC_WINDOW :: u32 where "RELOC_WINDOW \<equiv> 0x08000000"
abbreviation RELOC_PROBE_BASE :: u32 where "RELOC_PROBE_BASE \<equiv> 0x01000000"

type_synonym data = "(u8 list \<times> u32) option"

definition target_of :: "u32 \<Rightarrow> u32 \<Rightarrow> u32 \<Rightarrow> wax_target" where
  "target_of lo hi base =
     \<lparr>os_id = str ''foundation'', os_major = 1, os_minor = 0, window_start = lo, window_end = hi, load_base = base\<rparr>"

definition set_arena :: "nat \<Rightarrow> u32 \<Rightarrow> u32 \<Rightarrow> mm_state \<Rightarrow> mm_state" where
  "set_arena p lo hi = upd_mproc p (\<lambda>q. q\<lparr>arena_lo := lo, arena_hi := hi\<rparr>)"

text \<open>An executable that keeps its address takes the pages it reserves.\<close>

definition plan_fixed :: "nat \<Rightarrow> data \<Rightarrow> u32 \<Rightarrow> wax_library list \<Rightarrow> wax_info \<Rightarrow> mm_state \<Rightarrow> int \<times> wax_launch \<times> mm_state" where
  "plan_fixed p img fsize table info m =
     (let lo = i_low info AND NOT MM_PAGE_MASK; hi = page_up (i_high info);
          (error, l) = wax_plan no_launch img fsize table (target_of lo hi 0) in
      if error \<noteq> WAX_OK then (wax_status error, l, m)
      else let (status, m) = mm_arena_claim lo hi m in
        if status \<noteq> FND_OK then (status, l, m) else (FND_OK, l, set_arena p lo hi m))"

text \<open>A relocatable one is planned at a trial address and moved into the arena it gets.\<close>

definition plan_relocatable :: "nat \<Rightarrow> data \<Rightarrow> u32 \<Rightarrow> wax_library list \<Rightarrow> wax_info \<Rightarrow> mm_state \<Rightarrow> int \<times> wax_launch \<times> mm_state" where
  "plan_relocatable p img fsize table info m =
     (let lo = RELOC_PROBE_BASE - page_up (i_stack_size info);
          (error, l) = wax_plan no_launch img fsize table (target_of lo (lo + RELOC_WINDOW) RELOC_PROBE_BASE) in
      if error \<noteq> WAX_OK then (wax_status error, l, m)
      else
        let reserve = page_up (if i_heap_hint info \<noteq> 0 then i_heap_hint info else DEFAULT_HEAP);
            used = l_top l - lo in
        if RELOC_WINDOW - reserve < used then (FND_E_NO_MEMORY, l, m)
        else
          let len = page_up (used + reserve); (arena, m) = mm_arena_alloc len m in
          if arena = 0 then (FND_E_NO_MEMORY, l, m)
          else let (error, l) = wax_rebase l (arena - lo) in
            if error \<noteq> WAX_OK then (wax_status error, l, mm_arena_free arena (arena + len) m)
            else (FND_OK, l, set_arena p arena (arena + len) m))"

definition plan_arena :: "nat \<Rightarrow> data \<Rightarrow> u32 \<Rightarrow> wax_library list \<Rightarrow> mm_state \<Rightarrow> int \<times> wax_launch \<times> mm_state" where
  "plan_arena p img fsize table m =
     (case wax_inspect (map_option fst img) fsize of
        Inl error \<Rightarrow> (wax_status error, no_launch, m)
      | Inr info \<Rightarrow>
          if i_relocatable info then plan_relocatable p img fsize table info m
          else plan_fixed p img fsize table info m)"

section \<open>The launch\<close>

text \<open>The address space of a launch with an MMU: regions, then grants, up to the first failure.\<close>

fun map_regions :: "nat \<Rightarrow> wax_region list \<Rightarrow> mm_state \<Rightarrow> int \<times> mm_state" where
  "map_regions p [] m = (FND_OK, m)"
| "map_regions p (r # rs) m =
     (let (status, m) = mm_vm_map p (r_start r) (r_end r) (r_flags r) m in
      if status \<noteq> FND_OK then (status, m) else map_regions p rs m)"

fun map_grants :: "nat \<Rightarrow> grant list \<Rightarrow> mm_state \<Rightarrow> (int \<times> mm_state) option" where
  "map_grants p [] m = Some (FND_OK, m)"
| "map_grants p (g # gs) m =
     (case mm_vm_map_phys p (g_start g) (g_end g) (g_start g) (g_perm g) True m of
        None \<Rightarrow> None
      | Some (status, m) \<Rightarrow> if status \<noteq> FND_OK then Some (status, m) else map_grants p gs m)"

definition build_space :: "nat \<Rightarrow> wax_launch \<Rightarrow> grant list \<Rightarrow> mm_state \<Rightarrow> (int \<times> mm_state) option" where
  "build_space p l gs m =
     (let (status, m) = mm_vm_create p m;
          (status, m) = (if status = FND_OK then map_regions p (l_regions l) m else (status, m)) in
      case (if status = FND_OK then map_grants p gs m else Some (status, m)) of
        None \<Rightarrow> None
      | Some (status, m) \<Rightarrow>
          Some (if status \<noteq> FND_OK then (if status = FND_E_ADDRESS_CONFLICT then FND_E_ACCESS else status, mm_release p m)
                else (FND_OK, m)))"

text \<open>Loading: through the page table of the new process, or in place.\<close>

definition load_image :: "nat \<Rightarrow> wax_launch \<Rightarrow> mm_state \<Rightarrow> mm_state option" where
  "load_image p l m =
     map_option (\<lambda>r. m\<lparr>ram := r\<rparr>)
       (if mm_vm m then wax_load_mapped l (Via (\<lambda>r a. mm_vm_ptr p a (m\<lparr>ram := r\<rparr>))) (ram m)
        else wax_load l 0 (ram m))"

definition launch_regions :: "wax_launch \<Rightarrow> grant list \<Rightarrow> region list" where
  "launch_regions l gs =
     map (\<lambda>r. \<lparr>rstart = r_start r, rend = r_end r, rflags = r_flags r, owned = True, mmio = False\<rparr>) (l_regions l) @
     map (\<lambda>g. \<lparr>rstart = g_start g, rend = g_end g, rflags = g_perm g, owned = False, mmio = True\<rparr>) gs"

definition set_regions :: "nat \<Rightarrow> region list \<Rightarrow> mm_state \<Rightarrow> mm_state" where
  "set_regions p rs =
     upd_mproc p (\<lambda>q. q\<lparr>regions := (\<lambda>i. if i < length rs then rs ! i else regions q i), region_count := length rs\<rparr>)"

definition drop_arena :: "nat \<Rightarrow> mm_state \<Rightarrow> mm_state" where
  "drop_arena p m = no_arena p (if mm_vm m then m else free_arena p m)"

text \<open>Everything after the last failure.\<close>

definition finish_spawn ::
  "nat \<Rightarrow> nat \<Rightarrow> u8 list option \<Rightarrow> nat \<Rightarrow> u32 \<Rightarrow> u32 \<Rightarrow> wax_launch \<Rightarrow> grant list \<Rightarrow> u8 list \<Rightarrow> kstate \<Rightarrow> (int \<times> kstate) option" where
  "finish_spawn p t name prio cap par l gs startup s =
     (case load_image p l (mm s) of None \<Rightarrow> None
      | Some m \<Rightarrow>
          let s = s\<lparr>mm := set_regions p (launch_regions l gs) m\<rparr>;
              s = plan_heap p l gs (upd_proc p (\<lambda>y. y\<lparr>parent := par, caps := cap\<rparr>) s);
              s = s\<lparr>startup_blocks := (startup_blocks s)(p := startup @ drop (length startup) (startup_blocks s p))\<rparr>;
              s = upd_proc p (\<lambda>y. y\<lparr>startup_len := length startup\<rparr>) s
          in Some (start_proc p t name prio (l_entry l) (l_stack_top l) (w_origin (l_image l 0)) s))"

definition plan_launch :: "nat \<Rightarrow> data \<Rightarrow> u32 \<Rightarrow> wax_library list \<Rightarrow> mm_state \<Rightarrow> int \<times> wax_launch \<times> mm_state" where
  "plan_launch p img fsize table m =
     (if mm_vm m then
        let (error, l) = wax_plan no_launch img fsize table (target_of VM_WINDOW_START VM_WINDOW_END 0)
        in (wax_status error, l, m)
      else plan_arena p img fsize table m)"

definition spawn_image ::
  "machine \<Rightarrow> u8 list option \<Rightarrow> nat \<Rightarrow> u32 \<Rightarrow> u32 \<Rightarrow> data \<Rightarrow> u32 \<Rightarrow> wax_library list \<Rightarrow> grant list \<Rightarrow> u8 list \<Rightarrow>
     kstate \<Rightarrow> (int \<times> kstate) option" where
  "spawn_image M name prio cap par img fsize table gs startup s =
     (let s = kernel_mm_init M s in
      if PRIO_APP < prio \<or> FND_MAX_LIBRARIES < length table \<or> unat FND_STARTUP_MAX < length startup
      then Some (FND_E_BAD_ARG, s)
      else if check_grants s gs \<noteq> FND_OK then Some (check_grants s gs, s)
      else case claim_record s of
        (None, s) \<Rightarrow> Some (FND_E_LIMIT, s)
      | (Some p, s) \<Rightarrow>
          let (status, l, m) = plan_launch p img fsize table (mm s); s = s\<lparr>mm := m\<rparr> in
          if status \<noteq> FND_OK then Some (status, s)
          else if \<not> mm_vm m \<and> FND_REGIONS < length (l_regions l) + length gs
          then Some (FND_E_REGION_LIMIT, upd_mm (drop_arena p) s)
          else case sched_alloc_thread s of
            (None, s) \<Rightarrow> Some (FND_E_LIMIT, upd_mm (drop_arena p) s)
          | (Some t, s) \<Rightarrow>
              (case (if mm_vm m then build_space p l gs (mm s) else Some (FND_OK, mm s)) of
                 None \<Rightarrow> None
               | Some (status, m) \<Rightarrow>
                   if status \<noteq> FND_OK then Some (status, s\<lparr>mm := m\<rparr>)
                   else finish_spawn p t name prio cap par l gs startup (s\<lparr>mm := m\<rparr>)))"

section \<open>Bundled modules\<close>

abbreviation FND_STARTUP_MAGIC :: u32 where "FND_STARTUP_MAGIC \<equiv> 0x464E4453"
abbreviation FND_STARTUP_VERSION :: u32 where "FND_STARTUP_VERSION \<equiv> 2"

definition module_startup :: "u8 list option \<Rightarrow> u8 list" where
  "module_startup name =
     (let n = (case name of None \<Rightarrow> [] | Some c \<Rightarrow> take 15 c);
          name_off = 44; cwd_off = name_off + length n + 1; len = (cwd_off + 2 + 3) div 4 * 4;
          bytes = bytes_of_words [FND_STARTUP_MAGIC, FND_STARTUP_VERSION, of_nat len, 1, 40, of_nat cwd_off, 0, of_nat len, 0, 0,
              of_nat name_off] @ n @ [0] @ str ''/''
      in bytes @ replicate (len - length bytes) 0)"

definition fnd_proc_spawn_module ::
  "machine \<Rightarrow> u8 list option \<Rightarrow> nat \<Rightarrow> u32 \<Rightarrow> data \<Rightarrow> u32 \<Rightarrow> wax_library list \<Rightarrow> grant list \<Rightarrow> kstate \<Rightarrow> (int \<times> kstate) option" where
  "fnd_proc_spawn_module M name prio cap img fsize libs gs s =
     (if cap AND NOT CAP_ALL \<noteq> 0 then Some (FND_E_BAD_ARG, s)
      else spawn_image M name prio cap 0 img fsize libs gs (module_startup name) s)"

definition fnd_proc_spawn_wax ::
  "machine \<Rightarrow> u8 list option \<Rightarrow> nat \<Rightarrow> data \<Rightarrow> u32 \<Rightarrow> wax_library list \<Rightarrow> grant list \<Rightarrow> kstate \<Rightarrow> (int \<times> kstate) option" where
  "fnd_proc_spawn_wax M name prio img fsize libs gs s =
     spawn_image M name prio 0 0 img fsize libs gs (module_startup name) s"

section \<open>The system call\<close>

abbreviation FND_SPAWN_MAX_LIBS :: u32 where "FND_SPAWN_MAX_LIBS \<equiv> 16"
abbreviation FND_SPAWN_MAX_HANDLES :: u32 where "FND_SPAWN_MAX_HANDLES \<equiv> 16"
abbreviation FND_SPAWN_IMAGE_MAX :: u32 where "FND_SPAWN_IMAGE_MAX \<equiv> 0x300000"

record spawn_args =
  sp_image :: u32
  sp_image_len :: u32
  sp_startup :: u32
  sp_startup_len :: u32
  sp_handles :: u32
  sp_handle_count :: u32
  sp_priority :: u32
  sp_caps :: u32
  sp_grants :: u32
  sp_grant_count :: u32
  sp_name :: u32
  sp_libs :: u32

definition spawn_args_of :: "u32 list \<Rightarrow> spawn_args" where
  "spawn_args_of w =
     \<lparr>sp_image = w ! 0, sp_image_len = w ! 1, sp_startup = w ! 2, sp_startup_len = w ! 3, sp_handles = w ! 4,
      sp_handle_count = w ! 5, sp_priority = w ! 6, sp_caps = w ! 7, sp_grants = w ! 8, sp_grant_count = w ! 9,
      sp_name = w ! 10, sp_libs = w ! 11\<rparr>"

text \<open>The checks on the argument block, before and after the ranges it names.\<close>

definition spawn_args_status :: "spawn_args \<Rightarrow> int" where
  "spawn_args_status a =
     (if sp_libs a AND 3 \<noteq> 0 \<or> of_nat PRIO_APP < sp_priority a \<or> sp_caps a AND NOT CAP_ALL \<noteq> 0 \<or>
         (sp_handles a OR sp_grants a) AND 3 \<noteq> 0 then FND_E_BAD_ARG
      else if FND_SPAWN_IMAGE_MAX < sp_image_len a \<or> FND_STARTUP_MAX < sp_startup_len a \<or>
              FND_SPAWN_MAX_HANDLES < sp_handle_count a \<or> of_nat FND_MAX_GRANTS < sp_grant_count a then FND_E_LIMIT
      else FND_OK)"

definition spawn_denied :: "proc \<Rightarrow> spawn_args \<Rightarrow> bool" where
  "spawn_denied c a \<longleftrightarrow>
     sp_caps a AND NOT (caps c) \<noteq> 0 \<or>
     (sp_priority a < of_nat (ppriority c) \<and> caps c AND CAP_PRIO = 0) \<or>
     (sp_grant_count a \<noteq> 0 \<and> caps c AND CAP_MMIO = 0)"

fun ranges_ok :: "machine \<Rightarrow> nat \<Rightarrow> (u32 \<times> u32) list \<Rightarrow> kstate \<Rightarrow> bool \<times> kstate" where
  "ranges_ok M p [] s = (True, s)"
| "ranges_ok M p ((a, len) # rs) s =
     (let (ok, s) = range_ok M p a len PERM_R s in if ok then ranges_ok M p rs s else (False, s))"

definition read_handles :: "nat \<Rightarrow> spawn_args \<Rightarrow> kstate \<Rightarrow> u32 list" where
  "read_handles p a s = user_words p (sp_handles a) (unat (sp_handle_count a)) s"

definition read_grants :: "nat \<Rightarrow> spawn_args \<Rightarrow> kstate \<Rightarrow> grant list" where
  "read_grants p a s =
     map (\<lambda>i. let g = user_words p (sp_grants a + 12 * of_nat i) 3 s in
           \<lparr>g_start = g ! 0, g_end = g ! 1, g_perm = g ! 2\<rparr>) [0..<unat (sp_grant_count a)]"

text \<open>The user's checks up to the library list: the name, the handles and the grants.\<close>

definition spawn_inputs ::
  "machine \<Rightarrow> nat \<Rightarrow> spawn_args \<Rightarrow> kstate \<Rightarrow> int \<times> (u8 list \<times> u32 list \<times> grant list) \<times> kstate" where
  "spawn_inputs M p a s =
     (let none = ([], [], []) in
      if spawn_args_status a \<noteq> FND_OK then (spawn_args_status a, none, s)
      else let (ok, s) = ranges_ok M p [(sp_image a, sp_image_len a), (sp_startup a, sp_startup_len a),
             (sp_handles a, 4 * sp_handle_count a), (sp_grants a, 12 * sp_grant_count a)] s in
        if \<not> ok then (FND_E_ACCESS, none, s)
        else if spawn_denied (procs s p) a then (FND_E_ACCESS, none, s)
        else let (status, name, s) = read_chars M p (sp_name a) 16 s in
          if status \<noteq> FND_OK then (status, none, s)
          else let hs = read_handles p a s in
            if list_ex (\<lambda>h. entry s p h = H_NONE) hs then (FND_E_BAD_HANDLE, none, s)
            else if handle_free_count s p = 0 then (FND_E_LIMIT, none, s)
            else (FND_OK, (name, hs, read_grants p a s), s))"

text \<open>The libraries: user address, staging address and length of each, in the room left behind the image.\<close>

definition align4 :: "u32 \<Rightarrow> u32" where
  "align4 a = (a + 3) AND NOT 3"

fun place_libs :: "machine \<Rightarrow> nat \<Rightarrow> (u32 \<times> u32) list \<Rightarrow> u32 \<Rightarrow> kstate \<Rightarrow> int \<times> (u32 \<times> u32 \<times> u32) list \<times> kstate" where
  "place_libs M p [] at s = (FND_OK, [], s)"
| "place_libs M p ((src, len) # ls) at s =
     (let (ok, s) = range_ok M p src len PERM_R s in
      if \<not> ok then (FND_E_ACCESS, [], s)
      else if STAGING_END - at < len then (FND_E_LIMIT, [], s)
      else let (status, rest, s) = place_libs M p ls (align4 (at + len)) s in (status, (src, at, len) # rest, s))"

definition spawn_libs :: "machine \<Rightarrow> nat \<Rightarrow> spawn_args \<Rightarrow> kstate \<Rightarrow> int \<times> (u32 \<times> u32 \<times> u32) list \<times> kstate" where
  "spawn_libs M p a s =
     (if sp_libs a = 0 then (FND_OK, [], s)
      else let (ok, s) = range_ok M p (sp_libs a) 8 PERM_R s in
        if \<not> ok then (FND_E_ACCESS, [], s)
        else let hd = user_words p (sp_libs a) 2 s; count = hd ! 0 in
          if FND_SPAWN_MAX_LIBS < count \<or> hd ! 1 \<noteq> 0 then (FND_E_BAD_ARG, [], s)
          else let (ok, s) = range_ok M p (sp_libs a + 8) (8 * count) PERM_R s in
            if \<not> ok then (FND_E_ACCESS, [], s)
            else
              let ws = user_words p (sp_libs a + 8) (2 * unat count) s;
                  ls = map (\<lambda>i. (ws ! (2 * i), ws ! (2 * i + 1))) [0..<unat count]
              in place_libs M p ls (align4 (STAGING + sp_image_len a)) s)"

definition stage :: "nat \<Rightarrow> u32 \<Rightarrow> u32 \<Rightarrow> u32 \<Rightarrow> mm_state \<Rightarrow> mm_state" where
  "stage p dst src len m =
     (if mm_vm m then mm_vm_copy_from dst p src len m else m\<lparr>ram := kmem_copy (ram m) dst src len\<rparr>)"

definition staged :: "mm_state \<Rightarrow> u32 \<Rightarrow> u32 \<Rightarrow> data" where
  "staged m at len = Some (load_bytes (ram m) at (unat len), at)"

definition proc_spawn :: "machine \<Rightarrow> nat \<Rightarrow> u32 \<Rightarrow> kstate \<Rightarrow> (int \<times> kstate) option" where
  "proc_spawn M c addr s =
     (let (status, s) = user_struct M c addr 48 PERM_R s in
      if status \<noteq> FND_OK then Some (status, s)
      else let a = spawn_args_of (user_words c addr 12 s); (status, (name, hs, gs), s) = spawn_inputs M c a s in
        if status \<noteq> FND_OK then Some (status, s)
        else let (status, libs, s) = spawn_libs M c a s in
          if status \<noteq> FND_OK then Some (status, s)
          else
            let s = upd_mm (fold (\<lambda>(src, at, len). stage c at src len) libs) s;
                s = upd_mm (stage c STAGING (sp_image a) (sp_image_len a)) s;
                startup = mm_copy_from_user c (sp_startup a) (sp_startup_len a) (mm s)
            in case spawn_image M (Some name) (unat (sp_priority a)) (sp_caps a) (pid (procs s c))
                   (staged (mm s) STAGING (sp_image_len a)) (sp_image_len a)
                   (map (\<lambda>(src, at, len). (staged (mm s) at len, len)) libs) gs startup s of
                 None \<Rightarrow> None
               | Some (n, s) \<Rightarrow>
                   if n < 0 then Some (n, s)
                   else case fnd_proc_get s (word_of_int n) of None \<Rightarrow> None
                     | Some child \<Rightarrow>
                         let s = fold (\<lambda>h s. snd (handle_dup_into c h child s)) hs s
                         in Some (handle_add c (H_PROCESS child) s))"

end
