(* ===== verification/Proc_Calls.thy ===== *)
theory Proc_Calls
  imports Spawn
begin

text \<open>
  The remaining process calls of \<open>foundation/kernel/proc.c\<close>: fork, the startup block, the heap and
  the system information.
\<close>

section \<open>Fork\<close>

definition has_mmio :: "kstate \<Rightarrow> nat \<Rightarrow> bool" where
  "has_mmio s p = list_ex (\<lambda>i. mmio (regions (mprocs (mm s) p) i)) [0..<region_count (mprocs (mm s) p)]"

definition has_thread_handle :: "kstate \<Rightarrow> nat \<Rightarrow> bool" where
  "has_thread_handle s p = list_ex (\<lambda>i. is_thread_handle (handles (procs s p) i)) [0..<MAX_HANDLES]"

text \<open>What the child gets of its parent's record.\<close>

definition inherit :: "nat \<Rightarrow> nat \<Rightarrow> kstate \<Rightarrow> kstate" where
  "inherit p c s =
     (let y = procs s p; q = mprocs (mm s) p; n = startup_len y;
          s = upd_proc c (\<lambda>x. x\<lparr>parent := pid y, caps := caps y, heap_start := heap_start y, heap_end := heap_end y,
                heap_limit := heap_limit y, heap_region := heap_region y, startup_len := n\<rparr>) s;
          s = upd_mm (set_regions c (map (regions q) [0..<region_count q])) s
      in s\<lparr>startup_blocks := (startup_blocks s)(c := take n (startup_blocks s p) @ drop n (startup_blocks s c))\<rparr>)"

definition c_name :: "u8 list \<Rightarrow> u8 list" where
  "c_name bs = takeWhile (\<lambda>c. c \<noteq> 0) bs"

definition proc_fork :: "nat \<Rightarrow> kstate \<Rightarrow> int \<times> kstate" where
  "proc_fork t s =
     (let p = tproc (threads s t) in
      if \<not> mm_vm (mm s) then (FND_E_UNSUPPORTED, s)
      else if nthreads (procs s p) \<noteq> 1 then (FND_E_BUSY, s)
      else if has_mmio s p \<or> has_thread_handle s p then (FND_E_ACCESS, s)
      else if handle_free_count s p = 0 then (FND_E_LIMIT, s)
      else case claim_record s of
        (None, s) \<Rightarrow> (FND_E_LIMIT, s)
      | (Some c, s) \<Rightarrow>
          (case sched_alloc_thread s of
             (None, s) \<Rightarrow> (FND_E_LIMIT, s)
           | (Some u, s) \<Rightarrow>
               let (status, m) = mm_vm_clone c p (mm s); s = s\<lparr>mm := m\<rparr> in
               if status \<noteq> FND_OK then (status, s)
               else
                 let s = inherit p c s; f = frame (threads s t);
                     (_, s) = start_proc c u (Some (c_name (pname (procs s p)))) (ppriority (procs s p))
                       (epc f) (regs f 28) (regs f 30) s;
                     s = upd_thread u (\<lambda>x. x\<lparr>frame := f\<lparr>regs := (regs f)(1 := 0)\<rparr>\<rparr>) s;
                     s = handle_clone p c s
                 in handle_add p (H_PROCESS c) s))"

section \<open>The startup block\<close>

definition proc_startup :: "machine \<Rightarrow> nat \<Rightarrow> u32 \<Rightarrow> u32 \<Rightarrow> kstate \<Rightarrow> int \<times> kstate" where
  "proc_startup M p buf cap s =
     (let n = startup_len (procs s p); cap = (if of_nat n < cap then of_nat n else cap);
          (ok, s) = range_ok M p buf cap PERM_W s
      in if \<not> ok then (FND_E_ACCESS, s)
         else (int n, upd_mm (mm_copy_to_user p buf (take (unat cap) (startup_blocks s p))) s))"

section \<open>Growing the heap\<close>

text \<open>Whether the heap may end at \<open>old + delta\<close>, with the arena extended where it has to be.\<close>

definition heap_room :: "nat \<Rightarrow> u32 \<Rightarrow> kstate \<Rightarrow> bool \<times> kstate" where
  "heap_room p delta s =
     (let y = procs s p; old = heap_end y; hi = arena_hi (mprocs (mm s) p) in
      if heap_limit y = 0 \<or> heap_limit y < old then (False, s)
      else if delta \<le> heap_limit y - old then (True, s)
      else
        let want = page_up (old + delta) in
        if mm_vm (mm s) \<or> heap_limit y \<noteq> hi \<or> want < old then (False, s)
        else let (done, m) = mm_arena_extend hi want (mm s) in
          if \<not> done then (False, s\<lparr>mm := m\<rparr>)
          else (True, upd_proc p (\<lambda>y. y\<lparr>heap_limit := want\<rparr>)
                        (s\<lparr>mm := upd_mproc p (\<lambda>q. q\<lparr>arena_hi := want\<rparr>) m\<rparr>)))"

text \<open>The region of the heap, created at the first growth.\<close>

definition heap_region_of :: "nat \<Rightarrow> u32 \<Rightarrow> kstate \<Rightarrow> nat option \<times> kstate" where
  "heap_region_of p old s =
     (let n = region_count (mprocs (mm s) p) in
      if heap_region (procs s p) \<noteq> FND_PROC_REGIONS then (Some (heap_region (procs s p)), s)
      else if n = FND_REGIONS then (None, s)
      else (Some n, upd_proc p (\<lambda>y. y\<lparr>heap_region := n\<rparr>)
              (upd_mm (upd_mproc p (\<lambda>q. q\<lparr>region_count := n + 1, regions := (regions q)
                 (n := \<lparr>rstart = old, rend = old, rflags = PERM_R OR PERM_W, owned = True, mmio = False\<rparr>)\<rparr>)) s)))"

text \<open>The bytes up to the next word, then whole words.\<close>

definition zero_heap :: "u32 \<Rightarrow> u32 \<Rightarrow> ram \<Rightarrow> ram" where
  "zero_heap from stop m =
     (let k = align_count from in
      kmem_zero (store_bytes m from (replicate k 0)) (from + of_nat k) stop)"

definition proc_mem_grow :: "machine \<Rightarrow> nat \<Rightarrow> u32 \<Rightarrow> kstate \<Rightarrow> int \<times> kstate" where
  "proc_mem_grow M p delta s =
     (let old = heap_end (procs s p) in
      if delta AND 7 \<noteq> 0 \<or> sint delta < 0 then (FND_E_BAD_ARG, s)
      else if delta = 0 then (sint old, s)
      else let (ok, s) = heap_room p delta s in
        if \<not> ok then (FND_E_NO_MEMORY, s)
        else if mm_vm (mm s) then
          let (status, m) = mm_vm_map p old (old + delta) (PERM_R OR PERM_W) (mm s); s = s\<lparr>mm := m\<rparr> in
          if status \<noteq> FND_OK then (status, s)
          else (sint old, upd_mm (mm_reload p) (upd_proc p (\<lambda>y. y\<lparr>heap_end := old + delta\<rparr>) s))
        else case heap_region_of p old s of
          (None, s) \<Rightarrow> (FND_E_REGION_LIMIT, s)
        | (Some i, s) \<Rightarrow>
            let s = upd_mm (\<lambda>m. m\<lparr>ram := zero_heap (rend (regions (mprocs m p) i)) (old + delta) (ram m)\<rparr>) s;
                s = upd_proc p (\<lambda>y. y\<lparr>heap_end := old + delta\<rparr>) s;
                s = upd_mm (upd_mproc p (\<lambda>q. q\<lparr>regions := (regions q)(i := (regions q i)\<lparr>rend := old + delta\<rparr>)\<rparr>)) s
            in (sint old, upd_mm (mm_reload p) s))"

section \<open>System information\<close>

abbreviation BMC_VRAM_SIZE :: u32 where "BMC_VRAM_SIZE \<equiv> 0x80060084"
abbreviation FND_SYSINFO_CPU_PERF :: u32 where "FND_SYSINFO_CPU_PERF \<equiv> 6"

definition proc_mem_bytes :: "kstate \<Rightarrow> nat \<Rightarrow> u32" where
  "proc_mem_bytes s p =
     (if mm_vm (mm s) then mm_vm_proc_bytes (mm s) p
      else sum_list (map (\<lambda>i. let r = regions (mprocs (mm s) p) i in if owned r then rend r - rstart r else 0)
             [0..<region_count (mprocs (mm s) p)]))"

text \<open>Words at ascending offsets, cut at \<open>cap\<close>.\<close>

definition put_word :: "nat \<Rightarrow> u32 \<Rightarrow> u32 \<Rightarrow> u32 \<Rightarrow> u32 \<Rightarrow> kstate \<Rightarrow> kstate" where
  "put_word p buf cap off v s = (if off + 4 \<le> cap then upd_mm (mm_write32 p (buf + off) v) s else s)"

definition put_words_at :: "nat \<Rightarrow> u32 \<Rightarrow> u32 \<Rightarrow> u32 list \<Rightarrow> kstate \<Rightarrow> kstate" where
  "put_words_at p buf cap ws s = fold (\<lambda>(i, v). put_word p buf cap (4 * of_nat i) v) (enumerate 0 ws) s"

definition records :: "kstate \<Rightarrow> nat list" where
  "records s = filter (\<lambda>p. pstate (procs s p) \<noteq> PROC_FREE) [0..<MAX_PROCS]"

definition live_count :: "kstate \<Rightarrow> nat" where
  "live_count s = length (filter (\<lambda>p. pstate (procs s p) = PROC_LIVE) [0..<MAX_PROCS])"

definition proc_state_word :: "kstate \<Rightarrow> nat \<Rightarrow> u32" where
  "proc_state_word s p =
     (if pstate (procs s p) = PROC_EXITED then 2 else if sched_proc_runnable s p then 0 else 1)"

definition proc_words :: "kstate \<Rightarrow> nat \<Rightarrow> u32 list" where
  "proc_words s p =
     (let y = procs s p in
      [pid y, parent y, proc_state_word s p, of_nat (ppriority y), word_of_int (exit_code y),
       if pstate y = PROC_LIVE then proc_mem_bytes s p else 0, of_nat (nthreads y), fault_epc y] @
      map (word_of (pname y)) [0..<4])"

definition info_size :: "kstate \<Rightarrow> u32 \<Rightarrow> u32 option" where
  "info_size s sel =
     (let n = of_nat (length (records s)) in
      if sel = 0 then Some 32 else if sel = 1 then Some (n * 48) else if sel = 2 then Some (16 + n * 8)
      else if sel = 3 then Some 16 else if sel = 4 then Some 8
      else if sel = FND_SYSINFO_CPU_PERF then Some 64 else None)"

text \<open>The answer, and the state after the registers that it reads.\<close>

definition info_words :: "machine \<Rightarrow> nat \<Rightarrow> u32 \<Rightarrow> kstate \<Rightarrow> (u32 list \<times> kstate) option" where
  "info_words M c sel s =
     (if sel = 2 then
        let (cpu, s) = sched_cpu_snapshot M s in
        Some (cpu @ concat (map (\<lambda>p. [pid (procs s p), cpu_cycles (procs s p)]) (records s)), s)
      else if sel = 4 then Some ([pid (procs s c), parent (procs s c)], s)
      else if sel = FND_SYSINFO_CPU_PERF then sched_perf_snapshot M s
      else if sel = 3 then
        let (main, s) = io_read M BMC_MAIN_RAM_SIZE s; (vram, s) = io_read M BMC_VRAM_SIZE s;
            (pcm, s) = io_read M BMC_PCMRAM_SIZE s
        in Some ([mm_ram_bytes main, vram, pcm, 0], s)
      else if sel = 0 then
        let (main, s) = io_read M BMC_MAIN_RAM_SIZE s in
        Some ([1, 0, 100, mm_ram_bytes main,
               if mm_vm (mm s) then mm_vm_free_bytes (mm s) else mm_arena_free_bytes (mm s),
               of_nat (live_count s), boot_drive M, 0], s)
      else Some (concat (map (proc_words s) (records s)), s))"

definition proc_sys_info :: "machine \<Rightarrow> nat \<Rightarrow> u32 \<Rightarrow> u32 \<Rightarrow> u32 \<Rightarrow> kstate \<Rightarrow> (int \<times> kstate) option" where
  "proc_sys_info M c sel buf cap s =
     (if sel = 5 then Some (ipc_process_handle_pid s c buf, s)
      else case info_size s sel of None \<Rightarrow> Some (FND_E_BAD_ARG, s)
      | Some n \<Rightarrow>
          let cap = (if n < cap then n else cap) in
          if cap \<noteq> 0 \<and> buf AND 3 \<noteq> 0 then Some (FND_E_BAD_ARG, s)
          else let (ok, s) = range_ok M c buf cap PERM_W s in
            if \<not> ok then Some (FND_E_ACCESS, s)
            else case info_words M c sel s of None \<Rightarrow> None
            | Some (ws, s) \<Rightarrow> Some (sint n, put_words_at c buf cap ws s))"

end
