(* ===== verification/Trap.thy ===== *)
theory Trap
  imports Proc_Calls
begin

text \<open>
  Trap handling (\<open>foundation/kernel/trap.c\<close>): the interrupt loop, the system call table, faults, the
  panic screen and the kernel's start. The saved frame is that of the current thread, with CAUSE in
  register 0; the faulting address that \<open>cpt32_mfsr\<close> reads is an argument. A trap ends with the
  thread whose frame is resumed or with a halted machine and the code left in register 1.
\<close>

section \<open>The debug UART\<close>

abbreviation UART_DATA :: u32 where "UART_DATA \<equiv> 0x80040000"
abbreviation TIMER_PENDING :: u32 where "TIMER_PENDING \<equiv> 0x80040188"
abbreviation RTC_SECONDS_LO :: u32 where "RTC_SECONDS_LO \<equiv> 0x80040208"
abbreviation RTC_SECONDS_HI :: u32 where "RTC_SECONDS_HI \<equiv> 0x8004020C"
abbreviation CAUSE_SYSCALL :: u32 where "CAUSE_SYSCALL \<equiv> 0x80030000"
abbreviation FND_DEBUG_WRITE_MAX :: u32 where "FND_DEBUG_WRITE_MAX \<equiv> 256"

definition fnd_debug_putc :: "u8 \<Rightarrow> kstate \<Rightarrow> kstate" where
  "fnd_debug_putc c = io_write (Wr8 UART_DATA c)"

definition fnd_debug_puts :: "u8 list \<Rightarrow> kstate \<Rightarrow> kstate" where
  "fnd_debug_puts cs = fold fnd_debug_putc cs"

definition hex_digit :: "u32 \<Rightarrow> nat \<Rightarrow> u8" where
  "hex_digit v digit =
     (let nibble = drop_bit (28 - 4 * digit) v AND 0xF in
      ucast (if nibble < 10 then 0x30 + nibble else 0x41 + nibble - 10))"

definition hex :: "u32 \<Rightarrow> u8 list" where
  "hex v = map (hex_digit v) [0..<8]"

definition fnd_debug_hex :: "u32 \<Rightarrow> kstate \<Rightarrow> kstate" where
  "fnd_debug_hex v = fold fnd_debug_putc (hex v)"

section \<open>Outcomes\<close>

datatype outcome = Resume nat | Halted u32

definition halt_machine :: "u32 \<Rightarrow> kstate \<Rightarrow> outcome \<times> kstate" where
  "halt_machine code s = (Halted code, sched_timer_stop s)"

section \<open>Interrupts\<close>

text \<open>The sources that are pending and enabled; the timer and the block device are looked at again for
  an edge that was missed.\<close>

definition active_irqs :: "machine \<Rightarrow> kstate \<Rightarrow> u32 \<times> kstate" where
  "active_irqs M s =
     (let (pend, s) = io_read M IRQC_PENDING s; act = pend AND ucast (irqc_enable s) in
      if act \<noteq> 0 then (act, s)
      else let (timer, s) = io_read M TIMER_PENDING s in
        if timer AND 1 \<noteq> 0 then (push_bit IRQ_TIMER 1, s)
        else let (blk, s) = blk_pending M s in (if blk then push_bit IRQ_IDC 1 else 0, s))"

definition lowest_line :: "u32 \<Rightarrow> nat" where
  "lowest_line act = (case find (bit act) [0..<32] of None \<Rightarrow> 0 | Some n \<Rightarrow> n)"

definition run_tick_hook :: "machine \<Rightarrow> kstate \<Rightarrow> kstate" where
  "run_tick_hook M s =
     (case tick_hook M of None \<Rightarrow> s | Some f \<Rightarrow> if stop_code s = 0 then s\<lparr>stop_code := f (ticks s)\<rparr> else s)"

text \<open>One line: served and acknowledged, or left to the process that it was reported to.\<close>

definition serve_line :: "machine \<Rightarrow> nat \<Rightarrow> kstate \<Rightarrow> kstate option" where
  "serve_line M n s =
     (if n = IRQ_TIMER then Some (irqc_ack n (run_tick_hook M (sched_tick M s)))
      else if n = IRQ_IDC then map_option (irqc_ack n) (blk_irq M s)
      else let (notified, s) = ipc_irq_notify n s in
        Some (if notified then s else irqc_ack n (irqc_mask n s)))"

text \<open>The loop goes on as long as the devices raise lines, so that it is a partial function.\<close>

partial_function (option) handle_irqs :: "machine \<Rightarrow> kstate \<Rightarrow> kstate option" where
  "handle_irqs M s =
     (case active_irqs M s of (act, s) \<Rightarrow>
        if act = 0 then Some s
        else (case serve_line M (lowest_line act) s of None \<Rightarrow> None | Some s \<Rightarrow> handle_irqs M s))"

section \<open>System calls\<close>

definition debug_write :: "machine \<Rightarrow> nat \<Rightarrow> u32 \<Rightarrow> u32 \<Rightarrow> kstate \<Rightarrow> int \<times> kstate" where
  "debug_write M p buf len s =
     (let len = (if FND_DEBUG_WRITE_MAX < len then FND_DEBUG_WRITE_MAX else len);
          (ok, s) = range_ok M p buf len PERM_R s
      in if \<not> ok then (FND_E_ACCESS, s)
         else (int (unat len), fold fnd_debug_putc (mm_copy_from_user p buf len (mm s)) s))"

definition time_get :: "machine \<Rightarrow> u32 \<Rightarrow> kstate \<Rightarrow> int \<times> kstate" where
  "time_get M sel s =
     (if sel = 0 then (sint (ticks s), s)
      else if sel = 1 then (0, s)
      else if sel = 2 then (100, s)
      else if sel = 3 then (let (v, s) = io_read M RTC_SECONDS_LO s in (sint v, s))
      else if sel = 4 then (let (v, s) = io_read M RTC_SECONDS_HI s in (sint v, s))
      else (FND_E_BAD_ARG, s))"

text \<open>The table of the calls that return a result; \<open>p\<close> is the process of thread \<open>t\<close>.\<close>

definition syscall :: "machine \<Rightarrow> nat \<Rightarrow> u32 \<Rightarrow> (nat \<Rightarrow> u32) \<Rightarrow> kstate \<Rightarrow> (int \<times> kstate) option" where
  "syscall M t n r s =
     (let p = tproc (threads s t); a1 = r 1; a2 = r 2; a3 = r 3 in
      if n = 0x0B then Some (FND_OK, sched_yield s)
      else if n = 0x0C then Some (FND_OK, sched_sleep a1 s)
      else if n = 0x30 then Some (time_get M a1 s)
      else if n = 0x3F then Some (debug_write M p a1 a2 s)
      else if n = 0x00 then proc_sys_info M p a1 a2 a3 s
      else if n = 0x01 then sys_ipc_call M t a1 a2 a3 s
      else if n = 0x02 then Some (sys_ipc_recv M t a1 a2 s)
      else if n = 0x03 then Some (sys_ipc_reply M t a1 a2 s)
      else if n = 0x04 then Some (sys_ipc_reply_recv M t a1 a2 a3 (r 4) s)
      else if n = 0x05 then Some (sys_port_create p s)
      else if n = 0x06 then Some (sys_chan_create p a1 a2 s)
      else if n = 0x07 then Some (sys_handle_close M p a1 s)
      else if n = 0x08 then Some (sys_handle_dup p a1 s)
      else if n = 0x0D then Some (sys_wait M t a1 a2 a3 s)
      else if n = 0x14 then Some (proc_fork t s)
      else if n = 0x10 then proc_spawn M p a1 s
      else if n = 0x12 then sys_proc_kill M p a1 s
      else if n = 0x13 then Some (proc_startup M p a1 a2 s)
      else if n = 0x18 then Some (proc_mem_grow M p a1 s)
      else if n = 0x31 then Some (sys_svc_register M p a1 a2 s)
      else if n = 0x32 then Some (sys_svc_lookup M p a1 s)
      else if n = 0x28 then sys_blk_io M t a1 s
      else if n = 0x09 then Some (sys_thread_create M t a1 a2 a3 s)
      else if n = 0x20 then Some (sys_irq_bind p a1 a2 s)
      else if n = 0x21 then Some (sys_irq_ack p a1 s)
      else Some (FND_E_BAD_CALL, s))"

definition set_result :: "nat \<Rightarrow> int \<Rightarrow> kstate \<Rightarrow> kstate" where
  "set_result t result =
     upd_thread t (\<lambda>x. x\<lparr>frame := (frame x)\<lparr>regs := (regs (frame x))(1 := word_of_int result)\<rparr>\<rparr>)"

definition handle_syscall :: "machine \<Rightarrow> u32 \<Rightarrow> kstate \<Rightarrow> kstate option" where
  "handle_syscall M cause s =
     (let t = current s; r = regs (frame (threads s t)); n = cause AND 0xFF in
      if drop_bit 8 cause AND 0xFF \<noteq> 0 then Some (set_result t FND_E_BAD_CALL s)
      else if n = 0x0A then sys_thread_exit M t (sint (r 1)) s
      else if n = 0x11 then proc_exit M (tproc (threads s t)) (sint (r 1)) 0 s
      else case syscall M t n r s of None \<Rightarrow> None
        | Some (result, s) \<Rightarrow> Some (if tstate (threads s t) = T_RUNNING then set_result t result s else s))"

section \<open>Panic\<close>

abbreviation PANIC_COLS :: nat where "PANIC_COLS \<equiv> 80"
abbreviation PANIC_ROWS :: nat where "PANIC_ROWS \<equiv> 30"
abbreviation PANIC_VRAM :: u32 where "PANIC_VRAM \<equiv> 0x10000000"
abbreviation PANIC_FG :: u32 where "PANIC_FG \<equiv> 0x1000"
abbreviation PANIC_BG :: u32 where "PANIC_BG \<equiv> 0x2000"

text \<open>The cursor and the writes so far.\<close>

definition panic_putc :: "u8 \<Rightarrow> nat \<times> nat \<times> kstate \<Rightarrow> nat \<times> nat \<times> kstate" where
  "panic_putc c = (\<lambda>(col, row, s).
     if c = 10 then (0, row + 1, s)
     else if PANIC_COLS \<le> col \<or> PANIC_ROWS \<le> row then (col, row, s)
     else (col + 1, row, io_write (Wr8 (PANIC_VRAM + of_nat (row * PANIC_COLS + col)) c) s))"

definition panic_cause_name :: "u32 \<Rightarrow> u8 list" where
  "panic_cause_name cause =
     (let n = drop_bit 16 cause in
      str (if n = 0x8001 then ''illegal instruction'' else if n = 0x8002 then ''bus error''
           else if n = 0x8003 then ''SYSCALL in kernel'' else if n = 0x8004 then ''privileged instruction in U''
           else if n = 0x8005 then ''protection fault''
           else if cause AND 0x80000000 \<noteq> 0 then ''unknown exception'' else ''IRQ in kernel''))"

definition panic_thread :: "kstate \<Rightarrow> u8 list" where
  "panic_thread s =
     (if current s = IDLE then str ''idle or none''
      else let y = procs s (tproc (threads s (current s))) in
        str ''pid '' @ hex (pid y) @ str '' '' @ takeWhile (\<lambda>c. c \<noteq> 0) (take 15 (pname y)))"

definition panic_register :: "ctx_frame \<Rightarrow> nat \<Rightarrow> u8 list" where
  "panic_register f n =
     [if (n - 1) mod 4 = 0 then 10 else 0x20] @ str ''R'' @ [0x30 + of_nat (n div 10), 0x30 + of_nat (n mod 10)] @
     str ''='' @ hex (regs f n)"

definition panic_context :: "ctx_frame option \<Rightarrow> u8 list" where
  "panic_context saved =
     (case saved of None \<Rightarrow> []
      | Some f \<Rightarrow> [10] @ str ''last saved context: epc='' @ hex (epc f) @ str '' status='' @ hex (cstatus f) @
          concat (map (panic_register f) [1..<32]))"

definition panic_text :: "u32 \<Rightarrow> u32 \<Rightarrow> ctx_frame option \<Rightarrow> kstate \<Rightarrow> u8 list" where
  "panic_text cause pc saved s =
     str ''Foundation: kernel panic'' @ [10] @ str ''cause='' @ hex cause @ str '' ('' @ panic_cause_name cause @
     str '')'' @ [10] @ str ''epc='' @ hex pc @ str '' ticks='' @ hex (ticks s) @ [10] @ str ''thread: '' @
     panic_thread s @ panic_context saved"

definition panic_modes :: "io_event list" where
  "panic_modes =
     [Wr8 0x80000000 1, Wr8 0x80000001 1, Wr8 0x80000004 0, Wr8 0x8000F00B 0, Wr8 0x8000F000 0, Wr8 0x8000F003 1,
      Wr8 0x8000F007 0, Wr8 0x8000F00C 0, Wr8 0x8000F00D 0, Wr8 0x8000F00E 0, Wr8 0x8000F00F 0]"

definition panic_clear :: "nat \<Rightarrow> io_event list" where
  "panic_clear i =
     [Wr8 (PANIC_VRAM + of_nat i) 0x20, Wr8 (PANIC_VRAM + PANIC_FG + of_nat i) 0x3F,
      Wr8 (PANIC_VRAM + PANIC_BG + of_nat i) 0]"

definition panic_screen :: "u32 \<Rightarrow> u32 \<Rightarrow> ctx_frame option \<Rightarrow> kstate \<Rightarrow> kstate" where
  "panic_screen cause pc saved s =
     (let text = panic_text cause pc saved s;
          s = fold io_write (panic_modes @ concat (map panic_clear [0..<PANIC_COLS * PANIC_ROWS])) s
      in snd (snd (fold panic_putc text (0, 0, s))))"

text \<open>\<open>saved\<close> is the context of the last trap, which the entry stub keeps.\<close>

definition kernel_panic :: "u32 \<Rightarrow> u32 \<Rightarrow> ctx_frame option \<Rightarrow> kstate \<Rightarrow> outcome \<times> kstate" where
  "kernel_panic cause pc saved s =
     (let s = sched_timer_stop s;
          s = (if panic_entered s then s
               else fold fnd_debug_putc ([13, 10] @ str ''Foundation: kernel panic cause='' @ hex cause @ str '' epc='' @
                      hex pc @ [13, 10]) (panic_screen cause pc saved (s\<lparr>panic_entered := True\<rparr>)))
      in (Halted (0x200 OR (drop_bit 16 cause AND 0xFF)), s))"

section \<open>The trap\<close>

text \<open>A fault in user code: a store to a shared page is retried, anything else ends the process.\<close>

definition user_fault :: "machine \<Rightarrow> u32 \<Rightarrow> u32 \<Rightarrow> kstate \<Rightarrow> kstate option" where
  "user_fault M vfault cause s =
     (let t = current s; p = tproc (threads s t);
          (status, m) = (if mm_vm (mm s) \<and> cause = 0x8006000A then mm_vm_cow p vfault (mm s) else (FND_E_ACCESS, mm s));
          s = s\<lparr>mm := m\<rparr>
      in if status = FND_OK then Some s else proc_exit M p (sint cause) (epc (frame (threads s t))) s)"

definition leave_trap :: "machine \<Rightarrow> kstate \<Rightarrow> (outcome \<times> kstate) option" where
  "leave_trap M s =
     (if stop_code s \<noteq> 0 then Some (halt_machine (stop_code s) s)
      else map_option (\<lambda>(n, s). (Resume n, sched_cpu_leave M s)) (sched_next s))"

definition kernel_trap :: "machine \<Rightarrow> u32 \<Rightarrow> kstate \<Rightarrow> (outcome \<times> kstate) option" where
  "kernel_trap M vfault s =
     (let s = sched_cpu_enter M s; f = frame (threads s (current s)); cause = regs f 0 in
      if cause AND 0x80000000 = 0 then Option.bind (handle_irqs M s) (leave_trap M)
      else if cstatus f AND STATUS_PU = 0 then Some (kernel_panic cause (epc f) (Some f) s)
      else if cause AND 0xFFFF0000 = CAUSE_SYSCALL then Option.bind (handle_syscall M cause s) (leave_trap M)
      else Option.bind (user_fault M vfault cause s) (leave_trap M))"

definition fnd_kernel_run :: "machine \<Rightarrow> kstate \<Rightarrow> (outcome \<times> kstate) option" where
  "fnd_kernel_run M s =
     (let s = sched_timer_start M (idle_stack M) (idle_code M) False (kernel_mm_init M s) in
      map_option (\<lambda>(n, s). (Resume n, sched_cpu_leave M s)) (sched_next s))"

section \<open>Bundled modules\<close>

text \<open>\<open>foundation/kernel/fndboot.c\<close>: the boot image lies in memory at \<open>boot\<close>.\<close>

abbreviation FNDBOOT_MAGIC :: u32 where "FNDBOOT_MAGIC \<equiv> 0x464E4442"
abbreviation FNDBOOT_HEADER :: u32 where "FNDBOOT_HEADER \<equiv> 64"
abbreviation FNDBOOT_ENTRY :: u32 where "FNDBOOT_ENTRY \<equiv> 48"
abbreviation FNDBOOT_GRANT :: u32 where "FNDBOOT_GRANT \<equiv> 12"
abbreviation FNDBOOT_MAX_SIZE :: u32 where "FNDBOOT_MAX_SIZE \<equiv> 0x00200000"

definition span_ok :: "u32 \<Rightarrow> u32 \<Rightarrow> u32 \<Rightarrow> bool" where
  "span_ok n off len \<longleftrightarrow> off AND 3 = 0 \<and> off \<le> n \<and> len \<le> n - off"

definition entry_at :: "ram \<Rightarrow> u32 \<Rightarrow> nat \<Rightarrow> u32" where
  "entry_at m boot i = boot + ld32 m (boot + 32) + of_nat i * FNDBOOT_ENTRY"

definition boot_entry_ok :: "ram \<Rightarrow> u32 \<Rightarrow> u32 \<Rightarrow> bool" where
  "boot_entry_ok m n e \<longleftrightarrow>
     (let grants = ld32 m (e + 20) in
      span_ok n (ld32 m e) (ld32 m (e + 4)) \<and> ld32 m (e + 8) \<le> of_nat PRIO_IDLE \<and> grants \<le> of_nat FND_MAX_GRANTS \<and>
      (grants = 0 \<or> span_ok n (ld32 m (e + 16)) (grants * FNDBOOT_GRANT)) \<and>
      ld32 m (e + 24) = 0 \<and> ld32 m (e + 28) = 0 \<and> m (e + 32) \<noteq> 0 \<and>
      list_ex (\<lambda>k. m (e + of_nat k) = 0) [32..<48])"

definition fnd_boot_check :: "ram \<Rightarrow> u32 \<Rightarrow> int" where
  "fnd_boot_check m boot =
     (let n = ld32 m (boot + 8); count = ld32 m (boot + 28); table = ld32 m (boot + 32) in
      if boot AND 3 \<noteq> 0 then FND_E_BAD_ARG
      else if ld32 m boot \<noteq> FNDBOOT_MAGIC \<or> ld32 m (boot + 4) \<noteq> 1 \<or> n < FNDBOOT_HEADER \<or> FNDBOOT_MAX_SIZE < n
      then FND_E_FORMAT
      else if list_ex (\<lambda>off. ld32 m (boot + off) \<noteq> 0) [36, 40, 44, 48, 52, 56, 60] then FND_E_FORMAT
      else if count = 0 \<or> of_nat MAX_PROCS < count \<or> \<not> span_ok n table (count * FNDBOOT_ENTRY) then FND_E_FORMAT
      else if \<not> list_all (\<lambda>i. boot_entry_ok m n (entry_at m boot i)) [0..<unat count] then FND_E_FORMAT
      else sint count)"

definition boot_grants :: "ram \<Rightarrow> u32 \<Rightarrow> u32 \<Rightarrow> grant list" where
  "boot_grants m boot e =
     map (\<lambda>i. let g = boot + ld32 m (e + 16) + 12 * of_nat i in
           \<lparr>g_start = ld32 m g, g_end = ld32 m (g + 4), g_perm = ld32 m (g + 8)\<rparr>) [0..<unat (ld32 m (e + 20))]"

text \<open>Nothing reads more than 15 bytes of the name.\<close>

definition fnd_boot_spawn :: "machine \<Rightarrow> u32 \<Rightarrow> nat \<Rightarrow> wax_library list \<Rightarrow> kstate \<Rightarrow> (int \<times> kstate) option" where
  "fnd_boot_spawn M boot index libs s =
     (let m = ram (mm s); e = entry_at m boot index; at = boot + ld32 m e; len = ld32 m (e + 4) in
      fnd_proc_spawn_module M (Some (c_name (load_bytes m (e + 32) 15))) (unat (ld32 m (e + 8))) (ld32 m (e + 12))
        (Some (load_bytes m at (unat len), at)) len libs (boot_grants m boot e) s)"

end
