(* ===== verification/Spawn_Checks.thy ===== *)
theory Spawn_Checks
  imports Trap
begin

text \<open>
  Facts about the checks before a launch: MMIO grants (\<open>check_grants\<close>), the startup block of a
  bundled module (\<open>module_startup\<close>) and the boot image (\<open>fnd_boot_check\<close>).
\<close>

section \<open>Grants\<close>








section \<open>The startup block of a module\<close>

lemma word_of_append: "4 * i + 3 < length bs \<Longrightarrow> word_of (bs @ cs) i = word_of bs i"
  by (simp add: word_of_def byte_or_0_def nth_append)

text \<open>The startup block of a bundled module fits the 64 bytes that its callers reserve, is a whole
  number of words, and is well formed: magic, version and size are right, the one argument is the module's name
  cut at 15 bytes, and the working directory is \<open>/\<close>, both with their final NUL inside the block.\<close>

theorem module_startup_fits:
  "let b = module_startup name; n = (case name of None \<Rightarrow> [] | Some c \<Rightarrow> take 15 c); cwd = unat (word_of b 5) in
   length b \<le> 64 \<and> length b mod 4 = 0 \<and> length b \<le> unat FND_STARTUP_MAX \<and>
   word_of b 0 = FND_STARTUP_MAGIC \<and> word_of b 1 = FND_STARTUP_VERSION \<and> word_of b 2 = of_nat (length b) \<and>
   word_of b 3 = 1 \<and> word_of b (unat (word_of b 4) div 4) = 44 \<and>
   take (length n + 1) (drop 44 b) = n @ [0] \<and> take 2 (drop cwd b) = [0x2F, 0]"
proof -
  define n where "n = (case name of None \<Rightarrow> [] | Some c \<Rightarrow> take 15 c)"
  define len where "len = (44 + length n + 1 + 2 + 3) div 4 * 4"
  define ws where "ws = [FND_STARTUP_MAGIC, FND_STARTUP_VERSION, of_nat len, 1, 40, of_nat (44 + length n + 1), 0, of_nat len, 0, 0, 44]"
  define pad where "pad = replicate (len - (46 + length n)) (0::u8)"
  have n: "length n \<le> 15" by (simp add: n_def split: option.split)
  then have len: "len \<le> 64" "46 + length n < len" "len mod 4 = 0" by (simp_all add: len_def)
  have lw: "length ws = 11" by (simp add: ws_def)
  have slash: "str ''/'' = [0x2F]" by code_simp
  have b: "module_startup name = bytes_of_words ws @ n @ [0, 0x2F] @ pad"
    using slash lw by (simp add: module_startup_def n_def [symmetric] Let_def len_def ws_def pad_def)
  have lb: "length (module_startup name) = len" using len lw by (simp add: b pad_def)
  have w: "word_of (module_startup name) i = ws ! i" if "i < 11" for i
    using that lw by (simp add: b word_of_append word_of_bytes_of_words)
  obtain k where k: "len - (46 + length n) = Suc k" using len by (metis Suc_diff_Suc)
  have d: "drop 44 (module_startup name) = n @ [0, 0x2F] @ pad" using lw by (simp add: b)
  have c: "unat (word_of (module_startup name) 5) = 45 + length n"
    using n by (simp add: w ws_def unat_of_nat unat_word_ariths)
  have "drop (45 + length n) (module_startup name) = [0x2F] @ pad" 
    using lw by (simp add: b)
  then have "take 2 (drop (45 + length n) (module_startup name)) = [0x2F, 0]" by (simp add: pad_def k)
  moreover have "take (length n + 1) (drop 44 (module_startup name)) = n @ [0]" by (simp add: d)
  ultimately show ?thesis
    using len lb c w [of 0] w [of 1] w [of 2] w [of 3] w [of 4] w [of 10]
    by (simp add: Let_def n_def [symmetric] ws_def)
qed

lemma sint_small:
  assumes "unat (a::u32) < 2 ^ 31"
  shows "sint a = int (unat a)"
proof -
  have "a < 0x80000000" using assms by (simp add: word_less_nat_alt)
  then have "uint a < uint (0x80000000 :: u32)" by (simp only: word_less_def)
  then have "sint a = uint a" using signed_take_bit_int_eq_self [of 31 "uint a"] by (simp add: sint_uint order.trans [OF _ uint_ge_0])
  then show ?thesis by simp
qed

section \<open>The boot image\<close>

lemma span_ok_bound:
  assumes "span_ok n off len"
  shows "unat off + unat len \<le> unat n"
proof -
  have "off \<le> n" "len \<le> n - off" using assms by (simp_all add: span_ok_def)
  then show ?thesis using unat_sub [of off n] by (simp add: word_le_nat_alt)
qed

text \<open>C40: A boot image that passes \<open>fnd_boot_check\<close> can be started without reading outside it: for each of its
  modules the table entry, the image and the grant list lie inside the checked size, there are at most eight grants,
  and the name ends with a NUL inside the entry.\<close>

theorem boot_check_sound:
  assumes "fnd_boot_check m boot = count" "0 \<le> count" "i < nat count"
  defines "e \<equiv> entry_at m boot i" and "n \<equiv> unat (ld32 m (boot + 8))"
  shows "nat count \<le> MAX_PROCS \<and> n \<le> 0x200000 \<and> unat (e - boot) + 48 \<le> n \<and>
    unat (ld32 m e) + unat (ld32 m (e + 4)) \<le> n \<and> ld32 m (e + 20) \<le> 8 \<and>
    (ld32 m (e + 20) \<noteq> 0 \<longrightarrow> unat (ld32 m (e + 16)) + 12 * unat (ld32 m (e + 20)) \<le> n) \<and>
    (\<exists>k<16. 0 < k \<and> m (e + 32 + of_nat k) = 0 \<and> m (e + 32) \<noteq> 0)"
proof -
  let ?n = "ld32 m (boot + 8)" and ?c = "ld32 m (boot + 28)" and ?t = "ld32 m (boot + 32)"
  have ok: "\<not> FNDBOOT_MAX_SIZE < ?n" "?c \<le> 10" "span_ok ?n ?t (?c * FNDBOOT_ENTRY)"
    "list_all (\<lambda>i. boot_entry_ok m ?n (entry_at m boot i)) [0..<unat ?c]" "count = sint ?c"
    using assms(1,2) by (auto simp: fnd_boot_check_def Let_def not_less split: if_splits)
  have c: "unat ?c \<le> 10" using ok(2) by (simp add: word_le_nat_alt)
  have "sint ?c = int (unat ?c)"
    by (rule sint_small) (use c in simp)
  then have i: "i < unat ?c" "nat count = unat ?c" using assms(3) ok(5) by simp_all
  have entry: "boot_entry_ok m ?n e" using ok(4) i by (simp add: list_all_iff e_def)
  have n: "n \<le> 0x200000" using ok(1) by (simp add: n_def word_le_nat_alt not_less)
  have "unat (?c * FNDBOOT_ENTRY) = unat ?c * 48" using c by (simp add: unat_word_ariths)
  then have t: "unat ?t + unat ?c * 48 \<le> n" using span_ok_bound [OF ok(3)] by (simp add: n_def)
  have "unat (e - boot) = unat ?t + i * 48"
    using t i n by (simp add: e_def entry_at_def unat_word_ariths unat_of_nat)
  then have at: "unat (e - boot) + 48 \<le> n" using t i by (simp add: algebra_simps)
  let ?g = "ld32 m (e + 20)"
  have g: "span_ok ?n (ld32 m e) (ld32 m (e + 4))" "?g \<le> of_nat FND_MAX_GRANTS" "?g = 0 \<or> span_ok ?n (ld32 m (e + 16)) (?g * FNDBOOT_GRANT)"
    "m (e + 32) \<noteq> 0" "list_ex (\<lambda>k. m (e + of_nat k) = 0) [32..<48]"
    using entry unfolding boot_entry_ok_def Let_def by blast+
  have g8: "?g \<le> 8" using g(2) by simp
  then have "unat (?g * FNDBOOT_GRANT) = 12 * unat ?g" by (simp add: word_le_nat_alt unat_word_ariths)
  then have gr: "?g \<noteq> 0 \<longrightarrow> unat (ld32 m (e + 16)) + 12 * unat ?g \<le> n"
    using g(3) span_ok_bound [of ?n "ld32 m (e + 16)" "?g * FNDBOOT_GRANT"] by (auto simp: n_def)
  obtain j where "j \<in> set [32..<48]" and j: "m (e + of_nat j) = 0" using g(5) unfolding list_ex_iff by blast
  then have lj: "32 \<le> j" "j < 48" by (simp_all only: set_upt atLeastLessThan_iff)
  then have "e + of_nat j = e + 32 + of_nat (j - 32)" by (simp add: of_nat_diff)
  moreover have "j \<noteq> 32" using j g(4) by auto
  ultimately have "\<exists>k<16. 0 < k \<and> m (e + 32 + of_nat k) = 0 \<and> m (e + 32) \<noteq> 0"
    using j lj g(4) by (intro exI [of _ "j - 32"]) simp
  then show ?thesis
    using c i(2) n at gr g8 span_ok_bound [OF g(1)] unfolding n_def by simp
qed

text \<open>A boot image with one module.\<close>

definition boot_image :: "u8 list" where
  "boot_image = concat [[0x46,0x4E,0x44,0x42, 0,0,0,1, 0,0,0,116], replicate 16 0, [0,0,0,1, 0,0,0,64], replicate 28 0,
     [0,0,0,112, 0,0,0,4, 0,0,0,2], replicate 20 0, [0x61], replicate 15 0, [1,2,3,4]]"

lemma boot_image_accepted: "fnd_boot_check (rd8 boot_image) 0 = 1"
  by code_simp

theorem boot_check_sound_witness:
  "fnd_boot_check (rd8 boot_image) 0 = 1 \<and> unat (entry_at (rd8 boot_image) 0 0 - 0) + 48 \<le> unat (ld32 (rd8 boot_image) (0 + 8))"
  using boot_image_accepted boot_check_sound [OF boot_image_accepted, of 0] by simp

end
