(* ===== verification/Spawn_Facts.thy ===== *)
theory Spawn_Facts
  imports Spawn
begin

text \<open>
  Facts about launching: what a successful arena plan and grant check guarantee, the startup block
  of a module, and a heap hint that makes the arena smaller than the image.
\<close>

text \<open>A relocatable executable with a code block and a block of 16 KiB, as a function of its heap hint.\<close>

definition reloc_file :: "u8 list \<Rightarrow> u8 list" where
  "reloc_file hint = concat [
     [87,65,88,0,0,3,0,1,0,1,0,6,0,0,0,160,0,0,0,236,0,0,0,1,0,64,0,0,0,0,0,0,0,64,0,0,0,0,16,0],
     [0,0,0,160,0,0,0,2,0,0,0,24,0,0,0,0,0,0,0,0,0,0,0,16,0,0,0,0,0,0,0,0,0,0,0,24,0,0,0,0],
     [0,0,0,0,0,0,0,24,0,0,0,212,0,0,0,14,0,0,0,1,0,0,0,1,0,0,0,0,0,0,0,3,0,0,0,1,0,0,0,0],
     [0,0,0,0,0,0,0,0,0,0,0,208,0,0,0,1], hint, [0,0,0,0,0,0,0,0,0,0,0,0,0,0,0,0,0,0,0,0],
     [0,64,0,0,0,0,0,228,0,0,0,4,0,0,0,4,0,0,0,5,0,0,0,4,0,64,16,0,0,0,0,232,0,0,0,4,0,0,64,0,0,0,0,3,0,0,16,0],
     [0,64,16,0,0,97,0,102,111,117,110,100,97,116,105,111,110,0,0,0,1,2,3,4,0,64,0,0]]"

definition hint_file :: "u8 list" where
  "hint_file = reloc_file [255, 255, 224, 0]"


text \<open>A pool of 16 pages; process 1 has the pages 4 to 7.\<close>

definition hint_pool :: mm_state where
  "hint_pool = \<lparr>ram = (\<lambda>_. 0), mm_vm = False, mm_decided = True, vm_epoch = 0,
     frame_refs = (\<lambda>f. if 4 \<le> f \<and> f < 8 then 1 else 0), pool_frames = 16, free_frames = 12, next_hint = 0, active = None,
     active_regions = 0, rgn = (\<lambda>_. (0, 0, 0)), ptbr = 0, vctl_en = False, tlb_flushes = 0,
     range_cache = (\<lambda>_. \<lparr>ce_proc = None, ce_page = 0, ce_perm = 0, ce_epoch = 0\<rparr>),
     mprocs = (\<lambda>p. \<lparr>arena_lo = if p = 1 then 0x404000 else 0, arena_hi = if p = 1 then 0x408000 else 0,
       region_count = 0, regions = (\<lambda>_. \<lparr>rstart = 0, rend = 0, rflags = 0, owned = False, mmio = False\<rparr>),
       pt_root = 0, vm_pages = 0\<rparr>)\<rparr>"


lemma hint_inspect:
  "(case wax_inspect (Some hint_file) 236 of Inl _ \<Rightarrow> False
    | Inr info \<Rightarrow> i_relocatable info \<and> i_stack_size info = 0x1000 \<and> i_heap_hint info = 0xFFFFE000)"
  by code_simp

lemma hint_trial:
  "(case wax_plan no_launch (Some (hint_file, 0)) 236 [] (target_of 0xFFF000 0x8FFF000 RELOC_PROBE_BASE) of (error, l) \<Rightarrow>
     error = WAX_OK \<and> l_top l = 0x1005000 \<and> l_count l = 1 \<and> w_align (l_image l 0) = 0x1000 \<and>
     map r_start (l_regions l) = [0xFFF000, 0x1000000, 0x1001000] \<and> map r_end (l_regions l) = [0x1000000, 0x1000004, 0x1005000])"
  by code_simp

lemma hint_alloc:
  "(case mm_arena_alloc 0x4000 hint_pool of (lo, m) \<Rightarrow> lo = 0x400000)"
  by code_simp

lemma plan_arena_relocatable:
  assumes "wax_inspect (map_option fst img) fsize = Inr info" "i_relocatable info"
    and "wax_plan no_launch img fsize table
           (target_of (RELOC_PROBE_BASE - page_up (i_stack_size info))
              (RELOC_PROBE_BASE - page_up (i_stack_size info) + RELOC_WINDOW) RELOC_PROBE_BASE) = (WAX_OK, l)"
    and "reserve = page_up (if i_heap_hint info \<noteq> 0 then i_heap_hint info else DEFAULT_HEAP)"
    and "used = l_top l - (RELOC_PROBE_BASE - page_up (i_stack_size info))" "used \<le> RELOC_WINDOW - reserve"
    and "mm_arena_alloc (page_up (used + reserve)) m = (arena, m')" "arena \<noteq> 0"
    and "wax_rebase l (arena - (RELOC_PROBE_BASE - page_up (i_stack_size info))) = (WAX_OK, l')"
  shows "plan_arena p img fsize table m = (FND_OK, l', set_arena p arena (arena + page_up (used + reserve)) m')"
  using assms by (simp add: plan_arena_def plan_relocatable_def Let_def not_less)

text \<open>C38: The sum of the image's size and the heap hint wraps in \<open>plan_arena\<close>. An executable that asks
  for a heap of \<open>0xFFFFE000\<close> bytes passes every check and gets an arena of two pages less than its image: here the
  launch is planned over the first two pages of another process, which the load then overwrites.\<close>

theorem heap_hint_overflows:
  "\<exists>l m. plan_arena 0 (Some (hint_file, 0)) 236 [] hint_pool = (FND_OK, l, m) \<and>
     arena_lo (mprocs m 0) = 0x400000 \<and> arena_hi (mprocs m 0) = 0x404000 \<and> l_top l = 0x406000 \<and>
     arena_lo (mprocs m 1) = 0x404000 \<and> arena_hi (mprocs m 1) = 0x408000 \<and>
     map r_start (l_regions l) = [0x400000, 0x401000, 0x402000] \<and> map r_end (l_regions l) = [0x401000, 0x401004, 0x406000]"
proof -
  obtain info where i: "wax_inspect (Some hint_file) 236 = Inr info" "i_relocatable info" "i_stack_size info = 0x1000"
    "i_heap_hint info = 0xFFFFE000"
    using hint_inspect by (auto split: sum.splits)
  obtain l where l: "wax_plan no_launch (Some (hint_file, 0)) 236 [] (target_of 0xFFF000 0x8FFF000 RELOC_PROBE_BASE) = (WAX_OK, l)"
    "l_top l = 0x1005000" "l_count l = 1" "w_align (l_image l 0) = 0x1000"
    "map r_start (l_regions l) = [0xFFF000, 0x1000000, 0x1001000]" "map r_end (l_regions l) = [0x1000000, 0x1000004, 0x1005000]"
    using hint_trial by (auto split: prod.splits)
  obtain m where m: "mm_arena_alloc 0x4000 hint_pool = (0x400000, m)" "mprocs m = mprocs hint_pool"
    using hint_alloc by (auto split: prod.splits simp: mm_arena_alloc_def range_take_def Let_def split: option.splits if_splits)
  define l' where "l' = snd (wax_rebase l 0xFF401000)"
  have r: "wax_rebase l 0xFF401000 = (WAX_OK, l')"
    using l(3,4) by (simp add: l'_def wax_rebase_def)
  have l': "l_top l' = l_top l + 0xFF401000" "l_regions l' = map (shift_region 0xFF401000) (l_regions l)"
    using l(3,4) by (simp_all add: l'_def wax_rebase_def)
  have lo: "RELOC_PROBE_BASE - page_up 0x1000 = 0xFFF000" "0xFFF000 + RELOC_WINDOW = 0x8FFF000"
    "page_up 0xFFFFE000 = 0xFFFFE000" "page_up (0x6000 + 0xFFFFE000) = 0x4000" "0x400000 - 0xFFF000 = (0xFF401000 :: u32)"
    by code_simp+
  have "plan_arena 0 (Some (hint_file, 0)) 236 [] hint_pool =
      (FND_OK, l', set_arena 0 0x400000 (0x400000 + page_up (0x6000 + 0xFFFFE000)) m)"
    by (rule plan_arena_relocatable [where info = info and l = l])
       (use i l m(1) r in \<open>simp_all only: lo option.map fst_conv\<close>, simp_all add: lo)
  then have "plan_arena 0 (Some (hint_file, 0)) 236 [] hint_pool = (FND_OK, l', set_arena 0 0x400000 0x404000 m)"
    by (simp only: lo) simp
  moreover have "map r_start (l_regions l') = map (\<lambda>a. a + 0xFF401000) (map r_start (l_regions l))"
    "map r_end (l_regions l') = map (\<lambda>a. a + 0xFF401000) (map r_end (l_regions l))"
    by (simp_all add: l' shift_region_def)
  ultimately show ?thesis
    using l l' m(2) by (simp add: set_arena_def upd_mproc_def hint_pool_def)
qed

section \<open>Failed launches\<close>

lemma wax_status_ok [simp]: "wax_status e = FND_OK \<longleftrightarrow> e = WAX_OK"
  by (cases e) simp_all


lemma pool_ok_mprocs [simp]: "pool_ok (m\<lparr>mprocs := f\<rparr>) = pool_ok m"
  by (simp add: pool_ok_def free_set_def)

lemma free_page_mprocs: "free_page i (m\<lparr>mprocs := f\<rparr>) = (free_page i m)\<lparr>mprocs := f\<rparr>"
  by (simp add: free_page_def frame_taken_def)

lemma fold_free_page_mprocs: "fold free_page xs (m\<lparr>mprocs := f\<rparr>) = (fold free_page xs m)\<lparr>mprocs := f\<rparr>"
  by (induction xs arbitrary: m) (simp_all add: free_page_mprocs)

lemma mm_arena_free_mprocs [simp]: "mm_arena_free lo hi (m\<lparr>mprocs := f\<rparr>) = (mm_arena_free lo hi m)\<lparr>mprocs := f\<rparr>"
  by (simp add: mm_arena_free_def fold_free_page_mprocs)









lemma mm_arena_free_vm [simp]: "mm_vm (mm_arena_free lo hi m) = mm_vm m"
proof -
  have "mm_vm (fold free_page xs m) = mm_vm m" for xs
    by (induction xs arbitrary: m) (simp_all add: free_page_def)
  then show ?thesis by (simp add: mm_arena_free_def)
qed





section \<open>Successful launches\<close>









end
