(* ===== verification/Spec2Isabelle.thy ===== *)
theory Spec2Isabelle
  imports Rle Code_Bound Name_Facts Pipe_Quiet Disk_Facts Crypt_Facts Crypt_Checks Sched_Runs Wax_Link Wax_Facts
    Spawn_Checks Spawn_Facts
begin

text \<open>
  Foundation: a verification development for the operating system under \<open>src/foundation\<close>.

  \<^bold>\<open>The program.\<close> Foundation is a small operating system for the CPT32, a 32-bit big-endian machine with
  memory-mapped devices. Its kernel (\<open>kernel/*.c\<close>) has processes, threads with three priorities, synchronous
  message passing over ports and channels, and memory protection by regions or by two-level page tables;
  everything else is a service that answers messages: the disk service (\<open>services/disk\<close>) reads and writes
  sectors through the kernel's block I/O, the pipe service (\<open>services/pipe\<close>) keeps ring buffers between
  processes, the file service (\<open>fs\<close>) keeps FS2 volumes on the disk service's sectors. Executables are WAX
  images, which the kernel itself validates, links and loads. Libraries (\<open>lib\<close>) are used by the services and
  by programs: RLE compression, character codes, names and their case folding, ChaCha20 and Poly1305.

  \<^bold>\<open>Conventions.\<close> Words are \<open>u8\<close>, \<open>u16\<close>, \<open>u32\<close>, \<open>u64\<close> wherever the source can wrap around or works on bits;
  positions, sizes and counters that stay below their type's bound are \<open>nat\<close>, and the file that does so says why.
  A status is an \<open>int\<close> with the source's error codes (\<open>Kernel_State\<close>, \<open>Prelude\<close>). Physical memory is a function
  from addresses to bytes; a buffer that the code only passes on is a list of bytes. Static arrays are functions
  of the index or lists, pointers into them are indices and \<open>None\<close> the null pointer. State is passed explicitly:
  an operation takes the state record and returns it with its result. Loops are recursive functions that
  terminate; a loop that may run for ever (waiting for a device, a mapping callback that makes no progress) is a
  partial function where \<open>None\<close> is not returning. Devices, and other code outside \<open>src\<close>, are parameters: the
  \<open>machine\<close> record of \<open>Kernel_State\<close> says what a device register returns after the accesses so far, the
  \<open>drives\<close> record of \<open>Disk\<close> what the kernel's block I/O does.

  \<^bold>\<open>Shared theories.\<close> \<open>Prelude\<close> has the types, byte order, and generic lemmas on words, lists and bounded
  loops. \<open>Simulation\<close> has traces of labelled steps and the locale of forward simulations; \<open>Linked_Queue\<close> the
  locale of first-in first-out queues with the intrusive linked list of the kernel as its instance.

  \<^bold>\<open>Kernel memory.\<close> \<open>Mm_State\<close> is the state of \<open>kernel/mm.c\<close>; \<open>Phys_Mem\<close> its copies and clears of physical memory
  (whole words, shifted words and bytes), proved equal to a bytewise copy; \<open>Page_Pool\<close> the pool of pages with its
  arena allocator (first fit from below) and frame allocator (from above): what an allocation takes,
  that it fails only when nothing fits, and that free undoes it. \<open>Vm\<close> has both protection backends, with copy on
  write and the cache of checked user ranges; \<open>User_Mem\<close> the copies to and from user memory.

  \<^bold>\<open>Kernel threads and processes.\<close> \<open>Kernel_State\<close> is the state of \<open>kernel/internal.h\<close>. \<open>Sched\<close> models \<open>kernel/sched.c\<close>
  with its linked ready queues: each holds exactly the ready threads of its priority, and \<open>sched_next\<close> takes the
  oldest of the most urgent ones. \<open>Sched_Runs\<close> makes the scheduler a step relation and proves that it implements
  lanes of threads, that the invariant holds in every state reached from start-up, and the round robin.
  \<open>lost_thread\<close> is a run in which a reused thread slot takes ready threads out of the queue. \<open>Handles\<close> and \<open>Ipc\<close>
  model \<open>kernel/ipc.c\<close>: objects and references, handle tables, calls, receives, replies, services, waits,
  interrupts. \<open>Proc\<close>, \<open>Proc_Calls\<close>, \<open>Spawn\<close> model \<open>kernel/proc.c\<close>; \<open>Spawn_Checks\<close> and \<open>Spawn_Facts\<close> show what accepted
  grants, an accepted boot image (\<open>kernel/fndboot.c\<close>) and a successful arena plan guarantee, that a failed
  launch leaves nothing behind, and a heap hint that breaks the plan. \<open>Trap\<close> is \<open>kernel/trap.c\<close>: interrupts, the
  system call table, faults. \<open>Blk\<close> is \<open>kernel/blk.c\<close>, \<open>Drivers\<close> the streams \<open>kernel/fb.c\<close>, \<open>sgu.c\<close>, \<open>sgc.c\<close>, \<open>pec.c\<close>.

  \<^bold>\<open>Executables.\<close> \<open>Wax_Image\<close>, \<open>Wax_Parse\<close>, \<open>Wax_Plan\<close>, \<open>Wax_Load\<close> model \<open>kernel/wax.c\<close> from the bytes of a file to the
  loaded process: validation, choice of libraries, import binding, placement, relocation. \<open>Wax_Facts\<close> shows the
  layout of an accepted file, the end of the resolver's recursion and that both ways to relocate
  agree; \<open>Wax_Link\<close> the search for exports and the placement. The resolver's fuel is one level for each image that
  may still be added (\<open>WAX_MAX_IMAGES\<close> in all), and \<open>resolver_returns\<close> proves that this is always enough.

  \<^bold>\<open>Services.\<close> \<open>Pipe\<close> models \<open>services/pipe/main.c\<close>, a server that answers a request when it can and keeps it
  otherwise; \<open>Pipe_Facts\<close> shows, for every sequence of events, that the bytes come out in the order they
  went in, and \<open>Pipe_Quiet\<close> that no request waits that could be answered. \<open>Disk\<close> models \<open>services/disk\<close>: four windows
  of sectors in least recently used order and the requests of its client; \<open>Disk_Facts\<close> shows that a read
  never returns sectors that are not on the drive at that moment, for drives that do what the named hypothesis
  \<open>drives_ok\<close> says (reads change nothing, writes change only their range), and the order of the ages.

  \<^bold>\<open>Libraries.\<close> \<open>Rle\<close> (\<open>lib/rle/rle.c\<close>): round trip, size bound, the decoder against its format, no store
  beyond the buffer. \<open>Code\<close>, \<open>Code_Facts\<close>, \<open>Code_Bound\<close> (\<open>lib/code/code.c\<close>): conversions against the definition of
  the encoding forms, round trips, the size bound. \<open>Casefold\<close>, \<open>Name\<close>, \<open>Name_Utf8\<close>, \<open>Name_Match\<close>, \<open>Name_Facts\<close>
  (\<open>lib/fnd/name.c\<close>, \<open>name_api.c\<close>, \<open>casefold_table.h\<close>): the table search against the whole table, equality of
  names, folding with its buffer protocol, pattern match. \<open>Crypt\<close>, \<open>Poly1305\<close>, \<open>Crypt_Facts\<close>, \<open>Crypt_Checks\<close>
  (\<open>lib/crypt/crypt.c\<close>): the limb arithmetic of Poly1305 against the integers modulo \<open>2^130 - 5\<close>, the cipher's
  key stream and round trip, examples of RFC 8439. \<open>Conde\<close> is the result type of the conversion libraries.

  \<^bold>\<open>Not modelled.\<close> The shell, the console and init services, the file service above its volumes, the
  programs, the runtime start-up and the C library layers consist of calls of the system and text output; the
  entry stub of the kernel is assembly; the Tang board builds select other drivers at compile time.
  The LZMA library, the soft-float runtime and the emulator's chips are vendored, or not part of the operating system.
  \<open>idle_loop\<close> (a HALT loop), \<open>copy_dma\<close> (the DMA path of \<open>kmem_copy\<close>) and the registration of services at their
  start are left out of the components that are modelled.
\<close>

end
